(* ===== verification/PW_Prelude.thy ===== *)
theory PW_Prelude
  imports Main "HOL-Library.Word" "HOL-Library.Monad_Syntax"
begin

text \<open>
  The prelude of the PhoenixWire development: the machine types of the C code, its arrays
  and the few operations of the C language and its library that the code uses on them.

  An array is the list of its elements, of the array's length. A pointer into an array is the
  array together with an index, so a function with a parameter \<open>uint8_t* buffer\<close> takes the
  array \<open>buffer\<close> and the index \<open>p\<close> that the pointer stands for. Every access is checked:
  \<open>rd\<close>, \<open>wr\<close>, \<open>memcpy\<close> and \<open>memcmp_eq\<close> are \<open>None\<close> when they leave the array,
  and \<open>None\<close> is propagated by the option monad. So a result \<open>None\<close> of a modelled function
  is an access out of bounds, the undefined behaviour of C, and a theorem that a function returns
  \<open>Some\<close> is memory safety. A value of type \<open>size_t\<close> is a natural number below \<open>2 ^ 64\<close>;
  where the code's sum can pass that bound it is written with \<open>size_add\<close>, which wraps.
\<close>

unbundle bit_operations_syntax

section \<open>Machine types\<close>

type_synonym byte = "8 word"
type_synonym u16 = "16 word"
type_synonym u32 = "32 word"
type_synonym u64 = "64 word"

text \<open>A pointer that may be \<open>NULL\<close>: the array it points into and the index.\<close>

type_synonym ptr = "(byte list \<times> nat) option"

named_theorems mem_simps \<open>length, content and success of the array operations\<close>
named_theorems pw_consts \<open>the constants of the headers\<close>

section \<open>Arithmetic of size_t\<close>

definition SIZE_MAX :: nat where
  "SIZE_MAX = 2 ^ 64 - 1"

definition size_add :: "nat \<Rightarrow> nat \<Rightarrow> nat" where
  "size_add a b = (a + b) mod 2 ^ 64"

definition size_sub :: "nat \<Rightarrow> nat \<Rightarrow> nat" where
  "size_sub a b = (if b \<le> a then a - b else 2 ^ 64 + a - b)"

lemma size_sub_le [mem_simps]: "b \<le> a \<Longrightarrow> size_sub a b = a - b"
  by (simp add: size_sub_def)

lemma size_add_small: "a + b < 2 ^ 64 \<Longrightarrow> size_add a b = a + b"
  by (simp add: size_add_def)

lemma size_add_max: "0 < b \<Longrightarrow> b \<le> SIZE_MAX \<Longrightarrow> size_add SIZE_MAX b = b - 1"
proof -
  assume "0 < b" and "b \<le> SIZE_MAX"
  then have "2 ^ 64 - 1 + b = 2 ^ 64 + (b - 1)" and "b - 1 < 2 ^ 64"
    by (simp_all add: SIZE_MAX_def)
  then show ?thesis
    by (simp only: size_add_def SIZE_MAX_def mod_add_self1 mod_less)
qed

lemma size_add_max_0: "size_add SIZE_MAX 0 = SIZE_MAX"
  by (simp add: size_add_def SIZE_MAX_def)

lemma size_add_bound: "size_add a b \<le> SIZE_MAX"
proof -
  have "(a + b) mod 2 ^ 64 < (2 :: nat) ^ 64"
    by (rule mod_less_divisor) simp
  then show ?thesis by (simp add: size_add_def SIZE_MAX_def)
qed

lemma unat_u32_bound: "unat (x :: u32) < 2 ^ 32"
  using unsigned_less [of x, where ?'a = nat] by simp

section \<open>Bits of words\<close>

lemma unat_drop_bit: "unat (drop_bit n w) = unat w div 2 ^ n" for w :: "'a::len word"
  unfolding unat_drop_bit_eq by (rule drop_bit_eq_div)

lemma drop_bit_0_iff: "drop_bit n w = 0 \<longleftrightarrow> unat w < 2 ^ n" for w :: "'a::len word"
proof -
  have "drop_bit n w = 0 \<longleftrightarrow> unat (drop_bit n w) = 0" by (simp only: unat_eq_0)
  also have "\<dots> \<longleftrightarrow> unat w < 2 ^ n" unfolding unat_drop_bit by (simp add: div_eq_0_iff)
  finally show ?thesis .
qed

lemma and_not_mask_0_iff: "w AND NOT (mask n) = 0 \<longleftrightarrow> unat w < 2 ^ n" for w :: "'a::len word"
proof -
  have lt: "i < LENGTH('a)" if "bit w (n + i)" for i
    using bit_imp_le_length [OF that] by simp
  have "w AND NOT (mask n) = 0 \<longleftrightarrow> (\<forall>i. n \<le> i \<longrightarrow> \<not> bit w i)" (is "?l \<longleftrightarrow> ?r")
  proof
    show ?r if ?l
    proof (intro allI impI notI)
      fix i assume "n \<le> i" "bit w i"
      then have "bit (w AND NOT (mask n)) i"
        by (simp add: bit_simps possible_bit_def) (metis bit_imp_le_length)
      with that show False by simp
    qed
    show ?l if ?r using that by (intro bit_word_eqI) (auto simp: bit_simps not_less)
  qed
  also have "\<dots> \<longleftrightarrow> (\<forall>i. \<not> bit w (n + i))"
    by (metis le_add_diff_inverse le_add1)
  also have "\<dots> \<longleftrightarrow> drop_bit n w = 0"
    by (simp only: bit_eq_iff bit_drop_bit_eq o_def bit_0_eq bot_apply bot_bool_def)
      (auto simp: possible_bit_def dest: lt)
  finally show ?thesis by (simp only: drop_bit_0_iff)
qed

text \<open>A word below \<open>2 ^ s\<close> and one shifted left by \<open>s\<close> have no common bit: or is addition.\<close>

lemma unat_or_push_bit:
  fixes r x :: "'a::len word"
  assumes r: "unat r < 2 ^ s" and x: "unat x * 2 ^ s < 2 ^ LENGTH('a)"
  shows "unat (r OR push_bit s x) = unat r + unat x * 2 ^ s"
proof -
  have p: "unat (push_bit s x) = push_bit s (unat x)"
    unfolding unsigned_push_bit_eq using x by (simp add: push_bit_eq_mult take_bit_nat_eq_self)
  from r have "take_bit s (unat r) = unat r" by (simp add: take_bit_nat_eq_self)
  then have "\<not> bit (unat r) i" if "s \<le> i" for i
    by (metis bit_take_bit_iff not_le that)
  then have "unat r AND push_bit s (unat x) = 0"
    by (intro bit_eqI) (auto simp only: bit_and_iff bit_push_bit_iff bit_0_eq)
  then have "unat r + push_bit s (unat x) = unat r OR push_bit s (unat x)"
    by (rule disjunctive_add_eq_or)
  then show ?thesis unfolding unsigned_or_eq p by (simp add: push_bit_eq_mult)
qed

lemma unat_ucast_small: "unat w < 2 ^ LENGTH('b) \<Longrightarrow> unat (ucast w :: 'b::len word) = unat w"
  for w :: "'a::len word"
  unfolding unsigned_ucast_eq by (simp add: take_bit_nat_eq_self)

section \<open>Arrays\<close>

definition rd :: "byte list \<Rightarrow> nat \<Rightarrow> byte option" where
  "rd buf i = (if i < length buf then Some (buf ! i) else None)"

definition wr :: "byte list \<Rightarrow> nat \<Rightarrow> byte \<Rightarrow> byte list option" where
  "wr buf i x = (if i < length buf then Some (buf[i := x]) else None)"

text \<open>The \<open>n\<close> elements from index \<open>p\<close> on, and the array with \<open>bs\<close> written at \<open>p\<close>.\<close>

definition bytes_at :: "'a list \<Rightarrow> nat \<Rightarrow> nat \<Rightarrow> 'a list" where
  "bytes_at buf p n = take n (drop p buf)"

definition put_bytes :: "'a list \<Rightarrow> nat \<Rightarrow> 'a list \<Rightarrow> 'a list" where
  "put_bytes buf p bs = take p buf @ bs @ drop (p + length bs) buf"

text \<open>\<open>memcpy\<close> and \<open>memmove\<close> copy \<open>n\<close> bytes; \<open>memcmp\<close> is used for equality only.\<close>

definition memcpy :: "byte list \<Rightarrow> nat \<Rightarrow> byte list \<Rightarrow> nat \<Rightarrow> nat \<Rightarrow> byte list option" where
  "memcpy dst d src s n =
     (if d + n \<le> length dst \<and> s + n \<le> length src then Some (put_bytes dst d (bytes_at src s n)) else None)"

definition memcmp_eq :: "byte list \<Rightarrow> nat \<Rightarrow> byte list \<Rightarrow> nat \<Rightarrow> nat \<Rightarrow> bool option" where
  "memcmp_eq a i b j n =
     (if i + n \<le> length a \<and> j + n \<le> length b then Some (bytes_at a i n = bytes_at b j n) else None)"

text \<open>\<open>strlen\<close> of an array that holds a C string: \<open>None\<close> when there is no terminator.\<close>

fun c_strlen :: "byte list \<Rightarrow> nat option" where
  "c_strlen [] = None"
| "c_strlen (b # bs) = (if b = 0 then Some 0 else map_option Suc (c_strlen bs))"

subsection \<open>Slices\<close>

lemma length_bytes_at [mem_simps]: "p + n \<le> length buf \<Longrightarrow> length (bytes_at buf p n) = n"
  by (simp add: bytes_at_def)

lemma length_bytes_at_le: "length (bytes_at buf p n) \<le> n"
  by (simp add: bytes_at_def)

lemma nth_bytes_at: "p + n \<le> length buf \<Longrightarrow> i < n \<Longrightarrow> bytes_at buf p n ! i = buf ! (p + i)"
  by (simp add: bytes_at_def)

lemma bytes_at_0 [simp]: "bytes_at buf p 0 = []"
  by (simp add: bytes_at_def)

lemma bytes_at_all [simp]: "bytes_at buf 0 (length buf) = buf"
  by (simp add: bytes_at_def)

lemma bytes_at_whole: "length buf = n \<Longrightarrow> bytes_at buf 0 n = buf"
  by (simp add: bytes_at_def)

lemma bytes_at_appended:
  "p = length xs \<Longrightarrow> n = length ys \<Longrightarrow> bytes_at (xs @ ys @ zs) p n = ys"
  by (simp add: bytes_at_def)

lemma bytes_at_bytes_at:
  "i + k \<le> n \<Longrightarrow> bytes_at (bytes_at buf p n) i k = bytes_at buf (p + i) k"
  by (simp add: bytes_at_def take_drop min_def add_ac)

lemma bytes_at_append: "bytes_at buf p n @ bytes_at buf (p + n) k = bytes_at buf p (n + k)"
  by (simp add: bytes_at_def take_add add.commute [of n p])

lemma take_bytes_at: "k \<le> n \<Longrightarrow> take k (bytes_at buf p n) = bytes_at buf p k"
  by (simp add: bytes_at_def min_def)

lemma drop_bytes_at: "drop k (bytes_at buf p n) = bytes_at buf (p + k) (n - k)"
  by (simp add: bytes_at_def drop_take add.commute)

lemma bytes_at_Suc: "p < length buf \<Longrightarrow> bytes_at buf p (Suc n) = buf ! p # bytes_at buf (Suc p) n"
  by (simp add: bytes_at_def Cons_nth_drop_Suc [symmetric])

lemma bytes_at_snoc: "p + n < length buf \<Longrightarrow> bytes_at buf p (Suc n) = bytes_at buf p n @ [buf ! (p + n)]"
  by (simp add: bytes_at_def take_Suc_conv_app_nth)

lemma rd_Some [mem_simps]: "i < length buf \<Longrightarrow> rd buf i = Some (buf ! i)"
  by (simp add: rd_def)

lemma rd_None [mem_simps]: "length buf \<le> i \<Longrightarrow> rd buf i = None"
  by (simp add: rd_def)

lemma rd_bytes_at: "p + n \<le> length buf \<Longrightarrow> i < n \<Longrightarrow> rd buf (p + i) = Some (bytes_at buf p n ! i)"
  by (simp add: rd_def nth_bytes_at)

subsection \<open>Splices\<close>

lemma length_put_bytes [mem_simps]: "p + length bs \<le> length buf \<Longrightarrow> length (put_bytes buf p bs) = length buf"
  by (simp add: put_bytes_def)

lemma put_bytes_Nil [simp]: "put_bytes buf p [] = buf"
  by (simp add: put_bytes_def)

lemma put_bytes_whole: "length bs = length buf \<Longrightarrow> put_bytes buf 0 bs = bs"
  by (simp add: put_bytes_def)

lemma put_bytes_append:
  assumes "p + length xs + length ys \<le> length buf"
  shows "put_bytes (put_bytes buf p xs) (p + length xs) ys = put_bytes buf p (xs @ ys)"
  using assms by (simp add: put_bytes_def ac_simps)

lemma put_bytes_chain [mem_simps]:
  "q = p + length xs \<Longrightarrow> q + length ys \<le> length buf \<Longrightarrow>
   put_bytes (put_bytes buf p xs) q ys = put_bytes buf p (xs @ ys)"
  by (simp add: put_bytes_append)

lemma bytes_at_put_bytes_same: "p + length bs \<le> length buf \<Longrightarrow> bytes_at (put_bytes buf p bs) p (length bs) = bs"
  by (simp add: bytes_at_def put_bytes_def)

lemma bytes_at_put_bytes_before:
  "i + n \<le> p \<Longrightarrow> p + length bs \<le> length buf \<Longrightarrow> bytes_at (put_bytes buf p bs) i n = bytes_at buf i n"
  by (simp add: bytes_at_def put_bytes_def drop_take)

lemma bytes_at_put_bytes_append:
  assumes "i + n = p" and "p + length bs \<le> length buf"
  shows "bytes_at (put_bytes buf p bs) i (n + length bs) = bytes_at buf i n @ bs"
proof -
  have "bytes_at (put_bytes buf p bs) i (n + length bs)
        = bytes_at (put_bytes buf p bs) i n @ bytes_at (put_bytes buf p bs) p (length bs)"
    using bytes_at_append [of "put_bytes buf p bs" i n "length bs"] assms(1) by simp
  with assms show ?thesis
    by (simp add: bytes_at_put_bytes_before bytes_at_put_bytes_same)
qed

lemma wr_put_bytes: "wr buf i x = (if i < length buf then Some (put_bytes buf i [x]) else None)"
  by (simp add: wr_def put_bytes_def upd_conv_take_nth_drop)

lemma wr_Some [mem_simps]: "i < length buf \<Longrightarrow> wr buf i x = Some (put_bytes buf i [x])"
  by (simp add: wr_put_bytes)

lemma memcpy_Some [mem_simps]:
  "d + n \<le> length dst \<Longrightarrow> s + n \<le> length src \<Longrightarrow> memcpy dst d src s n = Some (put_bytes dst d (bytes_at src s n))"
  by (simp add: memcpy_def)

lemma memcpy_overflow [mem_simps]: "length dst < d + n \<Longrightarrow> memcpy dst d src s n = None"
  by (simp add: memcpy_def)

subsection \<open>C strings\<close>

lemma c_strlen_terminated: "0 \<notin> set bs \<Longrightarrow> c_strlen (bs @ 0 # rest) = Some (length bs)"
  by (induction bs) auto

lemma c_strlen_SomeD: "c_strlen bs = Some n \<Longrightarrow> n < length bs \<and> bs ! n = 0 \<and> 0 \<notin> set (take n bs)"
proof (induction bs arbitrary: n)
  case (Cons b bs)
  then show ?case by (cases n) (auto split: if_splits)
qed simp

text \<open>What is left of a list that lost a prefix, grew and lost a prefix again.\<close>

lemma drop_of_drop_append: "\<exists>k. drop m (drop n xs @ ys) = drop k (xs @ ys)"
proof (cases "n \<le> length xs")
  case True
  then have "drop n xs @ ys = drop n (xs @ ys)" by simp
  then have "drop m (drop n xs @ ys) = drop (m + n) (xs @ ys)" by (metis drop_drop)
  then show ?thesis ..
next
  case False
  then have "drop m (drop n xs @ ys) = drop (m + length xs) (xs @ ys)" by simp
  then show ?thesis ..
qed

section \<open>Decimal numbers\<close>

text \<open>Numbers as \<open>printf\<close> writes them.\<close>

definition digit :: "nat \<Rightarrow> char" where
  "digit d = char_of (48 + d)"

fun decimal :: "nat \<Rightarrow> string" where
  "decimal n = (if n div 10 = 0 then [digit n] else decimal (n div 10) @ [digit (n mod 10)])"

declare decimal.simps [simp del]

definition signed_decimal :: "int \<Rightarrow> string" where
  "signed_decimal i = (if i < 0 then CHR ''-'' # decimal (nat (- i)) else decimal (nat i))"

text \<open>The decimal digits denote the number.\<close>

lemma decimal_value: "foldl (\<lambda>a c. 10 * a + (of_char c - 48)) 0 (decimal n) = n"
proof (induction n rule: decimal.induct)
  case (1 n)
  have "of_char (digit d) = 48 + d" if "d < 10" for d
    using that by (simp add: digit_def of_char_of)
  with 1 show ?case by (subst decimal.simps) auto
qed

end
