(* ===== verification/PW_Flow.thy ===== *)
theory PW_Flow
  imports PW_Prelude
begin

text \<open>
  The byte windows of \<open>native/src/pw_flow.c\<close>: an outbound and an inbound one with the same
  operations, a guard, a charge and a release. A flow control structure may be \<open>NULL\<close>, which is
  \<open>None\<close>. The counters are 32-bit words, so the guard's sum wraps. What a window promises is the
  locale \<open>window\<close>, interpreted on both; the specification is an exact counter of natural numbers.
\<close>

section \<open>The code\<close>

record pw_flow_control =
  max_outbound_bytes :: u32
  current_outbound_bytes :: u32
  max_inbound_bytes :: u32
  current_inbound_bytes :: u32

definition pw_flow_init :: "pw_flow_control option \<Rightarrow> u32 \<Rightarrow> u32 \<Rightarrow> pw_flow_control option" where
  "pw_flow_init flow max_outbound max_inbound =
     (case flow of
        None \<Rightarrow> None
      | Some f \<Rightarrow> Some (f\<lparr>max_outbound_bytes := max_outbound, current_outbound_bytes := 0,
                         max_inbound_bytes := max_inbound, current_inbound_bytes := 0\<rparr>))"

definition pw_flow_can_send :: "pw_flow_control option \<Rightarrow> u32 \<Rightarrow> bool" where
  "pw_flow_can_send flow bytes_to_send =
     (case flow of
        None \<Rightarrow> True
      | Some f \<Rightarrow>
          if max_outbound_bytes f = 0 then True
          else current_outbound_bytes f + bytes_to_send \<le> max_outbound_bytes f)"

definition pw_flow_on_enqueued :: "pw_flow_control option \<Rightarrow> u32 \<Rightarrow> pw_flow_control option" where
  "pw_flow_on_enqueued flow bytes_enqueued =
     (case flow of
        None \<Rightarrow> None
      | Some f \<Rightarrow> Some (f\<lparr>current_outbound_bytes := current_outbound_bytes f + bytes_enqueued\<rparr>))"

definition pw_flow_on_sent :: "pw_flow_control option \<Rightarrow> u32 \<Rightarrow> pw_flow_control option" where
  "pw_flow_on_sent flow bytes_sent =
     (case flow of
        None \<Rightarrow> None
      | Some f \<Rightarrow>
          if bytes_sent \<le> current_outbound_bytes f
          then Some (f\<lparr>current_outbound_bytes := current_outbound_bytes f - bytes_sent\<rparr>)
          else Some (f\<lparr>current_outbound_bytes := 0\<rparr>))"

definition pw_flow_can_receive :: "pw_flow_control option \<Rightarrow> u32 \<Rightarrow> bool" where
  "pw_flow_can_receive flow bytes_to_receive =
     (case flow of
        None \<Rightarrow> True
      | Some f \<Rightarrow>
          if max_inbound_bytes f = 0 then True
          else current_inbound_bytes f + bytes_to_receive \<le> max_inbound_bytes f)"

definition pw_flow_on_received :: "pw_flow_control option \<Rightarrow> u32 \<Rightarrow> pw_flow_control option" where
  "pw_flow_on_received flow bytes_received =
     (case flow of
        None \<Rightarrow> None
      | Some f \<Rightarrow> Some (f\<lparr>current_inbound_bytes := current_inbound_bytes f + bytes_received\<rparr>))"

definition pw_flow_on_consumed :: "pw_flow_control option \<Rightarrow> u32 \<Rightarrow> pw_flow_control option" where
  "pw_flow_on_consumed flow bytes_consumed =
     (case flow of
        None \<Rightarrow> None
      | Some f \<Rightarrow>
          if bytes_consumed \<le> current_inbound_bytes f
          then Some (f\<lparr>current_inbound_bytes := current_inbound_bytes f - bytes_consumed\<rparr>)
          else Some (f\<lparr>current_inbound_bytes := 0\<rparr>))"

section \<open>The users of a window\<close>

text \<open>A user asks before it charges, and releases when bytes have left. The specification counts with
  natural numbers; a release of more than is charged leaves nothing charged.\<close>

datatype window_event = Charge u32 | Release u32

fun window_run ::
  "('s \<Rightarrow> u32 \<Rightarrow> bool) \<Rightarrow> ('s \<Rightarrow> u32 \<Rightarrow> 's) \<Rightarrow> ('s \<Rightarrow> u32 \<Rightarrow> 's) \<Rightarrow> 's \<Rightarrow> window_event list \<Rightarrow> 's" where
  "window_run can add rel s [] = s"
| "window_run can add rel s (Charge b # es) = window_run can add rel (if can s b then add s b else s) es"
| "window_run can add rel s (Release b # es) = window_run can add rel (rel s b) es"

fun window_spec :: "nat \<Rightarrow> nat \<Rightarrow> window_event list \<Rightarrow> nat" where
  "window_spec limit n [] = n"
| "window_spec limit n (Charge b # es) = window_spec limit (if n + unat b \<le> limit then n + unat b else n) es"
| "window_spec limit n (Release b # es) = window_spec limit (n - unat b) es"

fun charge_bound :: "nat \<Rightarrow> window_event \<Rightarrow> bool" where
  "charge_bound limit (Charge b) \<longleftrightarrow> limit + unat b < 2 ^ 32"
| "charge_bound limit (Release b) \<longleftrightarrow> True"

lemma window_spec_bound: "n \<le> limit \<Longrightarrow> window_spec limit n es \<le> limit"
  by (induction limit n es rule: window_spec.induct) simp_all

text \<open>The contract of a limited window; a window of limit 0, or none at all, does not limit.\<close>

locale window =
  fixes can :: "'s \<Rightarrow> u32 \<Rightarrow> bool"
    and add :: "'s \<Rightarrow> u32 \<Rightarrow> 's"
    and rel :: "'s \<Rightarrow> u32 \<Rightarrow> 's"
    and cur :: "'s \<Rightarrow> u32"
    and lim :: "'s \<Rightarrow> u32"
  assumes can_iff: "can s b \<longleftrightarrow> lim s = 0 \<or> cur s + b \<le> lim s"
    and cur_add: "lim s \<noteq> 0 \<Longrightarrow> cur (add s b) = cur s + b"
    and cur_rel: "lim s \<noteq> 0 \<Longrightarrow> cur (rel s b) = (if b \<le> cur s then cur s - b else 0)"
    and lim_add: "lim (add s b) = lim s"
    and lim_rel: "lim (rel s b) = lim s"
begin

lemma unat_cur_rel: "lim s \<noteq> 0 \<Longrightarrow> unat (cur (rel s b)) = unat (cur s) - unat b"
  by (auto simp: cur_rel unat_sub word_le_nat_alt)

lemma can_exact:
  assumes "lim s \<noteq> 0" and "unat (cur s) \<le> unat (lim s)" and "unat (lim s) + unat b < 2 ^ 32"
  shows "can s b \<longleftrightarrow> unat (cur s) + unat b \<le> unat (lim s)"
    and "can s b \<Longrightarrow> unat (cur (add s b)) = unat (cur s) + unat b"
proof -
  have "unat (cur s) + unat b < 2 ^ LENGTH(32)" using assms(2,3) by simp
  then have "unat (cur s + b) = unat (cur s) + unat b" by (rule unat_add_lem [THEN iffD1])
  then show "can s b \<longleftrightarrow> unat (cur s) + unat b \<le> unat (lim s)"
    and "can s b \<Longrightarrow> unat (cur (add s b)) = unat (cur s) + unat b"
    using assms(1) by (simp_all add: can_iff word_le_nat_alt cur_add)
qed

lemma run_exact:
  assumes "lim s \<noteq> 0" and "unat (cur s) \<le> unat (lim s)"
    and "\<forall>e \<in> set es. charge_bound (unat (lim s)) e"
  shows "unat (cur (window_run can add rel s es)) = window_spec (unat (lim s)) (unat (cur s)) es \<and>
    lim (window_run can add rel s es) = lim s"
  using assms
proof (induction es arbitrary: s)
  case (Cons e es)
  show ?case
  proof (cases e)
    case (Charge b)
    with Cons.prems have b: "unat (lim s) + unat b < 2 ^ 32" by simp
    note exact = can_exact [OF Cons.prems(1,2) b]
    show ?thesis
    proof (cases "can s b")
      case True
      with Cons.IH [of "add s b"] Cons.prems exact Charge show ?thesis by (simp add: lim_add)
    next
      case False
      with Cons.IH [of s] Cons.prems exact Charge show ?thesis by simp
    qed
  next
    case (Release b)
    with Cons.IH [of "rel s b"] Cons.prems show ?thesis by (simp add: lim_rel unat_cur_rel)
  qed
qed simp

lemma guard_wraps:
  assumes "lim s \<noteq> 0"
  shows "can s (- cur s) \<and> cur (add s (- cur s)) = 0"
  using assms by (simp add: can_iff cur_add)

end

lemma unat_plus_complement: "c \<noteq> 0 \<Longrightarrow> unat c + unat (- c) = 2 ^ 32" for c :: u32
proof -
  assume "c \<noteq> 0"
  then have "0 < unat c" by (simp add: unat_gt_0)
  have "(unat c + unat (- c)) mod 2 ^ LENGTH(32) = unat (c + - c)" by (simp only: unat_word_ariths)
  then have "(unat c + unat (- c)) mod 4294967296 = 0" by simp
  moreover have "unat c + unat (- c) < 2 * 4294967296"
    using unat_u32_bound [of c] unat_u32_bound [of "- c"] by simp
  ultimately show ?thesis using \<open>0 < unat c\<close> by (simp add: mod_if split: if_splits)
qed

section \<open>Both windows of the structure\<close>

definition out_current :: "pw_flow_control option \<Rightarrow> u32" where
  "out_current flow = (case flow of None \<Rightarrow> 0 | Some f \<Rightarrow> current_outbound_bytes f)"

definition out_limit :: "pw_flow_control option \<Rightarrow> u32" where
  "out_limit flow = (case flow of None \<Rightarrow> 0 | Some f \<Rightarrow> max_outbound_bytes f)"

definition in_current :: "pw_flow_control option \<Rightarrow> u32" where
  "in_current flow = (case flow of None \<Rightarrow> 0 | Some f \<Rightarrow> current_inbound_bytes f)"

definition in_limit :: "pw_flow_control option \<Rightarrow> u32" where
  "in_limit flow = (case flow of None \<Rightarrow> 0 | Some f \<Rightarrow> max_inbound_bytes f)"

lemmas flow_defs = pw_flow_init_def pw_flow_can_send_def pw_flow_on_enqueued_def pw_flow_on_sent_def
  pw_flow_can_receive_def pw_flow_on_received_def pw_flow_on_consumed_def
  out_current_def out_limit_def in_current_def in_limit_def

interpretation outbound: window pw_flow_can_send pw_flow_on_enqueued pw_flow_on_sent out_current out_limit
  by unfold_locales (auto simp: flow_defs split: option.splits)

interpretation inbound: window pw_flow_can_receive pw_flow_on_received pw_flow_on_consumed in_current in_limit
  by unfold_locales (auto simp: flow_defs split: option.splits)

text \<open>The operations of one window leave the other one alone.\<close>

lemma out_keeps_in:
  "in_current (window_run pw_flow_can_send pw_flow_on_enqueued pw_flow_on_sent s es) = in_current s"
  "in_limit (window_run pw_flow_can_send pw_flow_on_enqueued pw_flow_on_sent s es) = in_limit s"
proof (induction es arbitrary: s)
  case (Cons e es)
  case 1 show ?case by (cases e) (simp_all add: Cons, auto simp: flow_defs split: option.splits)
  case 2 show ?case by (cases e) (simp_all add: Cons, auto simp: flow_defs split: option.splits)
qed simp_all

lemma in_keeps_out:
  "out_current (window_run pw_flow_can_receive pw_flow_on_received pw_flow_on_consumed s es) = out_current s"
  "out_limit (window_run pw_flow_can_receive pw_flow_on_received pw_flow_on_consumed s es) = out_limit s"
proof (induction es arbitrary: s)
  case (Cons e es)
  case 1 show ?case by (cases e) (simp_all add: Cons, auto simp: flow_defs split: option.splits)
  case 2 show ?case by (cases e) (simp_all add: Cons, auto simp: flow_defs split: option.splits)
qed simp_all

section \<open>Properties\<close>

definition flow_zero :: pw_flow_control where
  "flow_zero = \<lparr>max_outbound_bytes = 0, current_outbound_bytes = 0, max_inbound_bytes = 0, current_inbound_bytes = 0\<rparr>"

text \<open>C32: Flow control that starts from an initialised structure is exact as long as no charge is so
  large that limit plus charge exceeds 32 bits: after any sequence of guarded charges and releases on
  either window, its counter equals the specification's exact count, so it never passes the limit,
  and the other window is untouched.\<close>

theorem flow_windows_exact:
  assumes "max_out \<noteq> 0" and "max_in \<noteq> 0"
    and "\<forall>e \<in> set es. charge_bound (unat max_out) e" and "\<forall>e \<in> set es. charge_bound (unat max_in) e"
  shows "let f = pw_flow_init (Some f0) max_out max_in;
             s = window_run pw_flow_can_send pw_flow_on_enqueued pw_flow_on_sent f es;
             r = window_run pw_flow_can_receive pw_flow_on_received pw_flow_on_consumed f es
         in unat (out_current s) = window_spec (unat max_out) 0 es \<and> unat (out_current s) \<le> unat max_out \<and>
            unat (in_current r) = window_spec (unat max_in) 0 es \<and> unat (in_current r) \<le> unat max_in \<and>
            in_current s = 0 \<and> out_current r = 0"
proof -
  let ?f = "pw_flow_init (Some f0) max_out max_in"
  have f: "out_current ?f = 0" "out_limit ?f = max_out" "in_current ?f = 0" "in_limit ?f = max_in"
    by (simp_all add: flow_defs)
  show ?thesis
    using outbound.run_exact [of ?f es] inbound.run_exact [of ?f es] assms f
      window_spec_bound [of 0 "unat max_out" es] window_spec_bound [of 0 "unat max_in" es]
    by (simp add: Let_def out_keeps_in in_keeps_out)
qed

theorem flow_windows_exact_witness:
  "let f = pw_flow_init (Some flow_zero) 1000 500;
       es = [Charge 400, Charge 700, Release 100, Charge 200];
       s = window_run pw_flow_can_send pw_flow_on_enqueued pw_flow_on_sent f es;
       r = window_run pw_flow_can_receive pw_flow_on_received pw_flow_on_consumed f es
   in unat (out_current s) = 500 \<and> unat (in_current r) = 500"
  using flow_windows_exact [of 1000 500 "[Charge 400, Charge 700, Release 100, Charge 200]" flow_zero]
  by (simp add: Let_def)

text \<open>C33: The guards can be passed by a wrap of the 32-bit sum: whatever a limited window has charged,
  there is a charge, the two's complement of the counter, that both guards allow and that resets the
  counter to 0. With anything charged, the true total of that charge is \<open>2 ^ 32\<close>, past every limit.\<close>

theorem flow_guard_wraps:
  assumes "out_limit s \<noteq> 0" and "in_limit s \<noteq> 0" and "out_current s \<noteq> 0"
  shows "pw_flow_can_send s (- out_current s) \<and> out_current (pw_flow_on_enqueued s (- out_current s)) = 0 \<and>
    unat (out_current s) + unat (- out_current s) = 2 ^ 32 \<and>
    pw_flow_can_receive s (- in_current s) \<and> in_current (pw_flow_on_received s (- in_current s)) = 0"
proof -
  have "unat (out_current s) + unat (- out_current s) = 2 ^ 32"
    using assms(3) by (rule unat_plus_complement)
  then show ?thesis
    using outbound.guard_wraps [OF assms(1)] inbound.guard_wraps [OF assms(2)] by simp
qed

theorem flow_guard_wraps_witness:
  "let s = pw_flow_on_enqueued (pw_flow_init (Some flow_zero) 1000 500) 600
   in pw_flow_can_send s (- 600) \<and> unat (- 600 :: u32) = 4294966696 \<and>
      out_current (pw_flow_on_enqueued s (- 600)) = 0"
  using flow_guard_wraps [of "pw_flow_on_enqueued (pw_flow_init (Some flow_zero) 1000 500) 600"]
  by (simp add: Let_def flow_defs)

end
