(* ===== verification/PW_Heartbeat.thy ===== *)
theory PW_Heartbeat
  imports PW_Prelude
begin

text \<open>
  The heartbeat of \<open>native/src/pw_heartbeat.c\<close>: when to ping a silent peer and when to give it up.
  Times are 64-bit words in milliseconds, so the deadlines wrap. A structure that may be \<open>NULL\<close> is
  an option. The events of a session that uses it are the steps of \<open>hb_run\<close>.
\<close>

section \<open>The code\<close>

record pw_heartbeat =
  last_recv_time :: u64
  last_send_time :: u64
  ping_interval_ms :: u64
  timeout_ms :: u64
  waiting_for_pong :: bool

definition pw_heartbeat_init :: "pw_heartbeat option \<Rightarrow> u64 \<Rightarrow> u64 \<Rightarrow> pw_heartbeat option" where
  "pw_heartbeat_init hb ping_interval timeout =
     (case hb of
        None \<Rightarrow> None
      | Some h \<Rightarrow> Some (h\<lparr>last_recv_time := 0, last_send_time := 0, ping_interval_ms := ping_interval,
                         timeout_ms := timeout, waiting_for_pong := False\<rparr>))"

definition pw_heartbeat_on_recv :: "pw_heartbeat option \<Rightarrow> u64 \<Rightarrow> pw_heartbeat option" where
  "pw_heartbeat_on_recv hb current_time_ms =
     (case hb of None \<Rightarrow> None | Some h \<Rightarrow> Some (h\<lparr>last_recv_time := current_time_ms\<rparr>))"

definition pw_heartbeat_on_send :: "pw_heartbeat option \<Rightarrow> u64 \<Rightarrow> pw_heartbeat option" where
  "pw_heartbeat_on_send hb current_time_ms =
     (case hb of None \<Rightarrow> None | Some h \<Rightarrow> Some (h\<lparr>last_send_time := current_time_ms\<rparr>))"

definition pw_heartbeat_should_ping :: "pw_heartbeat option \<Rightarrow> u64 \<Rightarrow> bool" where
  "pw_heartbeat_should_ping hb current_time_ms =
     (case hb of
        None \<Rightarrow> False
      | Some h \<Rightarrow>
          if ping_interval_ms h = 0 then False
          else if waiting_for_pong h then False
          else last_recv_time h + ping_interval_ms h \<le> current_time_ms)"

definition pw_heartbeat_is_timed_out :: "pw_heartbeat option \<Rightarrow> u64 \<Rightarrow> bool" where
  "pw_heartbeat_is_timed_out hb current_time_ms =
     (case hb of
        None \<Rightarrow> False
      | Some h \<Rightarrow>
          if timeout_ms h = 0 then False
          else last_recv_time h + timeout_ms h \<le> current_time_ms)"

definition pw_heartbeat_on_pong :: "pw_heartbeat option \<Rightarrow> u64 \<Rightarrow> pw_heartbeat option" where
  "pw_heartbeat_on_pong hb current_time_ms =
     (case hb of
        None \<Rightarrow> None
      | Some h \<Rightarrow> Some (h\<lparr>waiting_for_pong := False, last_recv_time := current_time_ms\<rparr>))"

definition pw_heartbeat_on_ping_sent :: "pw_heartbeat option \<Rightarrow> u64 \<Rightarrow> pw_heartbeat option" where
  "pw_heartbeat_on_ping_sent hb current_time_ms =
     (case hb of
        None \<Rightarrow> None
      | Some h \<Rightarrow> Some (h\<lparr>waiting_for_pong := True, last_send_time := current_time_ms\<rparr>))"

lemmas hb_defs = pw_heartbeat_init_def pw_heartbeat_on_recv_def pw_heartbeat_on_send_def
  pw_heartbeat_should_ping_def pw_heartbeat_is_timed_out_def pw_heartbeat_on_pong_def
  pw_heartbeat_on_ping_sent_def

section \<open>Sessions\<close>

text \<open>At a tick the user sends a ping if it should; the run lists the times of the pings.\<close>

datatype hb_event = HbRecv u64 | HbSend u64 | HbTick u64 | HbPong u64

fun hb_run :: "pw_heartbeat option \<Rightarrow> hb_event list \<Rightarrow> pw_heartbeat option \<times> u64 list" where
  "hb_run hb [] = (hb, [])"
| "hb_run hb (HbRecv t # es) = hb_run (pw_heartbeat_on_recv hb t) es"
| "hb_run hb (HbSend t # es) = hb_run (pw_heartbeat_on_send hb t) es"
| "hb_run hb (HbPong t # es) = hb_run (pw_heartbeat_on_pong hb t) es"
| "hb_run hb (HbTick t # es) =
     (if pw_heartbeat_should_ping hb t
      then (case hb_run (pw_heartbeat_on_ping_sent hb t) es of (hb', ts) \<Rightarrow> (hb', t # ts))
      else hb_run hb es)"

definition is_pong :: "hb_event \<Rightarrow> bool" where
  "is_pong e = (case e of HbPong t \<Rightarrow> True | _ \<Rightarrow> False)"

definition hb_waiting :: "pw_heartbeat option \<Rightarrow> bool" where
  "hb_waiting hb = (case hb of None \<Rightarrow> False | Some h \<Rightarrow> waiting_for_pong h)"

lemma hb_waiting_simps [simp]:
  "hb_waiting (pw_heartbeat_on_recv hb t) = hb_waiting hb"
  "hb_waiting (pw_heartbeat_on_send hb t) = hb_waiting hb"
  "hb_waiting (pw_heartbeat_on_pong hb t) = False"
  "hb_waiting (pw_heartbeat_on_ping_sent hb t) = (hb \<noteq> None)"
  "hb_waiting (pw_heartbeat_init hb i u) = False"
  by (auto simp: hb_waiting_def hb_defs split: option.splits)

lemma should_pingD: "pw_heartbeat_should_ping hb t \<Longrightarrow> hb \<noteq> None \<and> \<not> hb_waiting hb"
  by (auto simp: hb_waiting_def hb_defs split: option.splits if_splits)

text \<open>The pings and the pongs of a run balance, up to the one ping that may be outstanding.\<close>

lemma hb_run_balance:
  "hb_run hb es = (hb', ts) \<Longrightarrow>
   length ts + of_bool (hb_waiting hb) \<le> length (filter is_pong es) + of_bool (hb_waiting hb')"
proof (induction hb es arbitrary: hb' ts rule: hb_run.induct)
  case (4 hb t es)
  from "4.IH" [of hb' ts] "4.prems" show ?case by (simp add: is_pong_def)
next
  case (5 hb t es)
  show ?case
  proof (cases "pw_heartbeat_should_ping hb t")
    case True
    with "5.prems" obtain us where us: "hb_run (pw_heartbeat_on_ping_sent hb t) es = (hb', us)" "ts = t # us"
      by (auto split: prod.splits)
    with 5(1) [OF True us(1)] should_pingD [OF True] show ?thesis by (simp add: is_pong_def)
  next
    case False
    with 5(2) [OF False] "5.prems" show ?thesis by (simp add: is_pong_def)
  qed
qed (simp_all add: is_pong_def)

text \<open>Nothing but a pong ends the waiting.\<close>

lemma hb_run_waiting:
  "hb_waiting hb \<Longrightarrow> filter is_pong es = [] \<Longrightarrow> snd (hb_run hb es) = [] \<and> hb_waiting (fst (hb_run hb es))"
proof (induction hb es rule: hb_run.induct)
  case (5 hb t es)
  then show ?case using should_pingD [of hb t] by (auto simp: is_pong_def)
qed (simp_all add: is_pong_def)

lemma unat_deadline:
  "unat (a :: u64) + unat b < 2 ^ 64 \<Longrightarrow> a + b \<le> t \<longleftrightarrow> unat a + unat b \<le> unat t"
proof -
  assume "unat a + unat b < 2 ^ 64"
  then have "unat (a + b) = unat a + unat b"
    by (intro unat_add_lem [THEN iffD1]) simp
  then show ?thesis by (simp add: word_le_nat_alt)
qed

lemma wrapped_deadline:
  "2 ^ 64 \<le> unat (a :: u64) + unat b \<Longrightarrow> a + b \<le> a"
proof -
  assume w: "2 ^ 64 \<le> unat a + unat b"
  have b: "unat a < 18446744073709551616" "unat b < 18446744073709551616"
    using unsigned_less [of a, where ?'a = nat] unsigned_less [of b, where ?'a = nat] by simp_all
  have "unat (a + b) = (unat a + unat b) mod 2 ^ LENGTH(64)" by (rule unat_word_ariths)
  also have "\<dots> = unat a + unat b - 18446744073709551616"
    using w b by (simp add: mod_if)
  finally show ?thesis using b by (simp add: word_le_nat_alt)
qed

section \<open>Properties\<close>

definition heartbeat_zero :: pw_heartbeat where
  "heartbeat_zero =
     \<lparr>last_recv_time = 0, last_send_time = 0, ping_interval_ms = 0, timeout_ms = 0, waiting_for_pong = False\<rparr>"

text \<open>At most one ping is ever outstanding: after any sequence of receptions, sendings, ticks and
  pongs from an initialised heartbeat, the pings sent exceed the pongs received by at most one, and
  only while the heartbeat waits for a pong.\<close>

lemma heartbeat_one_outstanding:
  "case hb_run (pw_heartbeat_init hb interval timeout) es of (hb', ts) \<Rightarrow>
     length ts \<le> length (filter is_pong es) + of_bool (hb_waiting hb')"
proof (cases "hb_run (pw_heartbeat_init hb interval timeout) es")
  case (Pair hb' ts)
  from hb_run_balance [OF this] show ?thesis by (simp add: Pair)
qed

text \<open>As long as the deadline does not pass 64 bits, the verdicts are what the parameters say: the
  peer is given up exactly when nothing was received for the timeout, it is pinged exactly when
  nothing was received for the interval and no ping is outstanding, and a parameter of 0 disables the
  check. With an interval no longer than the timeout, a silent peer that is given up has been pinged
  or is due for a ping.\<close>

lemma heartbeat_deadlines:
  assumes "unat (last_recv_time h) + unat (timeout_ms h) < 2 ^ 64"
    and "unat (last_recv_time h) + unat (ping_interval_ms h) < 2 ^ 64"
  shows "(pw_heartbeat_is_timed_out (Some h) now \<longleftrightarrow>
        timeout_ms h \<noteq> 0 \<and> unat (last_recv_time h) + unat (timeout_ms h) \<le> unat now) \<and>
     (pw_heartbeat_should_ping (Some h) now \<longleftrightarrow>
        ping_interval_ms h \<noteq> 0 \<and> \<not> waiting_for_pong h \<and>
        unat (last_recv_time h) + unat (ping_interval_ms h) \<le> unat now) \<and>
     (pw_heartbeat_is_timed_out (Some h) now \<and> ping_interval_ms h \<noteq> 0 \<and>
        ping_interval_ms h \<le> timeout_ms h \<longrightarrow>
        waiting_for_pong h \<or> pw_heartbeat_should_ping (Some h) now)"
  using unat_deadline [OF assms(1), of now] unat_deadline [OF assms(2), of now]
  by (auto simp: pw_heartbeat_is_timed_out_def pw_heartbeat_should_ping_def word_le_nat_alt
      split: if_splits)

text \<open>C34: A lost pong silences the heartbeat for good: once a ping has been sent, no sequence of events
  without a pong, however much data it receives and however long it lasts, makes another ping due,
  because the reception of data does not end the waiting.\<close>

theorem heartbeat_lost_pong:
  assumes "pw_heartbeat_should_ping hb t" and "filter is_pong es = []"
  shows "snd (hb_run hb (HbTick t # es)) = [t]"
  using hb_run_waiting [of "pw_heartbeat_on_ping_sent hb t" es] should_pingD [OF assms(1)] assms
  by (cases "hb_run (pw_heartbeat_on_ping_sent hb t) es") simp

theorem heartbeat_lost_pong_witness:
  "snd (hb_run (pw_heartbeat_init (Some heartbeat_zero) 50 200) (HbTick 60 # [HbRecv 70, HbTick 500, HbRecv 510, HbTick 900])) = [60]"
  by (rule heartbeat_lost_pong) (simp_all add: hb_defs is_pong_def)

text \<open>A deadline past 64 bits wraps into the past: when the last reception plus the timeout
  exceeds 64 bits, the peer is given up at the very moment something was received. A timeout of the
  largest value, which would mean no timeout, does this at every time but 0.\<close>

lemma heartbeat_deadline_wraps:
  assumes "2 ^ 64 \<le> unat (last_recv_time h) + unat (timeout_ms h)"
  shows "pw_heartbeat_is_timed_out (Some h) (last_recv_time h)"
proof -
  have "timeout_ms h \<noteq> 0"
    using assms unsigned_less [of "last_recv_time h", where ?'a = nat] by auto
  with wrapped_deadline [OF assms] show ?thesis by (simp add: pw_heartbeat_is_timed_out_def)
qed

end
