(* ===== verification/PW_Log.thy ===== *)
theory PW_Log
  imports Main
begin

text \<open>
  The log of \<open>native/src/pw_log.c\<close>: a level and a callback, both global, and one function that formats
  a message and delivers it to the callback or to \<open>stderr\<close>. The expansion of the format string is
  done by the C library; the text it produces is a parameter. A level is the number of the enum, so
  that a level outside of it, for which the code has the name UNK, is one too.
\<close>

section \<open>The code\<close>

definition PW_LOG_LEVEL_DEBUG :: nat where
  [simp]: "PW_LOG_LEVEL_DEBUG = 0"

definition PW_LOG_LEVEL_INFO :: nat where
  [simp]: "PW_LOG_LEVEL_INFO = 1"

definition PW_LOG_LEVEL_WARN :: nat where
  [simp]: "PW_LOG_LEVEL_WARN = 2"

definition PW_LOG_LEVEL_ERROR :: nat where
  [simp]: "PW_LOG_LEVEL_ERROR = 3"

text \<open>The globals; a callback is what distinguishes it for the code, a name.\<close>

record 'cb log_state =
  g_log_cb :: "'cb option"
  g_log_level :: nat

definition log_initial :: "'cb log_state" where
  "log_initial = \<lparr>g_log_cb = None, g_log_level = PW_LOG_LEVEL_INFO\<rparr>"

definition pw_log_set_callback :: "'cb option \<Rightarrow> 'cb log_state \<Rightarrow> 'cb log_state" where
  "pw_log_set_callback cb st = st\<lparr>g_log_cb := cb\<rparr>"

definition pw_log_set_level :: "nat \<Rightarrow> 'cb log_state \<Rightarrow> 'cb log_state" where
  "pw_log_set_level level st = st\<lparr>g_log_level := level\<rparr>"

text \<open>Decimal numbers, as \<open>%d\<close> prints them.\<close>

fun dec_nat :: "nat \<Rightarrow> string" where
  "dec_nat n =
     (if n < 10 then [''0123456789'' ! n] else dec_nat (n div 10) @ [''0123456789'' ! (n mod 10)])"

declare dec_nat.simps [simp del]

definition dec_int :: "int \<Rightarrow> string" where
  "dec_int i = (if i < 0 then CHR ''-'' # dec_nat (nat (- i)) else dec_nat (nat i))"

definition level_str :: "nat \<Rightarrow> string" where
  "level_str level =
     (if level = PW_LOG_LEVEL_DEBUG then ''DEBUG''
      else if level = PW_LOG_LEVEL_INFO then ''INFO''
      else if level = PW_LOG_LEVEL_WARN then ''WARN''
      else if level = PW_LOG_LEVEL_ERROR then ''ERROR'' else ''UNK'')"

datatype 'cb log_output = Callback 'cb nat string int string | Stderr string

text \<open>\<open>vsnprintf\<close> keeps what fits into \<open>buffer[1024]\<close> with its terminator.\<close>

definition pw_log_emit :: "nat \<Rightarrow> string \<Rightarrow> int \<Rightarrow> string \<Rightarrow> 'cb log_state \<Rightarrow> 'cb log_output list" where
  "pw_log_emit level file line formatted st =
     (if level < g_log_level st then []
      else let buffer = take 1023 formatted
           in case g_log_cb st of
                Some cb \<Rightarrow> [Callback cb level file line buffer]
              | None \<Rightarrow> [Stderr (''['' @ level_str level @ ''] '' @ file @ '':'' @ dec_int line @ '': '' @ buffer @ [CHR 0x0A])])"

text \<open>The macros give the place of the call and the level.\<close>

definition PW_LOG_DEBUG :: "string \<Rightarrow> int \<Rightarrow> string \<Rightarrow> 'cb log_state \<Rightarrow> 'cb log_output list" where
  "PW_LOG_DEBUG file line formatted st = pw_log_emit PW_LOG_LEVEL_DEBUG file line formatted st"

definition PW_LOG_INFO :: "string \<Rightarrow> int \<Rightarrow> string \<Rightarrow> 'cb log_state \<Rightarrow> 'cb log_output list" where
  "PW_LOG_INFO file line formatted st = pw_log_emit PW_LOG_LEVEL_INFO file line formatted st"

definition PW_LOG_WARN :: "string \<Rightarrow> int \<Rightarrow> string \<Rightarrow> 'cb log_state \<Rightarrow> 'cb log_output list" where
  "PW_LOG_WARN file line formatted st = pw_log_emit PW_LOG_LEVEL_WARN file line formatted st"

definition PW_LOG_ERROR :: "string \<Rightarrow> int \<Rightarrow> string \<Rightarrow> 'cb log_state \<Rightarrow> 'cb log_output list" where
  "PW_LOG_ERROR file line formatted st = pw_log_emit PW_LOG_LEVEL_ERROR file line formatted st"

lemma error_always_emitted:
  "g_log_level st \<le> PW_LOG_LEVEL_ERROR \<Longrightarrow> length (PW_LOG_ERROR file line formatted st) = 1"
  by (simp add: PW_LOG_ERROR_def pw_log_emit_def Let_def split: option.split)

section \<open>Uses of the log\<close>

datatype 'cb log_call = SetCallback "'cb option" | SetLevel nat | Emit nat string int string

fun log_run :: "'cb log_call list \<Rightarrow> 'cb log_state \<Rightarrow> 'cb log_output list" where
  "log_run [] st = []"
| "log_run (SetCallback cb # cs) st = log_run cs (pw_log_set_callback cb st)"
| "log_run (SetLevel l # cs) st = log_run cs (pw_log_set_level l st)"
| "log_run (Emit l f n m # cs) st = pw_log_emit l f n m st @ log_run cs st"


section \<open>Properties\<close>

text \<open>C39: With the level and the callback set first, the log delivers exactly the messages that reach the
  level, in order, one delivery each, to the callback alone, and cut to the 1023 characters that the
  buffer holds.\<close>

theorem log_filters_and_truncates:
  "log_run (SetLevel lim # SetCallback (Some cb) # map (\<lambda>(l, f, n, m). Emit l f n m) ms) st =
     map (\<lambda>(l, f, n, m). Callback cb l f n (take 1023 m)) (filter (\<lambda>(l, f, n, m). lim \<le> l) ms)"
proof -
  define s where "s = pw_log_set_callback (Some cb) (pw_log_set_level lim st)"
  then have s: "g_log_cb s = Some cb" "g_log_level s = lim"
    by (simp_all add: pw_log_set_callback_def pw_log_set_level_def)
  have "log_run (map (\<lambda>(l, f, n, m). Emit l f n m) ms) s =
      map (\<lambda>(l, f, n, m). Callback cb l f n (take 1023 m)) (filter (\<lambda>(l, f, n, m). lim \<le> l) ms)"
    by (induction ms) (auto simp: pw_log_emit_def s Let_def)
  then show ?thesis by (simp add: s_def)
qed

end
