(* ===== verification/PW_Protocol.thy ===== *)
theory PW_Protocol
  imports PW_Prelude
begin

text \<open>
  The definitions of \<open>native/include/phoenixwire.h\<close>: the magic bytes and the version, the
  connection states, the opcodes with their codes, flags, error codes, and the frame structure. An
  enum is a datatype, with the function from its constants to their numbers.
\<close>

definition PW_MAGIC_BYTE_1 :: byte where
  [simp, pw_consts]: "PW_MAGIC_BYTE_1 = 0x50"

definition PW_MAGIC_BYTE_2 :: byte where
  [simp, pw_consts]: "PW_MAGIC_BYTE_2 = 0x57"

definition PW_VERSION_1 :: byte where
  [simp, pw_consts]: "PW_VERSION_1 = 0x01"

datatype pw_connection_state =
    PW_STATE_DISCONNECTED
  | PW_STATE_CONNECTING
  | PW_STATE_HANDSHAKING
  | PW_STATE_AUTHENTICATING
  | PW_STATE_READY
  | PW_STATE_DRAINING
  | PW_STATE_CLOSING
  | PW_STATE_CLOSED

primrec state_code :: "pw_connection_state \<Rightarrow> nat" where
  "state_code PW_STATE_DISCONNECTED = 0"
| "state_code PW_STATE_CONNECTING = 1"
| "state_code PW_STATE_HANDSHAKING = 2"
| "state_code PW_STATE_AUTHENTICATING = 3"
| "state_code PW_STATE_READY = 4"
| "state_code PW_STATE_DRAINING = 5"
| "state_code PW_STATE_CLOSING = 6"
| "state_code PW_STATE_CLOSED = 7"

lemma state_code_inj: "state_code a = state_code b \<Longrightarrow> a = b"
  by (cases a; cases b) simp_all

text \<open>The states are ordered as the numbers of the enum.\<close>

instantiation pw_connection_state :: linorder
begin

definition less_eq_pw_connection_state :: "pw_connection_state \<Rightarrow> pw_connection_state \<Rightarrow> bool" where
  "a \<le> b \<longleftrightarrow> state_code a \<le> state_code b"

definition less_pw_connection_state :: "pw_connection_state \<Rightarrow> pw_connection_state \<Rightarrow> bool" where
  "a < b \<longleftrightarrow> state_code a < state_code b"

instance
  by standard
    (auto simp: less_eq_pw_connection_state_def less_pw_connection_state_def intro: state_code_inj)

end

datatype pw_opcode =
    PW_OPCODE_DATA_BINARY
  | PW_OPCODE_DATA_TEXT
  | PW_OPCODE_PING
  | PW_OPCODE_PONG
  | PW_OPCODE_CLOSE
  | PW_OPCODE_AUTH
  | PW_OPCODE_AUTH_OK
  | PW_OPCODE_AUTH_FAIL
  | PW_OPCODE_ACK
  | PW_OPCODE_NACK
  | PW_OPCODE_CONTROL

primrec opcode_byte :: "pw_opcode \<Rightarrow> byte" where
  "opcode_byte PW_OPCODE_DATA_BINARY = 0x01"
| "opcode_byte PW_OPCODE_DATA_TEXT = 0x02"
| "opcode_byte PW_OPCODE_PING = 0x03"
| "opcode_byte PW_OPCODE_PONG = 0x04"
| "opcode_byte PW_OPCODE_CLOSE = 0x05"
| "opcode_byte PW_OPCODE_AUTH = 0x06"
| "opcode_byte PW_OPCODE_AUTH_OK = 0x07"
| "opcode_byte PW_OPCODE_AUTH_FAIL = 0x08"
| "opcode_byte PW_OPCODE_ACK = 0x09"
| "opcode_byte PW_OPCODE_NACK = 0x0A"
| "opcode_byte PW_OPCODE_CONTROL = 0x0B"

lemma opcode_byte_inj: "opcode_byte a = opcode_byte b \<Longrightarrow> a = b"
  by (cases a; cases b) simp_all

definition PW_FLAG_FIN :: byte where
  [simp, pw_consts]: "PW_FLAG_FIN = 0x10"

definition PW_FLAG_COMPRESSED :: byte where
  [pw_consts]: "PW_FLAG_COMPRESSED = 0x80"

definition PW_FLAG_ACK_REQ :: byte where
  [pw_consts]: "PW_FLAG_ACK_REQ = 0x40"

definition PW_FLAG_PRIORITY :: byte where
  [pw_consts]: "PW_FLAG_PRIORITY = 0x20"

definition PW_FLAG_RESERVED_3 :: byte where
  [pw_consts]: "PW_FLAG_RESERVED_3 = 0x08"

definition PW_FLAG_RESERVED_2 :: byte where
  [pw_consts]: "PW_FLAG_RESERVED_2 = 0x04"

definition PW_FLAG_RESERVED_1 :: byte where
  [pw_consts]: "PW_FLAG_RESERVED_1 = 0x02"

definition PW_FLAG_RESERVED_0 :: byte where
  [pw_consts]: "PW_FLAG_RESERVED_0 = 0x01"

definition PW_ERR_PROTOCOL_ERROR :: u16 where
  [simp, pw_consts]: "PW_ERR_PROTOCOL_ERROR = 1002"

definition PW_ERR_NORMAL_CLOSE :: u16 where
  [pw_consts]: "PW_ERR_NORMAL_CLOSE = 1000"

definition PW_ERR_GOING_AWAY :: u16 where
  [pw_consts]: "PW_ERR_GOING_AWAY = 1001"

definition PW_ERR_UNSUPPORTED_DATA :: u16 where
  [pw_consts]: "PW_ERR_UNSUPPORTED_DATA = 1003"

definition PW_ERR_AUTH_FAILED :: u16 where
  [pw_consts]: "PW_ERR_AUTH_FAILED = 1004"

definition PW_ERR_TIMEOUT :: u16 where
  [pw_consts]: "PW_ERR_TIMEOUT = 1005"

definition PW_ERR_CONNECTION_DROPPED :: u16 where
  [pw_consts]: "PW_ERR_CONNECTION_DROPPED = 1006"

definition PW_ERR_PAYLOAD_TOO_LARGE :: u16 where
  [pw_consts]: "PW_ERR_PAYLOAD_TOO_LARGE = 1007"

definition PW_ERR_RATE_LIMITED :: u16 where
  [pw_consts]: "PW_ERR_RATE_LIMITED = 1008"

definition PW_ERR_INTERNAL_ERROR :: u16 where
  [pw_consts]: "PW_ERR_INTERNAL_ERROR = 1011"

datatype pw_delivery_mode = PW_DELIVERY_BEST_EFFORT | PW_DELIVERY_AT_LEAST_ONCE | PW_DELIVERY_EXACTLY_ONCE

primrec delivery_code :: "pw_delivery_mode \<Rightarrow> nat" where
  "delivery_code PW_DELIVERY_BEST_EFFORT = 0"
| "delivery_code PW_DELIVERY_AT_LEAST_ONCE = 1"
| "delivery_code PW_DELIVERY_EXACTLY_ONCE = 2"

lemma delivery_code_inj: "delivery_code a = delivery_code b \<Longrightarrow> a = b"
  by (cases a; cases b) simp_all

text \<open>The flags are the eight bits of their byte, and the error codes are different from each other and from
  the 0 that stands for success.\<close>

definition pw_flags :: "byte list" where
  "pw_flags = [PW_FLAG_RESERVED_0, PW_FLAG_RESERVED_1, PW_FLAG_RESERVED_2, PW_FLAG_RESERVED_3,
     PW_FLAG_FIN, PW_FLAG_PRIORITY, PW_FLAG_ACK_REQ, PW_FLAG_COMPRESSED]"

definition pw_errors :: "u16 list" where
  "pw_errors = [PW_ERR_NORMAL_CLOSE, PW_ERR_GOING_AWAY, PW_ERR_PROTOCOL_ERROR, PW_ERR_UNSUPPORTED_DATA,
     PW_ERR_AUTH_FAILED, PW_ERR_TIMEOUT, PW_ERR_CONNECTION_DROPPED, PW_ERR_PAYLOAD_TOO_LARGE,
     PW_ERR_RATE_LIMITED, PW_ERR_INTERNAL_ERROR]"

lemma flags_bits: "pw_flags = map (\<lambda>n. 2 ^ n) [0..<8]"
  by (simp add: pw_flags_def pw_consts upt_rec [of _ 8] numeral_eq_Suc)

lemma bit_foldr_or: "bit (foldr (OR) xs (0 :: byte)) n \<longleftrightarrow> (\<exists>x \<in> set xs. bit x n)"
  by (induction xs) (auto simp: bit_or_iff)

lemma flag_set_iff: "n < 8 \<Longrightarrow> (b :: byte) AND 2 ^ n = 2 ^ n \<longleftrightarrow> bit b n"
proof
  assume n: "n < 8" and "b AND 2 ^ n = 2 ^ n"
  then have "bit (b AND 2 ^ n) n = bit ((2 :: byte) ^ n) n" by simp
  with n show "bit b n" by (simp add: bit_and_iff bit_exp_iff)
next
  assume "n < 8" and "bit b n"
  then show "b AND 2 ^ n = 2 ^ n"
    by (intro bit_word_eqI) (auto simp: bit_and_iff bit_exp_iff)
qed

text \<open>Every flag byte is the union of the flags that are set in it.\<close>

lemma flags_of_byte: "foldr (OR) (filter (\<lambda>f. b AND f = f) pw_flags) 0 = b"
proof (rule bit_word_eqI)
  fix n :: nat
  assume n: "n < LENGTH(8)"
  have "bit (foldr (OR) (filter (\<lambda>f. b AND f = f) pw_flags) 0) n \<longleftrightarrow>
      (\<exists>k < 8. b AND 2 ^ k = 2 ^ k \<and> bit ((2 :: byte) ^ k) n)"
    by (auto simp: bit_foldr_or flags_bits)
  also have "\<dots> \<longleftrightarrow> bit b n"
    using n by (auto simp: flag_set_iff bit_exp_iff)
  finally show "bit (foldr (OR) (filter (\<lambda>f. b AND f = f) pw_flags) 0) n \<longleftrightarrow> bit b n" .
qed

lemma errors_distinct: "distinct (0 # pw_errors)"
  by (simp add: pw_errors_def pw_consts)

text \<open>
  The frame. The array \<open>magic[2]\<close> is a pair; \<open>payload\<close> is a pointer that may be \<open>NULL\<close>.
\<close>

record pw_frame =
  fr_magic :: "byte \<times> byte"
  fr_version :: byte
  fr_flags :: byte
  fr_opcode :: byte
  fr_stream_id :: u32
  fr_length :: u32
  fr_header_crc :: u32
  fr_payload :: ptr

text \<open>
  A designated initialiser sets the fields it names and clears the rest. All the frames the program
  builds name version, flags, opcode, stream id and length.
\<close>

definition frame_init :: "byte \<Rightarrow> byte \<Rightarrow> pw_opcode \<Rightarrow> u32 \<Rightarrow> u32 \<Rightarrow> pw_frame" where
  "frame_init version flags opc stream_id len =
     \<lparr>fr_magic = (0, 0), fr_version = version, fr_flags = flags, fr_opcode = opcode_byte opc,
      fr_stream_id = stream_id, fr_length = len, fr_header_crc = 0, fr_payload = None\<rparr>"

end
