(* ===== verification/PW_Varint.thy ===== *)
theory PW_Varint
  imports PW_Prelude
begin

text \<open>
  The base-128 variable-length integers of \<open>native/src/pw_varint.c\<close>. The two loops of the code
  are the functions \<open>varint_encode_loop\<close> and \<open>varint_decode_loop\<close>; their variables are the
  parameters. The reference for both is the pair of \<open>varint_len\<close>, which byte strings are accepted,
  and \<open>varint_val\<close>, the number they stand for.
\<close>

section \<open>The code\<close>

lemma shift7_smaller: "128 \<le> value \<Longrightarrow> unat (drop_bit 7 value) < unat (value :: u32)"
  unfolding unat_drop_bit by (simp add: word_le_nat_alt)

function varint_encode_loop :: "u32 \<Rightarrow> nat \<Rightarrow> byte list \<Rightarrow> nat \<Rightarrow> (u32 \<times> nat \<times> byte list) option" where
  "varint_encode_loop value i buffer p =
     (if 0x80 \<le> value
      then case wr buffer (p + i) (ucast ((value AND 0x7F) OR 0x80)) of
             None \<Rightarrow> None
           | Some buffer' \<Rightarrow> varint_encode_loop (drop_bit 7 value) (i + 1) buffer' p
      else Some (value, i, buffer))"
  by pat_completeness auto
termination
  by (relation "measure (\<lambda>(value, i, buffer, p). unat value)") (simp_all add: shift7_smaller)

declare varint_encode_loop.simps [simp del]

definition pw_varint_encode32 :: "u32 \<Rightarrow> byte list \<Rightarrow> nat \<Rightarrow> (nat \<times> byte list) option" where
  "pw_varint_encode32 value buffer p = do {
     (value, i, buffer) \<leftarrow> varint_encode_loop value 0 buffer p;
     buffer \<leftarrow> wr buffer (p + i) (ucast value);
     Some (i + 1, buffer)
   }"

text \<open>The result is the value returned and the final content of \<open>*out_value\<close>.\<close>

function varint_decode_loop ::
  "byte list \<Rightarrow> nat \<Rightarrow> nat \<Rightarrow> u32 \<Rightarrow> u32 \<Rightarrow> nat \<Rightarrow> nat \<Rightarrow> (nat \<times> u32) option" where
  "varint_decode_loop buffer p max_len out_value result shift i =
     (if i < max_len \<and> i < 5
      then case rd buffer (p + i) of
             None \<Rightarrow> None
           | Some byte \<Rightarrow>
               (let i = i + 1; result = result OR push_bit shift (ucast (byte AND 0x7F)) in
                if byte AND 0x80 = 0
                then if i = 5 \<and> byte AND 0xF0 \<noteq> 0 then Some (0, out_value) else Some (i, result)
                else varint_decode_loop buffer p max_len out_value result (shift + 7) i)
      else Some (0, out_value))"
  by pat_completeness auto
termination
  by (relation "measure (\<lambda>(buffer, p, max_len, out_value, result, shift, i). 5 - i)") auto

declare varint_decode_loop.simps [simp del]

definition pw_varint_decode32 :: "byte list \<Rightarrow> nat \<Rightarrow> nat \<Rightarrow> u32 \<Rightarrow> (nat \<times> u32) option" where
  "pw_varint_decode32 buffer p max_len out_value =
     varint_decode_loop buffer p max_len out_value 0 0 0"

section \<open>The reference\<close>

fun varint_val :: "byte list \<Rightarrow> nat" where
  "varint_val [] = 0"
| "varint_val (b # bs) = unat b mod 128 + 128 * varint_val bs"

text \<open>
  The number of bytes of the varint at the start of a byte string, when there is one: \<open>k\<close> bytes
  of it have been seen before. A fifth byte must be a last one and below 16.
\<close>

fun varint_len :: "nat \<Rightarrow> byte list \<Rightarrow> nat option" where
  "varint_len k [] = None"
| "varint_len k (b # bs) =
     (if unat b < 128 then (if k < 4 \<or> k = 4 \<and> unat b < 16 then Some 1 else None)
      else if k < 4 then map_option Suc (varint_len (Suc k) bs) else None)"

definition varint_dec :: "byte list \<Rightarrow> u32 \<Rightarrow> nat \<times> u32" where
  "varint_dec bs out =
     (case varint_len 0 bs of None \<Rightarrow> (0, out) | Some n \<Rightarrow> (n, word_of_nat (varint_val (take n bs))))"

function varint_bytes :: "u32 \<Rightarrow> byte list" where
  "varint_bytes v =
     (if 0x80 \<le> v then ucast ((v AND 0x7F) OR 0x80) # varint_bytes (drop_bit 7 v) else [ucast v])"
  by pat_completeness auto
termination
  by (relation "measure unat") (simp_all add: shift7_smaller)

declare varint_bytes.simps [simp del]

section \<open>Single bytes\<close>

lemma unat_and_127: "8 \<le> LENGTH('a) \<Longrightarrow> unat (w AND 0x7F :: 'a::len word) = unat w mod 128"
proof -
  have "w AND 0x7F = take_bit 7 w"
    by (simp add: take_bit_eq_mask mask_eq_exp_minus_1)
  then have "unat (w AND 0x7F) = unat (take_bit 7 w)" by (rule arg_cong)
  then show ?thesis unfolding unsigned_take_bit_eq by (simp add: take_bit_eq_mod)
qed

lemma and_F0_0_iff: "b AND 0xF0 = 0 \<longleftrightarrow> unat b < 16" for b :: byte
proof -
  have "0xF0 = (NOT (mask 4) :: byte)" by (simp add: mask_eq_exp_minus_1)
  then show ?thesis using and_not_mask_0_iff [of b 4] by (simp only:) simp
qed

lemma and_80_0_iff: "b AND 0x80 = 0 \<longleftrightarrow> unat b < 128" for b :: byte
proof -
  have "0x80 = (NOT (mask 7) :: byte)" by (simp add: mask_eq_exp_minus_1)
  then show ?thesis using and_not_mask_0_iff [of b 7] by (simp only:) simp
qed

lemma unat_cont_byte: "unat (ucast ((v AND 0x7F) OR 0x80) :: byte) = unat v mod 128 + 128" for v :: u32
proof -
  have m: "unat (v AND 0x7F) = unat v mod 128" by (simp add: unat_and_127)
  have "(v AND 0x7F) OR 0x80 = (v AND 0x7F) OR push_bit 7 1" by simp
  then have "unat ((v AND 0x7F) OR 0x80) = unat v mod 128 + 128"
    using unat_or_push_bit [of "v AND 0x7F" 7 1] m by (simp del: push_bit_of_1)
  moreover have "unat v mod 128 < 128" by simp
  ultimately show ?thesis by (subst unat_ucast_small) simp_all
qed

lemma unat_last_byte: "\<not> 0x80 \<le> v \<Longrightarrow> unat (ucast v :: byte) = unat v \<and> unat v < 128" for v :: u32
proof -
  assume "\<not> 0x80 \<le> v"
  then have "unat v < 128" by (simp add: word_le_nat_alt)
  then show ?thesis by (simp add: unat_ucast_small)
qed

section \<open>The encoder\<close>

lemma varint_bytes_nonempty [simp]: "varint_bytes v \<noteq> []"
  by (subst varint_bytes.simps) simp

lemma varint_val_bytes: "varint_val (varint_bytes v) = unat v"
proof (induction v rule: varint_bytes.induct)
  case (1 v)
  show ?case
  proof (cases "0x80 \<le> v")
    case True
    with "1.IH" show ?thesis
      by (subst varint_bytes.simps) (simp add: unat_cont_byte unat_drop_bit)
  next
    case False
    then show ?thesis
      by (subst varint_bytes.simps) (simp add: unat_last_byte)
  qed
qed

lemma varint_len_bytes_at:
  "k \<le> 4 \<Longrightarrow> unat v < 2 ^ (32 - 7 * k) \<Longrightarrow>
   varint_len k (varint_bytes v @ rest) = Some (length (varint_bytes v))"
proof (induction v arbitrary: k rule: varint_bytes.induct)
  case (1 v)
  show ?case
  proof (cases "0x80 \<le> v")
    case True
    then have big: "128 \<le> unat v" by (simp add: word_le_nat_alt)
    have "k \<noteq> 4" using "1.prems" big by auto
    then have k: "k < 4" using "1.prems" by simp
    then have "32 - 7 * k = (32 - 7 * Suc k) + 7" by simp
    then have "(2 :: nat) ^ (32 - 7 * k) = 2 ^ (32 - 7 * Suc k) * 128"
      by (simp only: power_add) simp
    with "1.prems" have "unat v < 2 ^ (32 - 7 * Suc k) * 128" by (simp only:)
    then have "unat (drop_bit 7 v) < 2 ^ (32 - 7 * Suc k)"
      unfolding unat_drop_bit by (simp add: less_mult_imp_div_less)
    with "1.IH" [OF True, of "Suc k"] k True show ?thesis
      by (simp add: varint_bytes.simps [of v] unat_cont_byte)
  next
    case False
    with "1.prems" show ?thesis
      by (simp add: varint_bytes.simps [of v]) (cases "k = 4"; simp add: unat_last_byte)
  qed
qed

lemma varint_len_bytes: "varint_len 0 (varint_bytes v @ rest) = Some (length (varint_bytes v))"
  using unat_u32_bound [of v] by (simp add: varint_len_bytes_at)

lemma varint_len_bounds: "varint_len k bs = Some n \<Longrightarrow> 0 < n \<and> n \<le> length bs \<and> k + n \<le> 5"
  by (induction k bs arbitrary: n rule: varint_len.induct) (auto split: if_splits)

lemma varint_len_append: "varint_len k bs = Some n \<Longrightarrow> varint_len k (bs @ rest) = Some n"
  by (induction k bs arbitrary: n rule: varint_len.induct) (auto split: if_splits)

lemma varint_len_take: "varint_len k bs = Some n \<Longrightarrow> n \<le> m \<Longrightarrow> varint_len k (take m bs) = Some n"
proof (induction k bs arbitrary: n m rule: varint_len.induct)
  case (2 k b bs)
  then show ?case by (cases m) (auto split: if_splits)
qed simp

lemma varint_len_prefix_None:
  "varint_len k bs = Some n \<Longrightarrow> m < n \<Longrightarrow> varint_len k (take m bs) = None"
proof (induction k bs arbitrary: n m rule: varint_len.induct)
  case (2 k b bs)
  then show ?case by (cases m) (auto split: if_splits)
qed simp

lemma varint_val_bound: "varint_val bs < 128 ^ length bs"
proof (induction bs)
  case (Cons b bs)
  have "unat b mod 128 < 128" by simp
  with Cons show ?case by simp
qed simp

text \<open>The accepted byte strings stand for numbers below \<open>2 ^ 32\<close>: nothing is cut off.\<close>

lemma varint_val_fits:
  "varint_len k bs = Some n \<Longrightarrow> varint_val (take n bs) < 2 ^ (32 - 7 * k)"
proof (induction k bs arbitrary: n rule: varint_len.induct)
  case (2 k b bs)
  show ?case
  proof (cases "unat b < 128")
    case True
    with "2.prems" have n: "n = 1" and k: "k < 4 \<or> k = 4 \<and> unat b < 16"
      by (auto split: if_splits)
    have "(2 :: nat) ^ 7 \<le> 2 ^ (32 - 7 * k)" if "k < 4"
      using that by (intro power_increasing) auto
    with True n k show ?thesis by auto
  next
    case False
    with "2.prems" obtain m where k: "k < 4" and m: "varint_len (Suc k) bs = Some m" and n: "n = Suc m"
      by (auto split: if_splits)
    with "2.IH" False have "varint_val (take m bs) < 2 ^ (32 - 7 * Suc k)" by blast
    then have "unat b mod 128 + 128 * varint_val (take m bs) < 128 * 2 ^ (32 - 7 * Suc k)"
      using mod_less_divisor [of 128 "unat b"] by linarith
    moreover have "(128 :: nat) * 2 ^ (32 - 7 * Suc k) = 2 ^ (7 + (32 - 7 * Suc k))"
      by (simp only: power_add) simp
    moreover have "7 + (32 - 7 * Suc k) = 32 - 7 * k" using k by simp
    ultimately show ?thesis using n by (simp only: take_Suc_Cons varint_val.simps)
  qed
qed simp

lemma length_varint_bytes: "0 < length (varint_bytes v)" "length (varint_bytes v) \<le> 5"
  using varint_len_bounds [OF varint_len_bytes [of v "[]"]] by auto

text \<open>
  The two loops refine the reference. The encoder writes \<open>varint_bytes\<close> in place, and leaves the
  array only when it is too short.
\<close>

lemma varint_encode_loop_bytes:
  "do { (value, i, buffer) \<leftarrow> varint_encode_loop v i buf p;
        buffer \<leftarrow> wr buffer (p + i) (ucast value);
        Some (i + 1, buffer) } =
   (if p + i + length (varint_bytes v) \<le> length buf
    then Some (i + length (varint_bytes v), put_bytes buf (p + i) (varint_bytes v)) else None)"
proof (induction v i buf p rule: varint_encode_loop.induct)
  case (1 v i buf p)
  show ?case
  proof (cases "0x80 \<le> v \<and> p + i < length buf")
    case True
    then have c: "0x80 \<le> v" and w: "wr buf (p + i) x = Some (put_bytes buf (p + i) [x])" for x
      by (simp_all add: mem_simps)
    from True have len: "length (put_bytes buf (p + i) [x]) = length buf" for x
      by (simp add: mem_simps)
    from True "1.IH" [OF c w] show ?thesis
      using put_bytes_append [of "p + i" "[ucast ((v AND 0x7F) OR 0x80)]" "varint_bytes (drop_bit 7 v)" buf]
      by (simp add: varint_encode_loop.simps [of v] varint_bytes.simps [of v] w len)
  next
    case False
    then show ?thesis
      using length_varint_bytes(1) [of "drop_bit 7 v"]
      by (auto simp: varint_encode_loop.simps [of v] varint_bytes.simps [of v] wr_put_bytes)
  qed
qed

lemma pw_varint_encode32_bytes:
  "pw_varint_encode32 v buf p =
     (if p + length (varint_bytes v) \<le> length buf
      then Some (length (varint_bytes v), put_bytes buf p (varint_bytes v)) else None)"
  using varint_encode_loop_bytes [of v 0 buf p] by (simp add: pw_varint_encode32_def)

section \<open>The decoder\<close>

lemma varint_val_append: "varint_val (xs @ ys) = varint_val xs + 128 ^ length xs * varint_val ys"
  by (induction xs) (simp_all add: algebra_simps)

lemma varint_val_snoc:
  "p + i < length buf \<Longrightarrow>
   varint_val (bytes_at buf p (Suc i)) = varint_val (bytes_at buf p i) + unat (buf ! (p + i)) mod 128 * 2 ^ (7 * i)"
  using power_mult [of "2 :: nat" 7 i]
  by (simp add: bytes_at_snoc varint_val_append length_bytes_at)

text \<open>One round of the loop adds seven bits above the ones collected so far.\<close>

lemma varint_collect:
  fixes b :: byte and r :: u32
  assumes "unat r < 2 ^ (7 * i)" and "i < 4 \<or> i = 4 \<and> unat b < 16"
  shows "unat (r OR push_bit (7 * i) (ucast (b AND 0x7F))) = unat r + unat b mod 128 * 2 ^ (7 * i)"
proof -
  have "unat b mod 128 < 128" by simp
  then have x: "unat (ucast (b AND 0x7F) :: u32) = unat b mod 128"
    by (subst unat_ucast_small) (simp_all add: unat_and_127)
  have "unat b mod 128 * 2 ^ (7 * i) < 2 ^ 32"
  proof (cases "i = 4")
    case True
    with assms(2) show ?thesis by simp
  next
    case False
    then have "(2 :: nat) ^ (7 * i) \<le> 2 ^ 21"
      using assms(2) by (intro power_increasing) auto
    then have "unat b mod 128 * 2 ^ (7 * i) \<le> unat b mod 128 * 2 ^ 21"
      by (rule mult_le_mono2)
    also have "\<dots> < 128 * 2 ^ 21" by (rule mult_less_mono1) simp_all
    finally show ?thesis by simp
  qed
  with assms(1) x show ?thesis by (simp add: unat_or_push_bit)
qed

lemma varint_decode_loop_dec:
  assumes "p + min max_len 5 \<le> length buf" and "i \<le> 4"
    and "unat result = varint_val (bytes_at buf p i)" and "unat result < 2 ^ (7 * i)"
  shows "varint_decode_loop buf p max_len out result (7 * i) i =
     Some (case varint_len i (bytes_at buf (p + i) (min max_len 5 - i)) of
             None \<Rightarrow> (0, out)
           | Some n \<Rightarrow> (i + n, word_of_nat (varint_val (bytes_at buf p (i + n)))))"
  using assms(2-)
proof (induction i arbitrary: result rule: measure_induct_rule [of "\<lambda>i. 5 - i"])
  case (less i)
  show ?case
  proof (cases "i < max_len")
    case False
    then show ?thesis by (simp add: varint_decode_loop.simps [of buf p max_len out result "7 * i" i])
  next
    case True
    with less.prems(1) assms(1) have inb: "p + i < length buf" by simp
    define b where "b = buf ! (p + i)"
    define r where "r = result OR push_bit (7 * i) (ucast (b AND 0x7F))"
    have bs: "bytes_at buf (p + i) (min max_len 5 - i) = b # bytes_at buf (p + Suc i) (min max_len 5 - Suc i)"
      using inb True less.prems(1) bytes_at_Suc [of "p + i" buf "min max_len 5 - Suc i"]
      by (simp add: b_def Suc_diff_Suc)
    have loop: "varint_decode_loop buf p max_len out result (7 * i) i =
        (if unat b < 128 then if i = 4 \<and> 16 \<le> unat b then Some (0, out) else Some (Suc i, r)
         else varint_decode_loop buf p max_len out r (7 * Suc i) (Suc i))"
      using True less.prems(1) inb
      by (subst varint_decode_loop.simps, cases "i = 4")
        (simp_all add: rd_Some r_def b_def and_80_0_iff and_F0_0_iff Let_def not_less add.commute [of 7])
    have val: "unat r = varint_val (bytes_at buf p (Suc i))" if "i < 4 \<or> i = 4 \<and> unat b < 16"
      using varint_collect [OF less.prems(3) that] less.prems(2) varint_val_snoc [OF inb]
      by (simp add: r_def b_def)
    show ?thesis
    proof (cases "unat b < 128 \<or> i = 4")
      case True
      then show ?thesis
        unfolding loop bs using val less.prems(1)
        by (auto simp: varint_decode_loop.simps [of buf p max_len out r "35" 5] simp flip: val)
    next
      case False
      with less.prems(1) have "Suc i \<le> 4" and "5 - Suc i < 5 - i" and v: "i < 4" by auto
      moreover have "unat r < 2 ^ (7 * Suc i)"
        using varint_val_bound [of "bytes_at buf p (Suc i)"] inb val v power_mult [of "2 :: nat" 7 "Suc i"]
        by (simp add: length_bytes_at)
      ultimately show ?thesis
        unfolding loop bs using less.IH [of "Suc i" r] val False
        by (auto split: option.splits)
    qed
  qed
qed

lemma pw_varint_decode32_dec:
  assumes "p + min max_len 5 \<le> length buf"
  shows "pw_varint_decode32 buf p max_len out = Some (varint_dec (bytes_at buf p (min max_len 5)) out)"
proof -
  let ?bs = "bytes_at buf p (min max_len 5)"
  have "take n ?bs = bytes_at buf p n" if "varint_len 0 ?bs = Some n" for n
    using varint_len_bounds [OF that] assms by (intro take_bytes_at) (simp add: length_bytes_at)
  then show ?thesis
    using varint_decode_loop_dec [OF assms, of 0 0 out]
    by (auto simp: pw_varint_decode32_def varint_dec_def split: option.splits)
qed

lemma varint_dec_take_5: "varint_dec (take 5 bs) out = varint_dec bs out"
proof (cases "varint_len 0 bs")
  case None
  then have "varint_len 0 (take 5 bs) = None"
    using varint_len_append [of 0 "take 5 bs" _ "drop 5 bs"] by (cases "varint_len 0 (take 5 bs)") auto
  with None show ?thesis by (simp add: varint_dec_def)
next
  case (Some n)
  with varint_len_bounds [OF Some] varint_len_take [OF Some, of 5] show ?thesis
    by (simp add: varint_dec_def min_def)
qed

text \<open>With all of \<open>max_len\<close> bytes in the array, the decoder is the reference on these bytes.\<close>

lemma pw_varint_decode32_bytes:
  assumes "p + max_len \<le> length buf"
  shows "pw_varint_decode32 buf p max_len out = Some (varint_dec (bytes_at buf p max_len) out)"
proof -
  have "bytes_at buf p (min max_len 5) = take 5 (bytes_at buf p max_len)"
    by (simp add: bytes_at_def min.commute)
  with assms show ?thesis
    by (simp add: pw_varint_decode32_dec varint_dec_take_5)
qed

lemma varint_dec_bytes: "varint_dec (varint_bytes v @ rest) out = (length (varint_bytes v), v)"
  by (simp add: varint_dec_def varint_len_bytes varint_val_bytes)

lemma varint_dec_prefix: "n < length (varint_bytes v) \<Longrightarrow> varint_dec (take n (varint_bytes v)) out = (0, out)"
  using varint_len_prefix_None [OF varint_len_bytes [of v "[]"]] by (simp add: varint_dec_def)

lemma varint_dec_bounds: "fst (varint_dec bs out) \<le> length bs" "fst (varint_dec bs out) \<le> 5"
  by (auto simp: varint_dec_def dest: varint_len_bounds split: option.splits)

text \<open>The encoding of a number is its shortest varint.\<close>

lemma length_varint_bytes_least:
  "unat v < 128 ^ n \<Longrightarrow> 0 < n \<Longrightarrow> length (varint_bytes v) \<le> n"
proof (induction v arbitrary: n rule: varint_bytes.induct)
  case (1 v)
  show ?case
  proof (cases "0x80 \<le> v")
    case True
    then have "128 \<le> unat v" by (simp add: word_le_nat_alt)
    with "1.prems" have "1 < n" by (cases "n = 1") auto
    then obtain m where n: "n = Suc m" and m: "0 < m"
      by (metis Suc_less_eq One_nat_def less_imp_Suc_add add_Suc zero_less_Suc)
    with "1.prems" have "unat (drop_bit 7 v) < 128 ^ m"
      unfolding unat_drop_bit by (simp add: less_mult_imp_div_less mult.commute)
    with "1.IH" [OF True _ m] n True show ?thesis by (simp add: varint_bytes.simps [of v])
  next
    case False
    with "1.prems" show ?thesis by (simp add: varint_bytes.simps [of v])
  qed
qed

section \<open>Varints, byte by byte\<close>

text \<open>
  The accepted encodings, stated on the bytes in the array: every byte but the last has its top bit
  set, and a fifth byte carries four bits only.
\<close>

definition varint_at :: "byte list \<Rightarrow> nat \<Rightarrow> nat \<Rightarrow> bool" where
  "varint_at buf p n \<longleftrightarrow> 0 < n \<and> n \<le> 5 \<and> (\<forall>k < n - 1. 128 \<le> unat (buf ! (p + k))) \<and>
     unat (buf ! (p + (n - 1))) < (if n = 5 then 16 else 128)"

lemma varint_len_iff:
  "varint_len k bs = Some n \<longleftrightarrow>
     0 < n \<and> n \<le> length bs \<and> k + n \<le> 5 \<and> (\<forall>j < n - 1. 128 \<le> unat (bs ! j)) \<and>
     unat (bs ! (n - 1)) < (if k + n = 5 then 16 else 128)"
proof (induction k bs arbitrary: n rule: varint_len.induct)
  case (2 k b bs)
  consider "n = 0" | "n = 1" | m where "n = Suc (Suc m)" by (metis One_nat_def not0_implies_Suc)
  then show ?case
  proof cases
    case 1
    then show ?thesis using varint_len_bounds [of k "b # bs" 0] by auto
  next
    case 2
    then show ?thesis using varint_len_bounds [of "Suc k" bs 0] by auto
  next
    case (3 m)
    have split: "(\<forall>j < Suc m. 128 \<le> unat ((b # bs) ! j)) \<longleftrightarrow>
        128 \<le> unat b \<and> (\<forall>j < m. 128 \<le> unat (bs ! j))"
      by (auto simp: less_Suc_eq_0_disj)
    show ?thesis
    proof (cases "unat b < 128 \<or> \<not> k < 4")
      case True
      with 3 split show ?thesis by auto
    next
      case False
      with 3 split "2.IH" [of "Suc m"] show ?thesis by auto
    qed
  qed
qed auto

lemma varint_val_sum: "varint_val bs = (\<Sum>k < length bs. unat (bs ! k) mod 128 * 128 ^ k)"
proof (induction bs rule: rev_induct)
  case (snoc b bs)
  have "(\<Sum>k < length bs. unat ((bs @ [b]) ! k) mod 128 * 128 ^ k) =
        (\<Sum>k < length bs. unat (bs ! k) mod 128 * 128 ^ k)"
    by (rule sum.cong) (simp_all add: nth_append)
  with snoc show ?case by (simp add: varint_val_append)
qed simp

lemma varint_len_at:
  "p + m \<le> length buf \<Longrightarrow> varint_len 0 (bytes_at buf p m) = Some n \<longleftrightarrow> n \<le> m \<and> varint_at buf p n"
  by (auto simp: varint_len_iff varint_at_def length_bytes_at nth_bytes_at)

lemma varint_val_at:
  "p + n \<le> length buf \<Longrightarrow> varint_val (bytes_at buf p n) = (\<Sum>k < n. unat (buf ! (p + k)) mod 128 * 128 ^ k)"
  by (simp add: varint_val_sum length_bytes_at nth_bytes_at)

section \<open>Properties\<close>

text \<open>The varint decoder reads back exactly the number the encoder wrote, for every 32-bit
  value, whatever bytes follow it in the buffer, and the two agree on the number of bytes.\<close>

lemma varint_roundtrip:
  assumes "pw_varint_encode32 v buf p = Some (n, buf')" and "n \<le> m" and "p + m \<le> length buf"
  shows "pw_varint_decode32 buf' p m out = Some (n, v)"
proof -
  from assms(1) have n: "n = length (varint_bytes v)" and buf': "buf' = put_bytes buf p (varint_bytes v)"
    by (auto simp: pw_varint_encode32_bytes split: if_splits)
  have len: "length buf' = length buf" using assms n buf' by (simp add: length_put_bytes)
  have "bytes_at buf' p m = bytes_at buf' p n @ bytes_at buf' (p + n) (m - n)"
    using assms(2) by (simp add: bytes_at_append)
  also have "bytes_at buf' p n = varint_bytes v"
    using assms n buf' by (simp add: bytes_at_put_bytes_same)
  finally show ?thesis
    using assms len n by (simp add: pw_varint_decode32_bytes varint_dec_bytes)
qed

text \<open>C14: The varint decoder is exact: it returns \<open>n > 0\<close> bytes and the value \<open>w\<close> precisely when
  the first \<open>n\<close> bytes, within the limit \<open>max_len\<close>, form a well-formed varint (continuation bits on
  all bytes but the last, at most five bytes, at most four bits in the fifth) and \<open>w\<close> is the number
  they spell. No bit of an accepted encoding is lost in the 32-bit shifts.\<close>

theorem varint_decode_exact:
  assumes "p + max_len \<le> length buf" and "0 < n"
  shows "pw_varint_decode32 buf p max_len out = Some (n, w) \<longleftrightarrow>
     n \<le> max_len \<and> varint_at buf p n \<and> unat w = (\<Sum>k < n. unat (buf ! (p + k)) mod 128 * 128 ^ k)"
proof -
  let ?bs = "bytes_at buf p max_len"
  have val: "unat (word_of_nat (varint_val (take n ?bs)) :: u32) = varint_val (take n ?bs)"
    if "varint_len 0 ?bs = Some n"
    using varint_val_fits [OF that] by (simp add: unat_of_nat take_bit_nat_eq_self)
  have at: "varint_val (take n ?bs) = (\<Sum>k < n. unat (buf ! (p + k)) mod 128 * 128 ^ k)"
    if "n \<le> max_len"
    using that assms(1) by (simp add: take_bytes_at varint_val_at)
  have "pw_varint_decode32 buf p max_len out = Some (n, w) \<longleftrightarrow>
      varint_len 0 ?bs = Some n \<and> w = word_of_nat (varint_val (take n ?bs))"
    using assms by (auto simp: pw_varint_decode32_bytes varint_dec_def split: option.splits)
  also have "\<dots> \<longleftrightarrow> varint_len 0 ?bs = Some n \<and> unat w = varint_val (take n ?bs)"
    using val by (auto simp: word_unat_eq_iff)
  finally show ?thesis
    using at varint_len_at [OF assms(1)] by auto
qed

theorem varint_decode_exact_witness:
  "pw_varint_decode32 [0xFF, 0xFF, 0xFF, 0xFF, 0x0F] 0 5 0 = Some (5, 0xFFFFFFFF) \<longleftrightarrow>
     (5 :: nat) \<le> 5 \<and> varint_at [0xFF, 0xFF, 0xFF, 0xFF, 0x0F] 0 5 \<and>
     unat (0xFFFFFFFF :: u32) =
       (\<Sum>k < 5. unat (([0xFF, 0xFF, 0xFF, 0xFF, 0x0F] :: byte list) ! (0 + k)) mod 128 * 128 ^ k)"
  by (rule varint_decode_exact) simp_all

text \<open>The varint encoder emits the shortest encoding: between one and five bytes, and \<open>n\<close> bytes
  only for numbers that need them; it touches no byte outside these.\<close>

lemma varint_encode_size:
  assumes "pw_varint_encode32 v buf p = Some (n, buf')"
  shows "0 < n \<and> n \<le> 5 \<and> unat v < 128 ^ n \<and> (n = 1 \<or> 128 ^ (n - 1) \<le> unat v) \<and>
    length buf' = length buf \<and> take p buf' = take p buf \<and> drop (p + n) buf' = drop (p + n) buf"
proof -
  let ?b = "varint_bytes v"
  from assms have n: "n = length ?b" and b: "p + n \<le> length buf" and buf': "buf' = put_bytes buf p ?b"
    by (auto simp: pw_varint_encode32_bytes split: if_splits)
  have "unat v < 128 ^ n" using varint_val_bound [of ?b] n by (simp add: varint_val_bytes)
  moreover have "n = 1 \<or> 128 ^ (n - 1) \<le> unat v"
  proof (rule disjCI, rule ccontr)
    have "0 < n" using n length_varint_bytes(1) [of v] by (simp only:)
    moreover assume "\<not> 128 ^ (n - 1) \<le> unat v" and "n \<noteq> 1"
    ultimately have "length ?b \<le> n - 1" by (intro length_varint_bytes_least) linarith+
    with n \<open>0 < n\<close> show False by linarith
  qed
  ultimately show ?thesis
    using n b buf' length_varint_bytes [of v] by (simp add: put_bytes_def)
qed

end
