(* ===== verification/PW_Codec.thy ===== *)
theory PW_Codec
  imports PW_Prelude
begin

text \<open>
  The interface between a wire format and the code that reads a byte stream in it. A format is an
  encoding \<open>enc\<close>, a decoder \<open>dec\<close> that reads a value at the start of a byte string and says how
  many bytes it took, and the set \<open>ok\<close> of values it carries. Every format of the program is an
  interpretation of \<open>codec\<close>; the locale \<open>framed_codec\<close> adds a payload whose length the header
  states. What a reader of a stream relies on is proved here once: encodings are injective and
  prefix free, and a stream of encodings decodes into its values whatever incomplete rest follows.
\<close>

function decode_all :: "(byte list \<Rightarrow> ('a \<times> nat) option) \<Rightarrow> byte list \<Rightarrow> 'a list \<times> byte list" where
  "decode_all dec bs =
     (case dec bs of
        None \<Rightarrow> ([], bs)
      | Some (x, n) \<Rightarrow>
          (if 0 < n \<and> n \<le> length bs
           then (case decode_all dec (drop n bs) of (xs, rest) \<Rightarrow> (x # xs, rest))
           else ([], bs)))"
  by pat_completeness auto
termination
  by (relation "measure (\<lambda>(dec, bs). length bs)") auto

declare decode_all.simps [simp del]

locale codec =
  fixes enc :: "'a \<Rightarrow> byte list"
    and dec :: "byte list \<Rightarrow> ('a \<times> nat) option"
    and ok :: "'a \<Rightarrow> bool"
  assumes dec_enc: "ok x \<Longrightarrow> dec (enc x @ rest) = Some (x, length (enc x))"
    and dec_short: "ok x \<Longrightarrow> n < length (enc x) \<Longrightarrow> dec (take n (enc x)) = None"
    and dec_consumed: "dec bs = Some (x, n) \<Longrightarrow> 0 < n \<and> n \<le> length bs"
begin

lemma enc_nonempty: "ok x \<Longrightarrow> enc x \<noteq> []"
  using dec_enc [of x "[]"] dec_consumed [of "enc x"] by fastforce

lemma prefix_free:
  assumes "ok x" and "ok y" and "enc x @ r = enc y @ s"
  shows "x = y \<and> r = s"
proof -
  have "Some (x, length (enc x)) = dec (enc y @ s)"
    using dec_enc [OF assms(1), of r] assms(3) by simp
  then have "x = y" using dec_enc [OF assms(2), of s] by simp
  with assms(3) show ?thesis by simp
qed

lemma enc_inj: "ok x \<Longrightarrow> ok y \<Longrightarrow> enc x = enc y \<Longrightarrow> x = y"
  using prefix_free [of x y "[]" "[]"] by simp

lemma decode_stream:
  assumes "\<forall>x \<in> set xs. ok x" and "dec rest = None"
  shows "decode_all dec (concat (map enc xs) @ rest) = (xs, rest)"
  using assms(1)
proof (induction xs)
  case Nil
  with assms(2) show ?case by (simp add: decode_all.simps)
next
  case (Cons x xs)
  then have "ok x" by simp
  with Cons enc_nonempty [of x] show ?case
    by (simp add: decode_all.simps [of dec "enc x @ _"] dec_enc)
qed

lemma decode_stream_partial:
  assumes "\<forall>x \<in> set xs. ok x" and "ok y" and "n < length (enc y)"
  shows "decode_all dec (concat (map enc xs) @ take n (enc y)) = (xs, take n (enc y))"
  by (rule decode_stream [OF assms(1) dec_short [OF assms(2,3)]])

end

text \<open>A stream of encodings, cut anywhere: the first piece is a stream with a started rest, and this rest
  and the second piece are again a stream.\<close>

lemma cut_stream:
  assumes "xs @ ys = concat (map enc ms) @ take k (enc m)" and "k < length (enc m)"
  shows "\<exists>ms1 ms2 m1 k1. ms = ms1 @ ms2 \<and> (m1 \<in> set ms \<or> m1 = m) \<and> k1 < length (enc m1) \<and>
    xs = concat (map enc ms1) @ take k1 (enc m1) \<and>
    take k1 (enc m1) @ ys = concat (map enc ms2) @ take k (enc m)"
  using assms(1)
proof (induction ms arbitrary: xs)
  case Nil
  then have e: "xs @ ys = take k (enc m)" by simp
  have l: "length xs \<le> k" using arg_cong [OF e, of length] assms(2) by simp
  have "xs = take (length xs) (take k (enc m))" unfolding e [symmetric] by simp
  with l have "xs = take (length xs) (enc m)" by (simp add: min_def)
  with l Nil assms(2) show ?case
    by (intro exI [of _ "[]"] exI [of _ m] exI [of _ "length xs"]) simp
next
  case (Cons a ms)
  show ?case
  proof (cases "length xs < length (enc a)")
    case True
    with Cons.prems have "xs = take (length xs) (enc a)"
      by (simp add: append_eq_append_conv_if)
    with Cons.prems True show ?thesis
      by (intro exI [of _ "[]"] exI [of _ "a # ms"] exI [of _ a] exI [of _ "length xs"]) simp
  next
    case False
    define zs where "zs = drop (length (enc a)) xs"
    from Cons.prems have p: "xs @ ys = enc a @ concat (map enc ms) @ take k (enc m)" by simp
    have "take (length (enc a)) xs = enc a"
      using arg_cong [OF p, of "take (length (enc a))"] False by simp
    then have "xs = enc a @ zs" unfolding zs_def by (metis append_take_drop_id)
    moreover from this p have "zs @ ys = concat (map enc ms) @ take k (enc m)" by simp
    ultimately have "xs = enc a @ zs" and "zs @ ys = concat (map enc ms) @ take k (enc m)" by blast+
    from Cons.IH [OF this(2)] obtain ms1 ms2 m1 k1 where "ms = ms1 @ ms2" "m1 \<in> set ms \<or> m1 = m"
      "k1 < length (enc m1)" "zs = concat (map enc ms1) @ take k1 (enc m1)"
      "take k1 (enc m1) @ ys = concat (map enc ms2) @ take k (enc m)" by blast
    with \<open>xs = enc a @ zs\<close> show ?thesis
      by (intro exI [of _ "a # ms1"] exI [of _ ms2] exI [of _ m1] exI [of _ k1]) auto
  qed
qed

text \<open>A header followed by a payload of the length the header states.\<close>

definition msg_enc :: "('h \<Rightarrow> byte list) \<Rightarrow> 'h \<times> byte list \<Rightarrow> byte list" where
  "msg_enc enc m = enc (fst m) @ snd m"

definition msg_dec ::
  "(byte list \<Rightarrow> ('h \<times> nat) option) \<Rightarrow> ('h \<Rightarrow> nat) \<Rightarrow> byte list \<Rightarrow> (('h \<times> byte list) \<times> nat) option" where
  "msg_dec dec plen bs =
     (case dec bs of
        None \<Rightarrow> None
      | Some (h, n) \<Rightarrow>
          (if n + plen h \<le> length bs then Some ((h, bytes_at bs n (plen h)), n + plen h) else None))"

definition msg_ok :: "('h \<Rightarrow> bool) \<Rightarrow> ('h \<Rightarrow> nat) \<Rightarrow> 'h \<times> byte list \<Rightarrow> bool" where
  "msg_ok ok plen m \<longleftrightarrow> ok (fst m) \<and> length (snd m) = plen (fst m)"

locale framed_codec = codec enc dec ok
  for enc :: "'a \<Rightarrow> byte list" and dec :: "byte list \<Rightarrow> ('a \<times> nat) option" and ok :: "'a \<Rightarrow> bool" +
  fixes plen :: "'a \<Rightarrow> nat"
begin

lemma msg_dec_enc:
  assumes "msg_ok ok plen m"
  shows "msg_dec dec plen (msg_enc enc m @ rest) = Some (m, length (msg_enc enc m))"
proof -
  obtain h pl where m: "m = (h, pl)" by (cases m)
  with assms have "ok h" and "length pl = plen h" by (simp_all add: msg_ok_def)
  then show ?thesis
    by (simp add: m msg_dec_def msg_enc_def dec_enc bytes_at_def)
qed

lemma msg_dec_short:
  assumes "msg_ok ok plen m" and "n < length (msg_enc enc m)"
  shows "msg_dec dec plen (take n (msg_enc enc m)) = None"
proof -
  obtain h pl where m: "m = (h, pl)" by (cases m)
  with assms(1) have h: "ok h" and pl: "length pl = plen h" by (simp_all add: msg_ok_def)
  show ?thesis
  proof (cases "n < length (enc h)")
    case True
    then show ?thesis by (simp add: m msg_dec_def msg_enc_def dec_short [OF h])
  next
    case False
    with assms(2) pl show ?thesis
      by (simp add: m msg_dec_def msg_enc_def dec_enc [OF h])
  qed
qed

lemma msg_dec_consumed: "msg_dec dec plen bs = Some (m, n) \<Longrightarrow> 0 < n \<and> n \<le> length bs"
  by (auto simp: msg_dec_def split: option.splits if_splits dest: dec_consumed)

end

sublocale framed_codec \<subseteq> msg: codec "msg_enc enc" "msg_dec dec plen" "msg_ok ok plen"
  by unfold_locales (auto simp: msg_dec_enc msg_dec_short dest: msg_dec_consumed)

end
