(* ===== verification/PW_Frame.thy ===== *)
theory PW_Frame
  imports PW_Protocol PW_Varint PW_Codec
begin

text \<open>
  The frame header codec of \<open>native/src/pw_frame.c\<close>. The parser fills the fields of the caller's
  frame in the order of the code, so what it leaves behind when it gives up half way is part of the
  result: the value returned and the frame. The return value is 0 for an incomplete header and
  \<open>SIZE_MAX\<close>, the code's \<open>(size_t)-1\<close>, for wrong magic bytes.
\<close>

section \<open>The code\<close>

text \<open>The encoder is run on \<open>dummy[5]\<close> for its length only; what the array holds does not matter.\<close>

definition pw_frame_header_size :: "pw_frame \<Rightarrow> nat option" where
  "pw_frame_header_size frame = do {
     let dummy = replicate 5 0;
     (n1, dummy) \<leftarrow> pw_varint_encode32 (fr_stream_id frame) dummy 0;
     (n2, dummy) \<leftarrow> pw_varint_encode32 (fr_length frame) dummy 0;
     Some (5 + n1 + n2)
   }"

definition pw_frame_serialize_header :: "pw_frame \<Rightarrow> byte list \<Rightarrow> nat \<Rightarrow> nat \<Rightarrow> (nat \<times> byte list) option" where
  "pw_frame_serialize_header frame buffer p buffer_len = do {
     size \<leftarrow> pw_frame_header_size frame;
     if buffer_len < size then Some (0, buffer)
     else do {
       buffer \<leftarrow> wr buffer p PW_MAGIC_BYTE_1;
       buffer \<leftarrow> wr buffer (p + 1) PW_MAGIC_BYTE_2;
       buffer \<leftarrow> wr buffer (p + 2) (fr_version frame);
       buffer \<leftarrow> wr buffer (p + 3) (fr_flags frame);
       buffer \<leftarrow> wr buffer (p + 4) (fr_opcode frame);
       (n1, buffer) \<leftarrow> pw_varint_encode32 (fr_stream_id frame) buffer (p + 5);
       (n2, buffer) \<leftarrow> pw_varint_encode32 (fr_length frame) buffer (p + (5 + n1));
       Some (5 + n1 + n2, buffer)
     }
   }"

definition pw_frame_parse_header :: "byte list \<Rightarrow> nat \<Rightarrow> nat \<Rightarrow> pw_frame \<Rightarrow> (nat \<times> pw_frame) option" where
  "pw_frame_parse_header buffer p buffer_len out_frame =
     (if buffer_len < 5 then Some (0, out_frame)
      else do {
        m0 \<leftarrow> rd buffer p;
        m1 \<leftarrow> rd buffer (p + 1);
        v \<leftarrow> rd buffer (p + 2);
        fl \<leftarrow> rd buffer (p + 3);
        opc \<leftarrow> rd buffer (p + 4);
        let out_frame = out_frame
          \<lparr>fr_magic := (m0, m1), fr_version := v, fr_flags := fl, fr_opcode := opc\<rparr>;
        if m0 \<noteq> PW_MAGIC_BYTE_1 \<or> m1 \<noteq> PW_MAGIC_BYTE_2 then Some (SIZE_MAX, out_frame)
        else do {
          (n1, sid) \<leftarrow> pw_varint_decode32 buffer (p + 5) (buffer_len - 5) (fr_stream_id out_frame);
          let out_frame = out_frame\<lparr>fr_stream_id := sid\<rparr>;
          if n1 = 0 then Some (0, out_frame)
          else do {
            (n2, len) \<leftarrow> pw_varint_decode32 buffer (p + (5 + n1)) (buffer_len - (5 + n1)) (fr_length out_frame);
            let out_frame = out_frame\<lparr>fr_length := len\<rparr>;
            if n2 = 0 then Some (0, out_frame)
            else Some (5 + n1 + n2, out_frame\<lparr>fr_payload := None\<rparr>)
          }
        }
      })"

section \<open>The reference\<close>

definition frame_header_bytes :: "pw_frame \<Rightarrow> byte list" where
  "frame_header_bytes f =
     [PW_MAGIC_BYTE_1, PW_MAGIC_BYTE_2, fr_version f, fr_flags f, fr_opcode f]
     @ varint_bytes (fr_stream_id f) @ varint_bytes (fr_length f)"

definition frame_dec :: "byte list \<Rightarrow> pw_frame \<Rightarrow> nat \<times> pw_frame" where
  "frame_dec bs out =
     (if length bs < 5 then (0, out)
      else let out = out\<lparr>fr_magic := (bs ! 0, bs ! 1), fr_version := bs ! 2, fr_flags := bs ! 3, fr_opcode := bs ! 4\<rparr>
      in if bs ! 0 \<noteq> 0x50 \<or> bs ! 1 \<noteq> 0x57 then (SIZE_MAX, out)
      else case varint_dec (drop 5 bs) (fr_stream_id out) of (n1, sid) \<Rightarrow>
        (let out = out\<lparr>fr_stream_id := sid\<rparr> in
         if n1 = 0 then (0, out)
         else case varint_dec (drop (5 + n1) bs) (fr_length out) of (n2, len) \<Rightarrow>
           (let out = out\<lparr>fr_length := len\<rparr> in
            if n2 = 0 then (0, out) else (5 + n1 + n2, out\<lparr>fr_payload := None\<rparr>))))"

section \<open>The code refines the reference\<close>

lemma pw_frame_header_size_bytes: "pw_frame_header_size f = Some (length (frame_header_bytes f))"
  using length_varint_bytes [of "fr_stream_id f"] length_varint_bytes [of "fr_length f"]
  by (simp add: pw_frame_header_size_def pw_varint_encode32_bytes length_put_bytes frame_header_bytes_def)

lemma length_frame_header_bytes:
  "7 \<le> length (frame_header_bytes f) \<and> length (frame_header_bytes f) \<le> 15"
proof -
  have "length (frame_header_bytes f) =
      5 + length (varint_bytes (fr_stream_id f)) + length (varint_bytes (fr_length f))"
    by (simp add: frame_header_bytes_def)
  then show ?thesis
    using length_varint_bytes [of "fr_stream_id f"] length_varint_bytes [of "fr_length f"] by linarith
qed

lemma pw_frame_serialize_header_bytes:
  assumes "p + buffer_len \<le> length buf"
  shows "pw_frame_serialize_header f buf p buffer_len =
    Some (if buffer_len < length (frame_header_bytes f) then (0, buf)
          else (length (frame_header_bytes f), put_bytes buf p (frame_header_bytes f)))"
proof (cases "buffer_len < length (frame_header_bytes f)")
  case True
  then show ?thesis by (simp add: pw_frame_serialize_header_def pw_frame_header_size_bytes)
next
  case False
  let ?s = "varint_bytes (fr_stream_id f)" and ?l = "varint_bytes (fr_length f)"
  from False assms have b: "p + 5 + length ?s + length ?l \<le> length buf"
    by (simp add: frame_header_bytes_def)
  with False show ?thesis
    by (simp add: pw_frame_serialize_header_def pw_frame_header_size_bytes pw_varint_encode32_bytes
        frame_header_bytes_def mem_simps)
qed

lemma pw_frame_parse_header_dec:
  assumes "p + buffer_len \<le> length buf"
  shows "pw_frame_parse_header buf p buffer_len out = Some (frame_dec (bytes_at buf p buffer_len) out)"
proof (cases "buffer_len < 5")
  case True
  with assms show ?thesis by (simp add: pw_frame_parse_header_def frame_dec_def length_bytes_at)
next
  case False
  let ?bs = "bytes_at buf p buffer_len"
  have rd: "rd buf (p + i) = Some (?bs ! i)" if "i < buffer_len" for i
    using assms that by (rule rd_bytes_at)
  have rds: "rd buf p = Some (?bs ! 0)" "rd buf (p + 1) = Some (?bs ! 1)" "rd buf (p + 2) = Some (?bs ! 2)"
    "rd buf (p + 3) = Some (?bs ! 3)" "rd buf (p + 4) = Some (?bs ! 4)"
    using False rd [of 0] rd [of 1] rd [of 2] rd [of 3] rd [of 4] by simp_all
  have dec: "pw_varint_decode32 buf (p + k) (buffer_len - k) v = Some (varint_dec (drop k ?bs) v)"
    if "k \<le> buffer_len" for k v
    using assms that by (simp add: pw_varint_decode32_bytes drop_bytes_at)
  have n: "5 + fst (varint_dec (drop 5 ?bs) v) \<le> buffer_len" for v
    using varint_dec_bounds(1) [of "drop 5 ?bs" v] False assms by (simp add: length_bytes_at)
  from False assms show ?thesis
    using n [of "fr_stream_id out"] unfolding pw_frame_parse_header_def rds
    by (auto simp: frame_dec_def length_bytes_at dec Let_def split: prod.splits)
qed

section \<open>Round trip on byte strings\<close>

lemma nth_header_bytes:
  "(frame_header_bytes f @ rest) ! 0 = 0x50" "(frame_header_bytes f @ rest) ! 1 = 0x57"
  "(frame_header_bytes f @ rest) ! 2 = fr_version f" "(frame_header_bytes f @ rest) ! 3 = fr_flags f"
  "(frame_header_bytes f @ rest) ! 4 = fr_opcode f"
  by (simp_all add: frame_header_bytes_def)

lemma drop_header_bytes:
  "drop 5 (frame_header_bytes f @ rest) =
     varint_bytes (fr_stream_id f) @ varint_bytes (fr_length f) @ rest"
  "drop (5 + length (varint_bytes (fr_stream_id f))) (frame_header_bytes f @ rest) =
     varint_bytes (fr_length f) @ rest"
proof -
  show 5: "drop 5 (frame_header_bytes f @ rest) =
      varint_bytes (fr_stream_id f) @ varint_bytes (fr_length f) @ rest"
    by (simp add: frame_header_bytes_def)
  have "drop (5 + length (varint_bytes (fr_stream_id f))) (frame_header_bytes f @ rest) =
      drop (length (varint_bytes (fr_stream_id f))) (drop 5 (frame_header_bytes f @ rest))"
    by (simp only: drop_drop add.commute)
  also have "\<dots> = varint_bytes (fr_length f) @ rest" unfolding 5 by simp
  finally show "drop (5 + length (varint_bytes (fr_stream_id f))) (frame_header_bytes f @ rest) =
      varint_bytes (fr_length f) @ rest" .
qed

text \<open>What the parser makes of a serialised header: the fields that are not sent keep the caller's
  values, and the payload pointer is cleared.\<close>

definition frame_received :: "pw_frame \<Rightarrow> pw_frame \<Rightarrow> pw_frame" where
  "frame_received f out =
     f\<lparr>fr_magic := (PW_MAGIC_BYTE_1, PW_MAGIC_BYTE_2), fr_header_crc := fr_header_crc out, fr_payload := None\<rparr>"

lemma frame_dec_header_bytes:
  "frame_dec (frame_header_bytes f @ rest) out = (length (frame_header_bytes f), frame_received f out)"
proof -
  have "\<not> length (frame_header_bytes f @ rest) < 5"
    using length_frame_header_bytes [of f] by simp
  moreover have "5 + length (varint_bytes (fr_stream_id f)) + length (varint_bytes (fr_length f))
      = length (frame_header_bytes f)"
    by (simp add: frame_header_bytes_def)
  ultimately show ?thesis
    by (simp add: frame_dec_def nth_header_bytes drop_header_bytes varint_dec_bytes frame_received_def
        Let_def del: drop_append length_append One_nat_def)
qed

lemma frame_dec_truncated:
  assumes "n < length (frame_header_bytes f)"
  shows "fst (frame_dec (take n (frame_header_bytes f)) out) = 0"
proof (cases "n < 5")
  case True
  then have "length (take n (frame_header_bytes f)) < 5" by simp
  then show ?thesis by (simp add: frame_dec_def)
next
  case False
  let ?s = "varint_bytes (fr_stream_id f)" and ?l = "varint_bytes (fr_length f)"
  let ?bs = "take n (frame_header_bytes f)"
  from False have nth: "?bs ! i = frame_header_bytes f ! i" if "i < 5" for i using that by simp
  have five: "\<not> length ?bs < 5" using False length_frame_header_bytes [of f] by (auto simp: min_def)
  have d5: "drop 5 ?bs = take (n - 5) (?s @ ?l)"
    using drop_header_bytes(1) [of f "[]"] by (simp add: drop_take)
  have dl: "drop (5 + length ?s) ?bs = take (n - 5 - length ?s) ?l"
    using drop_header_bytes(2) [of f "[]"] by (simp add: drop_take)
  have n: "n - 5 < length ?s + length ?l" using assms False by (simp add: frame_header_bytes_def)
  have magic: "?bs ! 0 = 0x50" "?bs ! 1 = 0x57"
    using nth [of 0] nth [of 1] nth_header_bytes(1,2) [of f "[]"] by simp_all
  show ?thesis
  proof (cases "n - 5 < length ?s")
    case True
    then have "varint_dec (drop 5 ?bs) v = (0, v)" for v by (simp add: d5 varint_dec_prefix)
    with five magic show ?thesis by (simp add: frame_dec_def Let_def del: nth_take length_take One_nat_def)
  next
    case False
    then have "varint_dec (drop 5 ?bs) v = (length ?s, fr_stream_id f)" for v
      by (simp add: d5 varint_dec_bytes)
    moreover have "varint_dec (drop (5 + length ?s) ?bs) v = (0, v)" for v
      unfolding dl using n False by (intro varint_dec_prefix) simp
    ultimately show ?thesis
      using five magic by (simp add: frame_dec_def Let_def del: nth_take length_take One_nat_def)
  qed
qed

lemma frame_dec_consumed:
  "frame_dec bs out = (n, f) \<Longrightarrow> n \<noteq> SIZE_MAX \<Longrightarrow> n \<le> length bs \<and> n \<le> 15"
proof -
  assume d: "frame_dec bs out = (n, f)" and n: "n \<noteq> SIZE_MAX"
  have 1: "fst (varint_dec (drop 5 bs) v) \<le> length bs - 5" "fst (varint_dec (drop 5 bs) v) \<le> 5" for v
    using varint_dec_bounds [of "drop 5 bs" v] by simp_all
  have 2: "fst (varint_dec (drop k bs) v) \<le> length bs - k" "fst (varint_dec (drop k bs) v) \<le> 5" for k v
    using varint_dec_bounds [of "drop k bs" v] by simp_all
  obtain n1 sid where v1: "varint_dec (drop 5 bs) (fr_stream_id out) = (n1, sid)"
    by (cases "varint_dec (drop 5 bs) (fr_stream_id out)")
  obtain n2 len where v2: "varint_dec (drop (5 + n1) bs) (fr_length out) = (n2, len)"
    by (cases "varint_dec (drop (5 + n1) bs) (fr_length out)")
  from d n v1 v2 1 [of "fr_stream_id out"] 2 [of "5 + n1" "fr_length out"] show ?thesis
    by (auto simp: frame_dec_def Let_def split: if_splits)
qed

lemma frame_dec_good_magic:
  "frame_dec bs out = (n, f) \<Longrightarrow> bs ! 0 = 0x50 \<Longrightarrow> bs ! 1 = 0x57 \<Longrightarrow> n \<le> 15"
proof -
  assume d: "frame_dec bs out = (n, f)" and m: "bs ! 0 = 0x50" "bs ! 1 = 0x57"
  obtain n1 sid where v1: "varint_dec (drop 5 bs) (fr_stream_id out) = (n1, sid)"
    by (cases "varint_dec (drop 5 bs) (fr_stream_id out)")
  obtain n2 len where v2: "varint_dec (drop (5 + n1) bs) (fr_length out) = (n2, len)"
    by (cases "varint_dec (drop (5 + n1) bs) (fr_length out)")
  have "n1 \<le> 5" "n2 \<le> 5"
    using varint_dec_bounds(2) [of "drop 5 bs" "fr_stream_id out"] v1
      varint_dec_bounds(2) [of "drop (5 + n1) bs" "fr_length out"] v2 by simp_all
  with d m v1 v2 show "n \<le> 15"
    by (auto simp: frame_dec_def Let_def split: if_splits)
qed

section \<open>The header format as a codec\<close>

text \<open>The reader that the session loops make of the parser: a header is there when the return value
  is neither 0 nor the error value.\<close>

definition frame_header_read :: "byte list \<Rightarrow> (pw_frame \<times> nat) option" where
  "frame_header_read bs =
     (case pw_frame_parse_header bs 0 (length bs) (frame_init 0 0 PW_OPCODE_CONTROL 0 0) of
        None \<Rightarrow> None
      | Some (n, f) \<Rightarrow> if n = 0 \<or> n = SIZE_MAX then None else Some (f, n))"

definition frame_wire_ok :: "pw_frame \<Rightarrow> bool" where
  "frame_wire_ok f \<longleftrightarrow>
     fr_magic f = (PW_MAGIC_BYTE_1, PW_MAGIC_BYTE_2) \<and> fr_header_crc f = 0 \<and> fr_payload f = None"

lemma frame_header_read_dec:
  "frame_header_read bs =
     (case frame_dec bs (frame_init 0 0 PW_OPCODE_CONTROL 0 0) of
        (n, f) \<Rightarrow> if n = 0 \<or> n = SIZE_MAX then None else Some (f, n))"
  by (simp add: frame_header_read_def pw_frame_parse_header_dec)

lemma frame_received_wire_ok:
  "frame_wire_ok f \<Longrightarrow> frame_received f (frame_init 0 0 opc 0 0) = f"
  by (simp add: frame_wire_ok_def frame_received_def frame_init_def)

interpretation fh: framed_codec frame_header_bytes frame_header_read frame_wire_ok "\<lambda>f. unat (fr_length f)"
proof unfold_locales
  fix f and rest :: "byte list"
  assume "frame_wire_ok f"
  then show "frame_header_read (frame_header_bytes f @ rest) = Some (f, length (frame_header_bytes f))"
    using length_frame_header_bytes [of f]
    by (auto simp: frame_header_read_dec frame_dec_header_bytes frame_received_wire_ok SIZE_MAX_def)
next
  fix f n
  assume "n < length (frame_header_bytes f)"
  then show "frame_header_read (take n (frame_header_bytes f)) = None"
    using frame_dec_truncated [of n f "frame_init 0 0 PW_OPCODE_CONTROL 0 0"]
    by (auto simp: frame_header_read_dec split: prod.splits)
next
  fix bs f n
  assume "frame_header_read bs = Some (f, n)"
  then show "0 < n \<and> n \<le> length bs"
    by (auto simp: frame_header_read_dec split: prod.splits if_splits dest: frame_dec_consumed)
qed

section \<open>Properties\<close>

text \<open>C9: A frame header written by the serialiser is parsed back by the parser: same number of bytes,
  and version, flags, opcode, stream id and length as sent, for every header and whatever follows it
  in the buffer. The magic bytes are always those of the protocol; the checksum field, which is not
  on the wire, keeps the receiver's value. Neither the version nor the opcode is restricted.\<close>

theorem frame_header_roundtrip:
  assumes "p + buffer_len \<le> length buf"
    and "pw_frame_serialize_header f buf p buffer_len = Some (n, buf')" and "n \<noteq> 0"
    and "n \<le> m" and "p + m \<le> length buf"
  shows "pw_frame_parse_header buf' p m out = Some (n,
     f\<lparr>fr_magic := (PW_MAGIC_BYTE_1, PW_MAGIC_BYTE_2), fr_header_crc := fr_header_crc out, fr_payload := None\<rparr>)"
proof -
  let ?h = "frame_header_bytes f"
  from assms(1-3) have n: "n = length ?h" and b: "n \<le> buffer_len" and buf': "buf' = put_bytes buf p ?h"
    by (auto simp: pw_frame_serialize_header_bytes split: if_splits)
  have len: "length buf' = length buf" using assms(1) n b buf' by (simp add: length_put_bytes)
  have "bytes_at buf' p m = bytes_at buf' p n @ bytes_at buf' (p + n) (m - n)"
    using assms(4) by (simp add: bytes_at_append)
  also have "bytes_at buf' p n = ?h"
    using assms(1) n b buf' by (simp add: bytes_at_put_bytes_same)
  finally show ?thesis
    using assms(5) len n by (simp add: pw_frame_parse_header_dec frame_dec_header_bytes frame_received_def)
qed

theorem frame_header_roundtrip_witness:
  "pw_frame_parse_header [0x50, 0x57, 0x01, 0x10, 0x02, 0x01, 0x12, 0x41] 0 8 (frame_init 0 0 PW_OPCODE_ACK 7 7) =
     Some (7, (frame_init PW_VERSION_1 PW_FLAG_FIN PW_OPCODE_DATA_TEXT 1 18)
       \<lparr>fr_magic := (PW_MAGIC_BYTE_1, PW_MAGIC_BYTE_2),
        fr_header_crc := fr_header_crc (frame_init 0 0 PW_OPCODE_ACK 7 7), fr_payload := None\<rparr>)"
proof (rule frame_header_roundtrip)
  show "pw_frame_serialize_header (frame_init PW_VERSION_1 PW_FLAG_FIN PW_OPCODE_DATA_TEXT 1 18)
      [0, 0, 0, 0, 0, 0, 0, 0x41] 0 8 = Some (7, [0x50, 0x57, 0x01, 0x10, 0x02, 0x01, 0x12, 0x41])"
    by (simp add: pw_frame_serialize_header_bytes frame_header_bytes_def frame_init_def
        varint_bytes.simps put_bytes_def word_le_nat_alt)
qed simp_all

text \<open>The header parser is memory safe and total on any input: it reads only the bytes it is told
  are there, it answers with the error value exactly when five bytes are there and the magic is wrong,
  and otherwise with 0 or with a header of 7 to 15 of these bytes.\<close>

lemma frame_parse_total:
  assumes "p + m \<le> length buf"
  shows "\<exists>n f. pw_frame_parse_header buf p m out = Some (n, f) \<and>
     (n = SIZE_MAX \<longleftrightarrow> 5 \<le> m \<and> (buf ! p \<noteq> PW_MAGIC_BYTE_1 \<or> buf ! (p + 1) \<noteq> PW_MAGIC_BYTE_2)) \<and>
     (n = SIZE_MAX \<or> n = 0 \<or> 7 \<le> n \<and> n \<le> m \<and> n \<le> 15)"
proof -
  let ?bs = "bytes_at buf p m"
  obtain n f where d: "frame_dec ?bs out = (n, f)" by (cases "frame_dec ?bs out")
  have nth: "?bs ! 0 = buf ! p" "?bs ! 1 = buf ! (p + 1)" if "5 \<le> m"
    using assms that nth_bytes_at [of p m buf 0] nth_bytes_at [of p m buf 1] by simp_all
  have len: "length ?bs = m" using assms by (rule length_bytes_at)
  obtain n1 sid where v1: "varint_dec (drop 5 ?bs) (fr_stream_id out) = (n1, sid)"
    by (cases "varint_dec (drop 5 ?bs) (fr_stream_id out)")
  obtain n2 l where v2: "varint_dec (drop (5 + n1) ?bs) (fr_length out) = (n2, l)"
    by (cases "varint_dec (drop (5 + n1) ?bs) (fr_length out)")
  have small: "n1 \<le> 5" "n2 \<le> 5"
    using varint_dec_bounds(2) [of "drop 5 ?bs" "fr_stream_id out"] v1
      varint_dec_bounds(2) [of "drop (5 + n1) ?bs" "fr_length out"] v2 by simp_all
  from d v1 v2 small len have "n = (if m < 5 then 0 else if ?bs ! 0 \<noteq> 0x50 \<or> ?bs ! 1 \<noteq> 0x57 then SIZE_MAX
      else if n1 = 0 \<or> n2 = 0 then 0 else 5 + n1 + n2)"
    by (cases "m < 5"; cases "?bs ! 0 = 0x50"; cases "?bs ! 1 = 0x57"; cases "n1 = 0"; cases "n2 = 0")
      (simp_all add: frame_dec_def Let_def)
  moreover have "n \<noteq> SIZE_MAX \<Longrightarrow> n \<le> m"
    using frame_dec_consumed [OF d] len by simp
  ultimately show ?thesis
    using d small nth assms
    by (auto simp: pw_frame_parse_header_dec SIZE_MAX_def Suc_le_eq not_less split: if_splits)
qed

text \<open>A header that has arrived only in part is never mistaken for a frame: on every proper prefix
  of a serialised header the parser answers 0, the request for more data.\<close>

lemma frame_parse_incomplete:
  assumes "p + buffer_len \<le> length buf"
    and "pw_frame_serialize_header f buf p buffer_len = Some (n, buf')" and "m < n"
  shows "\<exists>g. pw_frame_parse_header buf' p m out = Some (0, g)"
proof -
  let ?h = "frame_header_bytes f"
  from assms have n: "n = length ?h" and b: "n \<le> buffer_len" and buf': "buf' = put_bytes buf p ?h"
    by (auto simp: pw_frame_serialize_header_bytes split: if_splits)
  have len: "length buf' = length buf" using assms(1) n b buf' by (simp add: length_put_bytes)
  have "bytes_at buf' p m = take m (bytes_at buf' p n)"
    using assms(3) by (simp add: take_bytes_at)
  also have "bytes_at buf' p n = ?h"
    using assms(1) n b buf' by (simp add: bytes_at_put_bytes_same)
  finally show ?thesis
    using frame_dec_truncated [of m f out] assms n b len
    by (cases "frame_dec (take m ?h) out") (simp add: pw_frame_parse_header_dec)
qed

text \<open>The serialiser never writes past the room it is given: with a room that lies in the buffer it
  always returns, writes nothing when the header does not fit, and otherwise changes exactly the
  bytes it reports.\<close>

lemma frame_serialize_safe:
  assumes "p + buffer_len \<le> length buf"
  shows "\<exists>n buf'. pw_frame_serialize_header f buf p buffer_len = Some (n, buf') \<and>
     (n = 0 \<and> buf' = buf \<or> 7 \<le> n \<and> n \<le> 15) \<and> n \<le> buffer_len \<and>
     length buf' = length buf \<and> take p buf' = take p buf \<and> drop (p + n) buf' = drop (p + n) buf"
  using assms length_frame_header_bytes [of f]
  by (auto simp: pw_frame_serialize_header_bytes put_bytes_def)

text \<open>A byte stream made of complete messages (header and payload of the length the header states)
  and a started one is cut back into exactly these messages, and the started one is left for later:
  the framing is unambiguous.\<close>

lemma frame_stream_decodes:
  assumes "\<forall>m \<in> set ms. msg_ok frame_wire_ok (\<lambda>f. unat (fr_length f)) m"
    and "msg_ok frame_wire_ok (\<lambda>f. unat (fr_length f)) m'" and "n < length (msg_enc frame_header_bytes m')"
  shows "decode_all (msg_dec frame_header_read (\<lambda>f. unat (fr_length f)))
       (concat (map (msg_enc frame_header_bytes) ms) @ take n (msg_enc frame_header_bytes m')) =
     (ms, take n (msg_enc frame_header_bytes m'))"
  by (rule fh.msg.decode_stream_partial [OF assms])

end
