(* ===== verification/PW_Handshake.thy ===== *)
theory PW_Handshake
  imports PW_Protocol PW_Codec
begin

text \<open>
  The handshake messages of \<open>native/src/pw_handshake.c\<close>: big-endian integers, the client and the
  server hello, their serialisers and their parsers. The fixed arrays of the structures are byte
  lists; \<open>client_hello_wf\<close> and \<open>server_hello_wf\<close> say that they have the declared sizes.
\<close>

section \<open>Big-endian integers: the code\<close>

definition write_u32_be :: "byte list \<Rightarrow> nat \<Rightarrow> u32 \<Rightarrow> byte list option" where
  "write_u32_be buf p val = do {
     buf \<leftarrow> wr buf p (ucast (drop_bit 24 val AND 0xFF));
     buf \<leftarrow> wr buf (p + 1) (ucast (drop_bit 16 val AND 0xFF));
     buf \<leftarrow> wr buf (p + 2) (ucast (drop_bit 8 val AND 0xFF));
     wr buf (p + 3) (ucast (val AND 0xFF))
   }"

definition read_u32_be :: "byte list \<Rightarrow> nat \<Rightarrow> u32 option" where
  "read_u32_be buf p = do {
     b0 \<leftarrow> rd buf p;
     b1 \<leftarrow> rd buf (p + 1);
     b2 \<leftarrow> rd buf (p + 2);
     b3 \<leftarrow> rd buf (p + 3);
     Some (push_bit 24 (ucast b0) OR push_bit 16 (ucast b1) OR push_bit 8 (ucast b2) OR ucast b3)
   }"

definition write_u16_be :: "byte list \<Rightarrow> nat \<Rightarrow> u16 \<Rightarrow> byte list option" where
  "write_u16_be buf p val = do {
     buf \<leftarrow> wr buf p (ucast (drop_bit 8 val AND 0xFF));
     wr buf (p + 1) (ucast (val AND 0xFF))
   }"

definition read_u16_be :: "byte list \<Rightarrow> nat \<Rightarrow> u16 option" where
  "read_u16_be buf p = do {
     b0 \<leftarrow> rd buf p;
     b1 \<leftarrow> rd buf (p + 1);
     Some (push_bit 8 (ucast b0) OR ucast b1)
   }"

section \<open>Big-endian integers: the reference\<close>

definition u32_be :: "u32 \<Rightarrow> byte list" where
  "u32_be v = [ucast (drop_bit 24 v), ucast (drop_bit 16 v), ucast (drop_bit 8 v), ucast v]"

definition u32_of_be :: "byte list \<Rightarrow> u32" where
  "u32_of_be bs = push_bit 24 (ucast (bs ! 0)) OR push_bit 16 (ucast (bs ! 1))
     OR push_bit 8 (ucast (bs ! 2)) OR ucast (bs ! 3)"

definition u16_be :: "u16 \<Rightarrow> byte list" where
  "u16_be v = [ucast (drop_bit 8 v), ucast v]"

definition u16_of_be :: "byte list \<Rightarrow> u16" where
  "u16_of_be bs = push_bit 8 (ucast (bs ! 0)) OR ucast (bs ! 1)"

lemma ucast_and_FF: "(ucast (v AND 0xFF) :: byte) = ucast v" for v :: "'a::len word"
proof -
  have "v AND 0xFF = take_bit 8 v" by (simp add: take_bit_eq_mask mask_eq_exp_minus_1)
  then have "(ucast (v AND 0xFF) :: byte) = ucast (take_bit 8 v)" by (rule arg_cong)
  also have "\<dots> = ucast v"
    by (rule bit_word_eqI) (auto simp only: bit_ucast_iff bit_take_bit_iff, simp_all)
  finally show ?thesis .
qed

lemma length_u32_be [simp]: "length (u32_be v) = 4"
  by (simp add: u32_be_def)

lemma length_u16_be [simp]: "length (u16_be v) = 2"
  by (simp add: u16_be_def)

lemma u32_of_be_be: "u32_of_be (u32_be v @ rest) = v"
proof (rule bit_word_eqI)
  fix n assume "n < LENGTH(32)"
  then show "bit (u32_of_be (u32_be v @ rest)) n \<longleftrightarrow> bit v n"
    unfolding u32_of_be_def u32_be_def
    by (cases "n < 8"; cases "n < 16"; cases "n < 24") (auto simp: bit_simps not_less)
qed

lemma u32_be_of_be:
  assumes "length bs = 4"
  shows "u32_be (u32_of_be bs) = bs"
proof -
  obtain a b c d where bs: "bs = [a, b, c, d]"
    using assms by (auto simp: eval_nat_numeral length_Suc_conv)
  have "ucast (drop_bit 24 (u32_of_be bs)) = a" "ucast (drop_bit 16 (u32_of_be bs)) = b"
    "ucast (drop_bit 8 (u32_of_be bs)) = c" "ucast (u32_of_be bs) = d"
    unfolding u32_of_be_def bs
    by (rule bit_word_eqI; auto simp: bit_simps dest: bit_imp_le_length)+
  then show ?thesis by (simp add: u32_be_def bs)
qed

lemma u16_of_be_be: "u16_of_be (u16_be v @ rest) = v"
proof (rule bit_word_eqI)
  fix n assume "n < LENGTH(16)"
  then show "bit (u16_of_be (u16_be v @ rest)) n \<longleftrightarrow> bit v n"
    unfolding u16_of_be_def u16_be_def
    by (auto simp: bit_simps)
qed

lemma write_u32_be_bytes [mem_simps]:
  "p + 4 \<le> length buf \<Longrightarrow> write_u32_be buf p v = Some (put_bytes buf p (u32_be v))"
  by (simp add: write_u32_be_def ucast_and_FF mem_simps u32_be_def)

lemma write_u16_be_bytes [mem_simps]:
  "p + 2 \<le> length buf \<Longrightarrow> write_u16_be buf p v = Some (put_bytes buf p (u16_be v))"
  by (simp add: write_u16_be_def ucast_and_FF mem_simps u16_be_def)

lemma read_u32_be_bytes [mem_simps]:
  "p + 4 \<le> length buf \<Longrightarrow> read_u32_be buf p = Some (u32_of_be (bytes_at buf p 4))"
  by (simp add: read_u32_be_def mem_simps u32_of_be_def nth_bytes_at)

lemma read_u16_be_bytes [mem_simps]:
  "p + 2 \<le> length buf \<Longrightarrow> read_u16_be buf p = Some (u16_of_be (bytes_at buf p 2))"
  by (simp add: read_u16_be_def mem_simps u16_of_be_def nth_bytes_at)

section \<open>The hello messages: the code\<close>

definition PW_CAP_RESUME :: u32 where
  [simp, pw_consts]: "PW_CAP_RESUME = 0x10"

definition PW_CAP_COMPRESSION :: u32 where
  [simp, pw_consts]: "PW_CAP_COMPRESSION = 0x01"

definition PW_CAP_MULTIPLEXING :: u32 where
  [simp, pw_consts]: "PW_CAP_MULTIPLEXING = 0x02"

definition PW_CAP_AUTH_HMAC :: u32 where
  [simp, pw_consts]: "PW_CAP_AUTH_HMAC = 0x08"

definition PW_CAP_AUTH_BEARER :: u32 where
  [simp, pw_consts]: "PW_CAP_AUTH_BEARER = 0x04"

definition PW_NONCE_SIZE :: nat where
  [simp, pw_consts]: "PW_NONCE_SIZE = 16"

definition PW_SESSION_ID_SIZE :: nat where
  [simp, pw_consts]: "PW_SESSION_ID_SIZE = 16"

record pw_client_hello =
  ch_magic :: "byte \<times> byte"
  ch_version :: byte
  ch_capabilities :: u32
  ch_client_nonce :: "byte list"
  ch_has_resume_token :: bool
  ch_resume_session_id :: "byte list"

record pw_server_hello =
  sh_magic :: "byte \<times> byte"
  sh_version :: byte
  sh_capabilities :: u32
  sh_server_nonce :: "byte list"
  sh_session_id :: "byte list"
  sh_status :: u16
  sh_resume_accepted :: bool

definition client_hello_wf :: "pw_client_hello \<Rightarrow> bool" where
  "client_hello_wf h \<longleftrightarrow>
     length (ch_client_nonce h) = PW_NONCE_SIZE \<and> length (ch_resume_session_id h) = PW_SESSION_ID_SIZE"

definition server_hello_wf :: "pw_server_hello \<Rightarrow> bool" where
  "server_hello_wf h \<longleftrightarrow>
     length (sh_server_nonce h) = PW_NONCE_SIZE \<and> length (sh_session_id h) = PW_SESSION_ID_SIZE"

text \<open>The resume bit of the capabilities is made to agree with the resume flag before it is sent.\<close>

definition client_hello_caps :: "pw_client_hello \<Rightarrow> u32" where
  "client_hello_caps h =
     (if ch_has_resume_token h then ch_capabilities h OR PW_CAP_RESUME
      else ch_capabilities h AND NOT PW_CAP_RESUME)"

definition pw_handshake_serialize_client_hello ::
  "pw_client_hello \<Rightarrow> byte list \<Rightarrow> nat \<Rightarrow> nat \<Rightarrow> (nat \<times> byte list) option" where
  "pw_handshake_serialize_client_hello hello buffer p buffer_len =
     (let required = 2 + 1 + 4 + PW_NONCE_SIZE + 1;
          required = (if ch_has_resume_token hello then required + PW_SESSION_ID_SIZE else required)
      in if buffer_len < required then Some (0, buffer)
      else do {
        buffer \<leftarrow> wr buffer p (fst (ch_magic hello));
        buffer \<leftarrow> wr buffer (p + 1) (snd (ch_magic hello));
        buffer \<leftarrow> wr buffer (p + 2) (ch_version hello);
        buffer \<leftarrow> write_u32_be buffer (p + 3) (client_hello_caps hello);
        buffer \<leftarrow> memcpy buffer (p + 7) (ch_client_nonce hello) 0 PW_NONCE_SIZE;
        buffer \<leftarrow> wr buffer (p + 23) (if ch_has_resume_token hello then 1 else 0);
        if ch_has_resume_token hello
        then do {
          buffer \<leftarrow> memcpy buffer (p + 24) (ch_resume_session_id hello) 0 PW_SESSION_ID_SIZE;
          Some (24 + PW_SESSION_ID_SIZE, buffer)
        }
        else Some (24, buffer)
      })"

definition pw_handshake_parse_client_hello ::
  "byte list \<Rightarrow> nat \<Rightarrow> nat \<Rightarrow> pw_client_hello \<Rightarrow> (nat \<times> pw_client_hello) option" where
  "pw_handshake_parse_client_hello buffer p buffer_len out_hello =
     (let required = 2 + 1 + 4 + PW_NONCE_SIZE + 1
      in if buffer_len < required then Some (0, out_hello)
      else do {
        m0 \<leftarrow> rd buffer p;
        m1 \<leftarrow> rd buffer (p + 1);
        v \<leftarrow> rd buffer (p + 2);
        caps \<leftarrow> read_u32_be buffer (p + 3);
        nonce \<leftarrow> memcpy (ch_client_nonce out_hello) 0 buffer (p + 7) PW_NONCE_SIZE;
        has_resume \<leftarrow> rd buffer (p + 23);
        let out_hello = out_hello
          \<lparr>ch_magic := (m0, m1), ch_version := v, ch_capabilities := caps, ch_client_nonce := nonce,
           ch_has_resume_token := (has_resume = 1)\<rparr>;
        if ch_has_resume_token out_hello
        then
          if buffer_len < required + PW_SESSION_ID_SIZE then Some (0, out_hello)
          else do {
            sid \<leftarrow> memcpy (ch_resume_session_id out_hello) 0 buffer (p + 24) PW_SESSION_ID_SIZE;
            Some (24 + PW_SESSION_ID_SIZE, out_hello\<lparr>ch_resume_session_id := sid\<rparr>)
          }
        else Some (24, out_hello)
      })"

definition pw_handshake_serialize_server_hello ::
  "pw_server_hello \<Rightarrow> byte list \<Rightarrow> nat \<Rightarrow> nat \<Rightarrow> (nat \<times> byte list) option" where
  "pw_handshake_serialize_server_hello hello buffer p buffer_len =
     (let required = 2 + 1 + 4 + PW_NONCE_SIZE + PW_SESSION_ID_SIZE + 2 + 1
      in if buffer_len < required then Some (0, buffer)
      else do {
        buffer \<leftarrow> wr buffer p (fst (sh_magic hello));
        buffer \<leftarrow> wr buffer (p + 1) (snd (sh_magic hello));
        buffer \<leftarrow> wr buffer (p + 2) (sh_version hello);
        buffer \<leftarrow> write_u32_be buffer (p + 3) (sh_capabilities hello);
        buffer \<leftarrow> memcpy buffer (p + 7) (sh_server_nonce hello) 0 PW_NONCE_SIZE;
        buffer \<leftarrow> memcpy buffer (p + 23) (sh_session_id hello) 0 PW_SESSION_ID_SIZE;
        buffer \<leftarrow> write_u16_be buffer (p + 39) (sh_status hello);
        buffer \<leftarrow> wr buffer (p + 41) (if sh_resume_accepted hello then 1 else 0);
        Some (42, buffer)
      })"

definition pw_handshake_parse_server_hello ::
  "byte list \<Rightarrow> nat \<Rightarrow> nat \<Rightarrow> pw_server_hello \<Rightarrow> (nat \<times> pw_server_hello) option" where
  "pw_handshake_parse_server_hello buffer p buffer_len out_hello =
     (let required = 2 + 1 + 4 + PW_NONCE_SIZE + PW_SESSION_ID_SIZE + 2 + 1
      in if buffer_len < required then Some (0, out_hello)
      else do {
        m0 \<leftarrow> rd buffer p;
        m1 \<leftarrow> rd buffer (p + 1);
        v \<leftarrow> rd buffer (p + 2);
        caps \<leftarrow> read_u32_be buffer (p + 3);
        nonce \<leftarrow> memcpy (sh_server_nonce out_hello) 0 buffer (p + 7) PW_NONCE_SIZE;
        sid \<leftarrow> memcpy (sh_session_id out_hello) 0 buffer (p + 23) PW_SESSION_ID_SIZE;
        st \<leftarrow> read_u16_be buffer (p + 39);
        acc \<leftarrow> rd buffer (p + 41);
        Some (42, out_hello
          \<lparr>sh_magic := (m0, m1), sh_version := v, sh_capabilities := caps, sh_server_nonce := nonce,
           sh_session_id := sid, sh_status := st, sh_resume_accepted := (acc = 1)\<rparr>)
      })"

section \<open>The hello messages: the reference\<close>

definition client_hello_bytes :: "pw_client_hello \<Rightarrow> byte list" where
  "client_hello_bytes h =
     [fst (ch_magic h), snd (ch_magic h), ch_version h] @ u32_be (client_hello_caps h) @ ch_client_nonce h
     @ (if ch_has_resume_token h then 1 # ch_resume_session_id h else [0])"

definition client_hello_dec :: "byte list \<Rightarrow> pw_client_hello \<Rightarrow> nat \<times> pw_client_hello" where
  "client_hello_dec bs out =
     (if length bs < 24 then (0, out)
      else let out = out
        \<lparr>ch_magic := (bs ! 0, bs ! 1), ch_version := bs ! 2, ch_capabilities := u32_of_be (bytes_at bs 3 4),
         ch_client_nonce := bytes_at bs 7 16, ch_has_resume_token := (bs ! 23 = 1)\<rparr>
      in if bs ! 23 = 1
         then if length bs < 40 then (0, out) else (40, out\<lparr>ch_resume_session_id := bytes_at bs 24 16\<rparr>)
         else (24, out))"

definition server_hello_bytes :: "pw_server_hello \<Rightarrow> byte list" where
  "server_hello_bytes h =
     [fst (sh_magic h), snd (sh_magic h), sh_version h] @ u32_be (sh_capabilities h) @ sh_server_nonce h
     @ sh_session_id h @ u16_be (sh_status h) @ [if sh_resume_accepted h then 1 else 0]"

definition server_hello_dec :: "byte list \<Rightarrow> pw_server_hello \<Rightarrow> nat \<times> pw_server_hello" where
  "server_hello_dec bs out =
     (if length bs < 42 then (0, out)
      else (42, out
        \<lparr>sh_magic := (bs ! 0, bs ! 1), sh_version := bs ! 2, sh_capabilities := u32_of_be (bytes_at bs 3 4),
         sh_server_nonce := bytes_at bs 7 16, sh_session_id := bytes_at bs 23 16,
         sh_status := u16_of_be (bytes_at bs 39 2), sh_resume_accepted := (bs ! 41 = 1)\<rparr>))"

section \<open>The code refines the reference\<close>

lemma length_client_hello_bytes:
  "client_hello_wf h \<Longrightarrow> length (client_hello_bytes h) = (if ch_has_resume_token h then 40 else 24)"
  by (simp add: client_hello_bytes_def client_hello_wf_def)

lemma length_server_hello_bytes: "server_hello_wf h \<Longrightarrow> length (server_hello_bytes h) = 42"
  by (simp add: server_hello_bytes_def server_hello_wf_def)

lemma serialize_client_hello_bytes:
  assumes "p + buffer_len \<le> length buf" and "client_hello_wf h"
  shows "pw_handshake_serialize_client_hello h buf p buffer_len =
    Some (if buffer_len < length (client_hello_bytes h) then (0, buf)
          else (length (client_hello_bytes h), put_bytes buf p (client_hello_bytes h)))"
  using assms length_client_hello_bytes [OF assms(2)]
  by (auto simp: pw_handshake_serialize_client_hello_def client_hello_bytes_def client_hello_wf_def
      mem_simps bytes_at_whole)

lemma serialize_server_hello_bytes:
  assumes "p + buffer_len \<le> length buf" and "server_hello_wf h"
  shows "pw_handshake_serialize_server_hello h buf p buffer_len =
    Some (if buffer_len < 42 then (0, buf) else (42, put_bytes buf p (server_hello_bytes h)))"
  using assms
  by (auto simp: pw_handshake_serialize_server_hello_def server_hello_bytes_def server_hello_wf_def
      mem_simps bytes_at_whole)

lemma parse_client_hello_dec:
  assumes "p + buffer_len \<le> length buf" and "client_hello_wf out"
  shows "pw_handshake_parse_client_hello buf p buffer_len out =
    Some (client_hello_dec (bytes_at buf p buffer_len) out)"
  using assms
  by (auto simp: pw_handshake_parse_client_hello_def client_hello_dec_def client_hello_wf_def
      length_bytes_at nth_bytes_at bytes_at_bytes_at put_bytes_whole mem_simps Let_def)

lemma parse_server_hello_dec:
  assumes "p + buffer_len \<le> length buf" and "server_hello_wf out"
  shows "pw_handshake_parse_server_hello buf p buffer_len out =
    Some (server_hello_dec (bytes_at buf p buffer_len) out)"
  using assms
  by (auto simp: pw_handshake_parse_server_hello_def server_hello_dec_def server_hello_wf_def
      length_bytes_at nth_bytes_at bytes_at_bytes_at put_bytes_whole mem_simps Let_def)

section \<open>Round trip on byte strings\<close>

text \<open>What a parser makes of the bytes of a hello: the session id to resume is only sent with the flag.\<close>

definition client_hello_received :: "pw_client_hello \<Rightarrow> pw_client_hello \<Rightarrow> pw_client_hello" where
  "client_hello_received h out =
     h\<lparr>ch_capabilities := client_hello_caps h,
       ch_resume_session_id := (if ch_has_resume_token h then ch_resume_session_id h else ch_resume_session_id out)\<rparr>"

lemma client_hello_layout:
  assumes "client_hello_wf h"
  shows "(client_hello_bytes h @ rest) ! 0 = fst (ch_magic h)"
    and "(client_hello_bytes h @ rest) ! Suc 0 = snd (ch_magic h)"
    and "(client_hello_bytes h @ rest) ! 2 = ch_version h"
    and "bytes_at (client_hello_bytes h @ rest) 3 4 = u32_be (client_hello_caps h)"
    and "bytes_at (client_hello_bytes h @ rest) 7 16 = ch_client_nonce h"
    and "(client_hello_bytes h @ rest) ! 23 = (if ch_has_resume_token h then 1 else 0)"
    and "ch_has_resume_token h \<Longrightarrow> bytes_at (client_hello_bytes h @ rest) 24 16 = ch_resume_session_id h"
  using assms
  by (simp_all add: client_hello_bytes_def client_hello_wf_def bytes_at_def nth_append)

lemma client_hello_dec_bytes:
  assumes "client_hello_wf h"
  shows "client_hello_dec (client_hello_bytes h @ rest) out =
    (length (client_hello_bytes h), client_hello_received h out)"
  using client_hello_layout [OF assms, of rest] length_client_hello_bytes [OF assms]
    u32_of_be_be [of "client_hello_caps h" "[]"]
  by (cases "ch_has_resume_token h") (simp_all add: client_hello_dec_def client_hello_received_def Let_def)

lemma client_hello_dec_truncated:
  assumes "client_hello_wf h" and "n < length (client_hello_bytes h)"
  shows "fst (client_hello_dec (take n (client_hello_bytes h)) out) = 0"
  using assms(2) length_client_hello_bytes [OF assms(1)] client_hello_layout(6) [OF assms(1), of "[]"]
  by (cases "n < 24"; cases "ch_has_resume_token h") (simp_all add: client_hello_dec_def Let_def)

lemma client_hello_dec_consumed:
  "client_hello_dec bs out = (n, h) \<Longrightarrow> n \<le> length bs \<and> (n = 0 \<or> n = 24 \<or> n = 40)"
  by (auto simp: client_hello_dec_def Let_def split: if_splits)

lemma server_hello_layout:
  assumes "server_hello_wf h"
  shows "(server_hello_bytes h @ rest) ! 0 = fst (sh_magic h)"
    and "(server_hello_bytes h @ rest) ! Suc 0 = snd (sh_magic h)"
    and "(server_hello_bytes h @ rest) ! 2 = sh_version h"
    and "bytes_at (server_hello_bytes h @ rest) 3 4 = u32_be (sh_capabilities h)"
    and "bytes_at (server_hello_bytes h @ rest) 7 16 = sh_server_nonce h"
    and "bytes_at (server_hello_bytes h @ rest) 23 16 = sh_session_id h"
    and "bytes_at (server_hello_bytes h @ rest) 39 2 = u16_be (sh_status h)"
    and "(server_hello_bytes h @ rest) ! 41 = (if sh_resume_accepted h then 1 else 0)"
  using assms
  by (simp_all add: server_hello_bytes_def server_hello_wf_def bytes_at_def nth_append)

lemma server_hello_dec_bytes:
  assumes "server_hello_wf h"
  shows "server_hello_dec (server_hello_bytes h @ rest) out = (42, h)"
  using server_hello_layout [OF assms, of rest] length_server_hello_bytes [OF assms]
    u32_of_be_be [of "sh_capabilities h" "[]"] u16_of_be_be [of "sh_status h" "[]"]
  by (simp add: server_hello_dec_def)

lemma server_hello_dec_truncated: "n < 42 \<Longrightarrow> fst (server_hello_dec (take n bs) out) = 0"
  by (simp add: server_hello_dec_def)

section \<open>The hello messages as codecs\<close>

text \<open>The readers start from a cleared structure and report a message when the parser's result is not 0.\<close>

definition client_hello_zero :: pw_client_hello where
  "client_hello_zero =
     \<lparr>ch_magic = (0, 0), ch_version = 0, ch_capabilities = 0, ch_client_nonce = replicate 16 0,
      ch_has_resume_token = False, ch_resume_session_id = replicate 16 0\<rparr>"

definition server_hello_zero :: pw_server_hello where
  "server_hello_zero =
     \<lparr>sh_magic = (0, 0), sh_version = 0, sh_capabilities = 0, sh_server_nonce = replicate 16 0,
      sh_session_id = replicate 16 0, sh_status = 0, sh_resume_accepted = False\<rparr>"

definition client_hello_read :: "byte list \<Rightarrow> (pw_client_hello \<times> nat) option" where
  "client_hello_read bs =
     (case pw_handshake_parse_client_hello bs 0 (length bs) client_hello_zero of
        None \<Rightarrow> None
      | Some (n, h) \<Rightarrow> if n = 0 then None else Some (h, n))"

definition server_hello_read :: "byte list \<Rightarrow> (pw_server_hello \<times> nat) option" where
  "server_hello_read bs =
     (case pw_handshake_parse_server_hello bs 0 (length bs) server_hello_zero of
        None \<Rightarrow> None
      | Some (n, h) \<Rightarrow> if n = 0 then None else Some (h, n))"

definition client_hello_ok :: "pw_client_hello \<Rightarrow> bool" where
  "client_hello_ok h \<longleftrightarrow>
     client_hello_wf h \<and> ch_capabilities h = client_hello_caps h \<and>
     (ch_has_resume_token h \<or> ch_resume_session_id h = replicate 16 0)"

lemma hello_zero_wf [simp]: "client_hello_wf client_hello_zero" "server_hello_wf server_hello_zero"
  by (simp_all add: client_hello_wf_def client_hello_zero_def server_hello_wf_def server_hello_zero_def)

lemma client_hello_read_dec:
  "client_hello_read bs =
     (case client_hello_dec bs client_hello_zero of (n, h) \<Rightarrow> if n = 0 then None else Some (h, n))"
  by (simp add: client_hello_read_def parse_client_hello_dec)

lemma server_hello_read_dec:
  "server_hello_read bs =
     (case server_hello_dec bs server_hello_zero of (n, h) \<Rightarrow> if n = 0 then None else Some (h, n))"
  by (simp add: server_hello_read_def parse_server_hello_dec)

lemma client_hello_received_ok: "client_hello_ok h \<Longrightarrow> client_hello_received h client_hello_zero = h"
  by (cases "ch_has_resume_token h")
    (simp_all add: client_hello_ok_def client_hello_received_def client_hello_zero_def)

interpretation ch: codec client_hello_bytes client_hello_read client_hello_ok
proof unfold_locales
  fix h and rest :: "byte list"
  assume "client_hello_ok h"
  moreover from this have "client_hello_wf h" by (simp add: client_hello_ok_def)
  ultimately show "client_hello_read (client_hello_bytes h @ rest) = Some (h, length (client_hello_bytes h))"
    using length_client_hello_bytes [of h]
    by (simp add: client_hello_read_dec client_hello_dec_bytes client_hello_received_ok split: if_splits)
next
  fix h n
  assume "client_hello_ok h" and "n < length (client_hello_bytes h)"
  then show "client_hello_read (take n (client_hello_bytes h)) = None"
    using client_hello_dec_truncated [of h n client_hello_zero]
    by (auto simp: client_hello_ok_def client_hello_read_dec split: prod.splits)
next
  fix bs h n
  assume "client_hello_read bs = Some (h, n)"
  then show "0 < n \<and> n \<le> length bs"
    by (auto simp: client_hello_read_dec split: prod.splits if_splits dest: client_hello_dec_consumed)
qed

interpretation sh: codec server_hello_bytes server_hello_read server_hello_wf
proof unfold_locales
  fix h and rest :: "byte list"
  assume "server_hello_wf h"
  then show "server_hello_read (server_hello_bytes h @ rest) = Some (h, length (server_hello_bytes h))"
    by (simp add: server_hello_read_dec server_hello_dec_bytes length_server_hello_bytes)
next
  fix h n
  assume "server_hello_wf h" and "n < length (server_hello_bytes h)"
  then show "server_hello_read (take n (server_hello_bytes h)) = None"
    using server_hello_dec_truncated [of n "server_hello_bytes h" server_hello_zero]
    by (auto simp: server_hello_read_dec length_server_hello_bytes split: prod.splits)
next
  fix bs h n
  assume "server_hello_read bs = Some (h, n)"
  then show "0 < n \<and> n \<le> length bs"
    by (auto simp: server_hello_read_dec server_hello_dec_def split: prod.splits if_splits)
qed

section \<open>Properties\<close>

text \<open>A client hello that the client serialises into a room that holds it is parsed by the server
  as the same hello, whatever follows it in the buffer: 24 bytes without and 40 bytes with the session
  id to resume. The resume bit of the capabilities arrives set exactly when the resume flag is set,
  whatever the sender's bit was; without the flag the receiver's session id is left alone.\<close>

lemma client_hello_roundtrip:
  assumes "p + buffer_len \<le> length buf" and "client_hello_wf h" and "client_hello_wf out"
    and "pw_handshake_serialize_client_hello h buf p buffer_len = Some (n, buf')" and "n \<noteq> 0"
    and "n \<le> m" and "p + m \<le> length buf"
  shows "pw_handshake_parse_client_hello buf' p m out = Some (n,
      h\<lparr>ch_capabilities := (if ch_has_resume_token h then ch_capabilities h OR PW_CAP_RESUME
                           else ch_capabilities h AND NOT PW_CAP_RESUME),
        ch_resume_session_id := (if ch_has_resume_token h then ch_resume_session_id h
                                 else ch_resume_session_id out)\<rparr>) \<and>
    n = (if ch_has_resume_token h then 40 else 24)"
proof -
  let ?h = "client_hello_bytes h"
  from assms have n: "n = length ?h" and b: "n \<le> buffer_len" and buf': "buf' = put_bytes buf p ?h"
    by (auto simp: serialize_client_hello_bytes split: if_splits)
  have len: "length buf' = length buf" using assms(1) n b buf' by (simp add: length_put_bytes)
  have "bytes_at buf' p m = bytes_at buf' p n @ bytes_at buf' (p + n) (m - n)"
    using assms(6) by (simp add: bytes_at_append)
  also have "bytes_at buf' p n = ?h"
    using assms(1) n b buf' by (simp add: bytes_at_put_bytes_same)
  finally show ?thesis
    using assms(2,3,7) len n
    by (simp add: parse_client_hello_dec client_hello_dec_bytes client_hello_received_def
        client_hello_caps_def length_client_hello_bytes)
qed

text \<open>A server hello is parsed by the client exactly as the server serialised it, every field
  included, from the 42 bytes that the serialiser writes, whatever follows them in the buffer.\<close>

lemma server_hello_roundtrip:
  assumes "p + buffer_len \<le> length buf" and "server_hello_wf h" and "server_hello_wf out"
    and "pw_handshake_serialize_server_hello h buf p buffer_len = Some (n, buf')" and "n \<noteq> 0"
    and "n \<le> m" and "p + m \<le> length buf"
  shows "pw_handshake_parse_server_hello buf' p m out = Some (42, h) \<and> n = 42"
proof -
  let ?h = "server_hello_bytes h"
  have l: "length ?h = 42" using assms(2) by (rule length_server_hello_bytes)
  from assms have n: "n = 42" and b: "n \<le> buffer_len" and buf': "buf' = put_bytes buf p ?h"
    by (auto simp: serialize_server_hello_bytes split: if_splits)
  have len: "length buf' = length buf" using assms(1) n b buf' l by (simp add: length_put_bytes)
  have "bytes_at buf' p m = bytes_at buf' p n @ bytes_at buf' (p + n) (m - n)"
    using assms(6) by (simp add: bytes_at_append)
  also have "bytes_at buf' p n = ?h"
    using assms(1) n b buf' l bytes_at_put_bytes_same [of p ?h buf] by simp
  finally show ?thesis
    using assms(2,3,7) len n by (simp add: parse_server_hello_dec server_hello_dec_bytes)
qed

text \<open>The hello parsers read only bytes they were told are there and always return: the client
  hello takes 0, 24 or 40 bytes, the server hello 0 or 42, never more than the room given, and a hello
  of which only a part has arrived is answered with 0.\<close>

lemma hello_parsers_safe:
  assumes "p + m \<le> length buf" and "client_hello_wf c" and "server_hello_wf s"
  shows "\<exists>n c' k s'. pw_handshake_parse_client_hello buf p m c = Some (n, c') \<and>
     pw_handshake_parse_server_hello buf p m s = Some (k, s') \<and>
     n \<in> {0, 24, 40} \<and> n \<le> m \<and> k = (if m < 42 then 0 else 42) \<and>
     (bytes_at buf p m = take m (client_hello_bytes h) \<and> m < length (client_hello_bytes h) \<and>
        client_hello_wf h \<longrightarrow> n = 0)"
proof -
  let ?bs = "bytes_at buf p m"
  obtain n c' where n: "client_hello_dec ?bs c = (n, c')" by (cases "client_hello_dec ?bs c")
  obtain k s' where k: "server_hello_dec ?bs s = (k, s')" by (cases "server_hello_dec ?bs s")
  have "length ?bs = m" using assms(1) by (rule length_bytes_at)
  with client_hello_dec_consumed [OF n] k have "n \<le> m" "n \<in> {0, 24, 40}" "k = (if m < 42 then 0 else 42)"
    by (auto simp: server_hello_dec_def split: if_splits)
  moreover have "n = 0" if "?bs = take m (client_hello_bytes h)" "m < length (client_hello_bytes h)"
    "client_hello_wf h"
    using client_hello_dec_truncated [OF that(3,2), of c] n that(1) by simp
  ultimately show ?thesis
    using n k by (simp add: parse_client_hello_dec [OF assms(1,2)] parse_server_hello_dec [OF assms(1,3)])
qed

end
