(* ===== verification/PW_Auth.thy ===== *)
theory PW_Auth
  imports PW_Handshake
begin

text \<open>
  The bearer authentication of \<open>native/src/pw_auth.c\<close>: the request in the payload of an AUTH frame
  and its validation. The token is a pointer, into the caller's string on the sending side and into
  the payload on the receiving side. The size check of the serialiser is 32-bit arithmetic:
  \<open>1 + 4 + token_len\<close> has the type of \<open>token_len\<close>.
\<close>

section \<open>The code\<close>

definition PW_AUTH_METHOD_BEARER :: byte where
  [simp, pw_consts]: "PW_AUTH_METHOD_BEARER = 1"

record pw_auth_request =
  ar_method :: byte
  ar_token_len :: u32
  ar_token :: ptr

text \<open>The response is declared in the header and used nowhere.\<close>

record pw_auth_response =
  as_status :: byte

text \<open>The file has its own copies of the big-endian helpers.\<close>

definition auth_write_u32_be :: "byte list \<Rightarrow> nat \<Rightarrow> u32 \<Rightarrow> byte list option" where
  "auth_write_u32_be buf p val = do {
     buf \<leftarrow> wr buf p (ucast (drop_bit 24 val AND 0xFF));
     buf \<leftarrow> wr buf (p + 1) (ucast (drop_bit 16 val AND 0xFF));
     buf \<leftarrow> wr buf (p + 2) (ucast (drop_bit 8 val AND 0xFF));
     wr buf (p + 3) (ucast (val AND 0xFF))
   }"

definition auth_read_u32_be :: "byte list \<Rightarrow> nat \<Rightarrow> u32 option" where
  "auth_read_u32_be buf p = do {
     b0 \<leftarrow> rd buf p;
     b1 \<leftarrow> rd buf (p + 1);
     b2 \<leftarrow> rd buf (p + 2);
     b3 \<leftarrow> rd buf (p + 3);
     Some (push_bit 24 (ucast b0) OR push_bit 16 (ucast b1) OR push_bit 8 (ucast b2) OR ucast b3)
   }"

definition pw_auth_serialize_request ::
  "pw_auth_request \<Rightarrow> byte list \<Rightarrow> nat \<Rightarrow> nat \<Rightarrow> (nat \<times> byte list) option" where
  "pw_auth_serialize_request req buffer p buffer_len =
     (let required = unat (1 + 4 + ar_token_len req)
      in if buffer_len < required then Some (0, buffer)
      else do {
        buffer \<leftarrow> wr buffer p (ar_method req);
        buffer \<leftarrow> auth_write_u32_be buffer (p + 1) (ar_token_len req);
        (case ar_token req of
           Some (src, s) \<Rightarrow>
             if 0 < ar_token_len req
             then do {
               buffer \<leftarrow> memcpy buffer (p + 5) src s (unat (ar_token_len req));
               Some (5 + unat (ar_token_len req), buffer)
             }
             else Some (5, buffer)
         | None \<Rightarrow> Some (5, buffer))
      })"

definition pw_auth_parse_request ::
  "byte list \<Rightarrow> nat \<Rightarrow> nat \<Rightarrow> pw_auth_request \<Rightarrow> (nat \<times> pw_auth_request) option" where
  "pw_auth_parse_request payload p payload_len out_req =
     (if payload_len < 5 then Some (0, out_req)
      else do {
        m \<leftarrow> rd payload p;
        tlen \<leftarrow> auth_read_u32_be payload (p + 1);
        let out_req = out_req\<lparr>ar_method := m, ar_token_len := tlen\<rparr>;
        if payload_len - 5 < unat tlen then Some (0, out_req)
        else Some (5 + unat tlen, out_req\<lparr>ar_token := Some (payload, p + 5)\<rparr>)
      })"

text \<open>Both arguments may be \<open>NULL\<close>; the expected token is an array that holds a C string.\<close>

definition pw_auth_validate_bearer :: "pw_auth_request option \<Rightarrow> byte list option \<Rightarrow> bool option" where
  "pw_auth_validate_bearer req expected_token =
     (case (req, expected_token) of
        (Some r, Some e) \<Rightarrow>
          if ar_method r \<noteq> PW_AUTH_METHOD_BEARER then Some False
          else do {
            expected_len \<leftarrow> c_strlen e;
            if unat (ar_token_len r) \<noteq> expected_len then Some False
            else do {
              (src, s) \<leftarrow> ar_token r;
              memcmp_eq src s e 0 expected_len
            }
          }
      | _ \<Rightarrow> Some False)"

section \<open>The reference\<close>

text \<open>A request on the wire is the method, the length of the token and the token.\<close>

definition auth_bytes :: "byte \<times> byte list \<Rightarrow> byte list" where
  "auth_bytes a = fst a # u32_be (of_nat (length (snd a))) @ snd a"

definition auth_ok :: "byte \<times> byte list \<Rightarrow> bool" where
  "auth_ok a \<longleftrightarrow> length (snd a) < 2 ^ 32"

definition auth_dec :: "byte list \<Rightarrow> ((byte \<times> byte list) \<times> nat) option" where
  "auth_dec bs =
     (if length bs < 5 then None
      else let n = unat (u32_of_be (bytes_at bs 1 4))
           in if length bs - 5 < n then None else Some ((bs ! 0, bytes_at bs 5 n), 5 + n))"

lemma auth_write_u32_be_eq: "auth_write_u32_be = write_u32_be"
  by (intro ext) (simp add: auth_write_u32_be_def write_u32_be_def)

lemma auth_read_u32_be_eq: "auth_read_u32_be = read_u32_be"
  by (intro ext) (simp add: auth_read_u32_be_def read_u32_be_def)

lemma unat_of_nat_u32: "n < 2 ^ 32 \<Longrightarrow> unat (of_nat n :: u32) = n"
  by (simp add: unat_of_nat take_bit_nat_eq_self)

lemma length_auth_bytes: "length (auth_bytes a) = 5 + length (snd a)"
  by (simp add: auth_bytes_def)

lemma required_size:
  "unat (ar_token_len r) + 5 < 2 ^ 32 \<Longrightarrow> unat (1 + 4 + ar_token_len r) = 5 + unat (ar_token_len r)"
proof -
  assume "unat (ar_token_len r) + 5 < 2 ^ 32"
  then have "unat ((5 :: u32)) + unat (ar_token_len r) < 2 ^ LENGTH(32)" by simp
  then have "unat ((5 :: u32) + ar_token_len r) = unat (5 :: u32) + unat (ar_token_len r)"
    by (rule unat_add_lem [THEN iffD1])
  then show ?thesis by simp
qed

section \<open>The code refines the reference\<close>

lemma serialize_request_bytes:
  assumes "p + buffer_len \<le> length buf" and "unat (ar_token_len r) + 5 < 2 ^ 32"
    and "ar_token r = Some (src, s)" and "s + unat (ar_token_len r) \<le> length src"
  shows "pw_auth_serialize_request r buf p buffer_len =
    Some (let bs = auth_bytes (ar_method r, bytes_at src s (unat (ar_token_len r)))
          in if buffer_len < length bs then (0, buf) else (length bs, put_bytes buf p bs))"
proof -
  have t: "length (bytes_at src s (unat (ar_token_len r))) = unat (ar_token_len r)"
    using assms(4) by (rule length_bytes_at)
  then have of_nat: "(of_nat (length (bytes_at src s (unat (ar_token_len r)))) :: u32) = ar_token_len r"
    by simp
  show ?thesis
  proof (cases "buffer_len < 5 + unat (ar_token_len r)")
    case True
    with t show ?thesis
      unfolding pw_auth_serialize_request_def required_size [OF assms(2)]
      by (simp add: length_auth_bytes Let_def)
  next
    case False
    then have "p + 5 + unat (ar_token_len r) \<le> length buf" using assms(1) by linarith
    moreover have "0 < ar_token_len r \<or> ar_token_len r = 0" by (auto simp: word_gt_0)
    ultimately show ?thesis
      using assms False t of_nat
      unfolding pw_auth_serialize_request_def required_size [OF assms(2)]
      by (auto simp: auth_write_u32_be_eq length_auth_bytes auth_bytes_def mem_simps Let_def)
  qed
qed

lemma parse_request_dec:
  assumes "p + m \<le> length buf"
  shows "pw_auth_parse_request buf p m out = Some (
     let bs = bytes_at buf p m; n = u32_of_be (bytes_at bs 1 4) in
     if m < 5 then (0, out)
     else if m - 5 < unat n then (0, out\<lparr>ar_method := bs ! 0, ar_token_len := n\<rparr>)
     else (5 + unat n, out\<lparr>ar_method := bs ! 0, ar_token_len := n, ar_token := Some (buf, p + 5)\<rparr>))"
  using assms
  by (auto simp: pw_auth_parse_request_def auth_read_u32_be_eq mem_simps bytes_at_bytes_at nth_bytes_at Let_def)

lemma auth_dec_bytes: "auth_ok a \<Longrightarrow> auth_dec (auth_bytes a @ rest) = Some (a, length (auth_bytes a))"
proof -
  assume "auth_ok a"
  then have n: "unat (of_nat (length (snd a)) :: u32) = length (snd a)"
    by (simp add: auth_ok_def unat_of_nat_u32)
  have "bytes_at (auth_bytes a @ rest) 1 4 = u32_be (of_nat (length (snd a)))"
    "bytes_at (auth_bytes a @ rest) 5 (length (snd a)) = snd a"
    by (simp_all add: auth_bytes_def bytes_at_def)
  moreover from this have "u32_of_be (bytes_at (auth_bytes a @ rest) 1 4) = of_nat (length (snd a))"
    using u32_of_be_be [of "of_nat (length (snd a))" "[]"] by simp
  ultimately show ?thesis
    using n by (simp add: auth_dec_def length_auth_bytes Let_def) (simp add: auth_bytes_def)
qed

lemma auth_dec_truncated:
  assumes "auth_ok a" and "n < length (auth_bytes a)"
  shows "auth_dec (take n (auth_bytes a)) = None"
proof (cases "n < 5")
  case True
  then have "length (take n (auth_bytes a)) < 5" by simp
  then show ?thesis by (simp only: auth_dec_def if_True)
next
  case False
  then have "bytes_at (take n (auth_bytes a)) 1 4 = u32_be (of_nat (length (snd a)))"
    by (simp add: auth_bytes_def bytes_at_def drop_take take_Cons')
  then have "u32_of_be (bytes_at (take n (auth_bytes a)) 1 4) = of_nat (length (snd a))"
    using u32_of_be_be [of "of_nat (length (snd a))" "[]"] by simp
  moreover have "unat (of_nat (length (snd a)) :: u32) = length (snd a)"
    using assms(1) by (simp add: auth_ok_def unat_of_nat_u32)
  moreover have "length (take n (auth_bytes a)) = n" using assms(2) by simp
  ultimately show ?thesis
    using assms(2) False by (simp add: auth_dec_def length_auth_bytes Let_def del: length_take)
qed

interpretation au: codec auth_bytes auth_dec auth_ok
proof unfold_locales
  show "0 < n \<and> n \<le> length bs" if "auth_dec bs = Some (a, n)" for bs a n
    using that by (auto simp: auth_dec_def Let_def split: if_splits)
qed (rule auth_dec_bytes auth_dec_truncated; assumption)+

section \<open>Properties\<close>

definition auth_request_zero :: pw_auth_request where
  "auth_request_zero = \<lparr>ar_method = 0, ar_token_len = 0, ar_token = None\<rparr>"

text \<open>The expected token as a C string: the bytes, a terminator, and whatever follows.\<close>

lemma validate_bearer_exact:
  assumes "0 \<notin> set tok" and "s + unat (ar_token_len r) \<le> length src" and "ar_token r = Some (src, s)"
  shows "pw_auth_validate_bearer (Some r) (Some (tok @ 0 # rest)) =
    Some (ar_method r = 1 \<and> bytes_at src s (unat (ar_token_len r)) = tok)"
proof (cases "ar_method r = 1 \<and> unat (ar_token_len r) = length tok")
  case True
  then show ?thesis
    using assms by (simp add: pw_auth_validate_bearer_def c_strlen_terminated memcmp_eq_def bytes_at_def)
next
  case False
  then show ?thesis
    using assms length_bytes_at [OF assms(2)]
    by (auto simp: pw_auth_validate_bearer_def c_strlen_terminated)
qed

lemma validate_parsed:
  assumes "p + m \<le> length buf" and "0 \<notin> set tok" and "length tok < 2 ^ 32"
    and "pw_auth_parse_request buf p m out = Some (n, r)" and "n \<noteq> 0"
  shows "pw_auth_validate_bearer (Some r) (Some (tok @ 0 # rest)) =
    Some (bytes_at buf p n = PW_AUTH_METHOD_BEARER # u32_be (of_nat (length tok)) @ tok)"
proof -
  let ?bs = "bytes_at buf p m"
  from assms(4,5) parse_request_dec [OF assms(1), of out]
  have n: "n = 5 + unat (ar_token_len r)" and nm: "n \<le> m"
    and meth: "ar_method r = ?bs ! 0" and l: "ar_token_len r = u32_of_be (bytes_at ?bs 1 4)"
    and tk: "ar_token r = Some (buf, p + 5)"
    by (auto simp: Let_def split: if_splits)
  have V: "pw_auth_validate_bearer (Some r) (Some (tok @ 0 # rest)) =
      Some (ar_method r = 1 \<and> bytes_at buf (p + 5) (unat (ar_token_len r)) = tok)"
    using assms(1,2) n nm tk by (intro validate_bearer_exact) simp_all
  have "bytes_at buf p n = bytes_at buf p 1 @ bytes_at buf (p + 1) 4 @ bytes_at buf (p + 5) (n - 5)"
    using n bytes_at_append [of buf p 1 4] bytes_at_append [of buf p 5 "n - 5"]
    by (simp flip: append_assoc)
  moreover have "bytes_at buf p 1 = [ar_method r]"
    using meth assms(1) n nm bytes_at_Suc [of p buf 0] nth_bytes_at [of p m buf 0] by simp
  moreover have d: "bytes_at buf (p + 1) 4 = bytes_at ?bs 1 4"
    using n nm by (simp add: bytes_at_bytes_at)
  ultimately have bs: "bytes_at buf p n =
      ar_method r # bytes_at ?bs 1 4 @ bytes_at buf (p + 5) (unat (ar_token_len r))"
    using n by simp
  have len4: "length (bytes_at ?bs 1 4) = 4"
    using assms(1) n nm by (simp add: length_bytes_at)
  have "bytes_at ?bs 1 4 = u32_be (of_nat (length tok))"
    if "bytes_at buf (p + 5) (unat (ar_token_len r)) = tok"
  proof -
    have "length tok = unat (ar_token_len r)"
      using that assms(1) n nm length_bytes_at [of "p + 5" "unat (ar_token_len r)" buf] by simp
    then have "of_nat (length tok) = u32_of_be (bytes_at ?bs 1 4)" by (simp add: l)
    moreover have "u32_be (u32_of_be (bytes_at ?bs 1 4)) = bytes_at ?bs 1 4"
      using len4 by (rule u32_be_of_be)
    ultimately show ?thesis by simp
  qed
  with V bs len4 show ?thesis by auto
qed

text \<open>The decision on a payload: it grants access exactly when it begins with the request for the token.\<close>

definition grants :: "byte list \<Rightarrow> byte list \<Rightarrow> bool" where
  "grants tok pl \<longleftrightarrow> take (5 + length tok) pl = auth_bytes (PW_AUTH_METHOD_BEARER, tok)"

lemma parse_then_validate:
  assumes "p + m \<le> length buf" and "0 \<notin> set tok" and "length tok < 2 ^ 32"
  shows "\<exists>k r. pw_auth_parse_request buf p m out = Some (k, r) \<and>
    (k = 0 \<longrightarrow> \<not> grants tok (bytes_at buf p m)) \<and>
    (k \<noteq> 0 \<longrightarrow> pw_auth_validate_bearer (Some r) (Some (tok @ 0 # rest)) =
       Some (grants tok (bytes_at buf p m)))"
proof -
  let ?bs = "bytes_at buf p m" and ?a = "auth_bytes (PW_AUTH_METHOD_BEARER, tok)"
  have len: "length ?bs = m" using assms(1) by (rule length_bytes_at)
  have la: "length ?a = 5 + length tok" by (simp add: length_auth_bytes)
  have size: "unat (u32_of_be (bytes_at ?bs 1 4)) = length tok \<and> 5 + length tok \<le> m" if "grants tok ?bs"
  proof -
    from that la have "5 + length tok \<le> m"
      using len arg_cong [OF that [unfolded grants_def], of length] by simp
    moreover have t5: "bytes_at xs 1 4 = drop 1 (take 5 xs)" for xs :: "byte list"
      by (simp add: bytes_at_def drop_take)
    have "take 5 ?bs = take 5 ?a"
      using arg_cong [OF that [unfolded grants_def], of "take 5"] la by simp
    then have "bytes_at ?bs 1 4 = bytes_at ?a 1 4" unfolding t5 by simp
    then have "u32_of_be (bytes_at ?bs 1 4) = of_nat (length tok)"
      using u32_of_be_be [of "of_nat (length tok)" "[]"] by (simp add: auth_bytes_def bytes_at_def)
    ultimately show ?thesis using assms(3) by (simp add: unat_of_nat_u32)
  qed
  obtain k r where pr: "pw_auth_parse_request buf p m out = Some (k, r)"
    using parse_request_dec [OF assms(1), of out] by (metis surj_pair)
  have k: "k = (if m < 5 \<or> m - 5 < unat (u32_of_be (bytes_at ?bs 1 4)) then 0
      else 5 + unat (u32_of_be (bytes_at ?bs 1 4)))"
    using pr parse_request_dec [OF assms(1), of out] by (auto simp: Let_def split: if_splits)
  have kg: "k = 5 + length tok \<and> k \<le> m" if "grants tok ?bs"
    using size [OF that] unfolding k by (auto simp del: One_nat_def)
  then have "\<not> grants tok ?bs" if "k = 0" using that by auto
  moreover have "pw_auth_validate_bearer (Some r) (Some (tok @ 0 # rest)) = Some (grants tok ?bs)" if "k \<noteq> 0"
  proof -
    have "bytes_at buf p k = ?a \<longleftrightarrow> grants tok ?bs"
    proof
      assume b: "bytes_at buf p k = ?a"
      have "k \<le> m" using that k by (auto split: if_splits)
      with b assms(1) la have "k = 5 + length tok" using length_bytes_at [of p k buf] by simp
      with b \<open>k \<le> m\<close> show "grants tok ?bs" by (simp add: grants_def take_bytes_at)
    next
      assume g: "grants tok ?bs"
      with kg have "k = 5 + length tok" "k \<le> m" by auto
      with g show "bytes_at buf p k = ?a" by (simp add: grants_def take_bytes_at)
    qed
    with validate_parsed [OF assms pr that, of rest] show ?thesis by (simp add: auth_bytes_def)
  qed
  ultimately show ?thesis using pr by blast
qed

text \<open>An authentication request is parsed as it was serialised, whatever follows it in the payload:
  the method, the length and the token come back, and the token the receiver points to is the copy of
  the sender's bytes. The 32-bit size must not wrap, and the token must be there.\<close>

lemma auth_request_roundtrip:
  assumes "p + buffer_len \<le> length buf" and "unat (ar_token_len r) + 5 < 2 ^ 32"
    and "ar_token r = Some (src, s)" and "s + unat (ar_token_len r) \<le> length src"
    and "pw_auth_serialize_request r buf p buffer_len = Some (n, buf')" and "n \<noteq> 0"
    and "n \<le> m" and "p + m \<le> length buf"
  shows "pw_auth_parse_request buf' p m out = Some (n,
      \<lparr>ar_method = ar_method r, ar_token_len = ar_token_len r, ar_token = Some (buf', p + 5)\<rparr>) \<and>
    n = 5 + unat (ar_token_len r) \<and>
    bytes_at buf' (p + 5) (unat (ar_token_len r)) = bytes_at src s (unat (ar_token_len r))"
proof -
  let ?t = "bytes_at src s (unat (ar_token_len r))"
  let ?b = "auth_bytes (ar_method r, ?t)"
  have t: "length ?t = unat (ar_token_len r)" using assms(4) by (rule length_bytes_at)
  from assms serialize_request_bytes [OF assms(1-4)]
  have n: "n = length ?b" and b: "n \<le> buffer_len" and buf': "buf' = put_bytes buf p ?b"
    by (auto simp: Let_def split: if_splits)
  have len: "length buf' = length buf" using assms(1) n b buf' by (simp add: length_put_bytes)
  have same: "bytes_at buf' p n = ?b"
    using assms(1) n b buf' by (simp add: bytes_at_put_bytes_same)
  have whole: "bytes_at buf' p m = ?b @ bytes_at buf' (p + n) (m - n)"
    using assms(7) same bytes_at_append [of buf' p n "m - n"] by simp
  have "bytes_at (bytes_at buf' p m) 1 4 = u32_be (ar_token_len r)"
    unfolding whole using t by (simp add: auth_bytes_def bytes_at_def)
  then have l: "u32_of_be (bytes_at (bytes_at buf' p m) 1 4) = ar_token_len r"
    using u32_of_be_be [of "ar_token_len r" "[]"] by simp
  have h: "bytes_at buf' p m ! 0 = ar_method r" unfolding whole by (simp add: auth_bytes_def)
  have n5: "n = 5 + unat (ar_token_len r)" using n t by (simp add: length_auth_bytes)
  have "bytes_at buf' (p + 5) (unat (ar_token_len r)) = drop 5 (bytes_at buf' p n)"
    using n5 by (simp add: drop_bytes_at)
  also have "\<dots> = ?t" unfolding same by (simp add: auth_bytes_def)
  finally show ?thesis
    using assms(7,8) len n5 h l parse_request_dec [of p m buf' out]
    by (simp add: Let_def)
qed

text \<open>The request parser is safe on every payload: it reads only bytes of the payload, and when it
  accepts, it consumes at least five of them and leaves a token pointer whose whole length lies in
  the payload, so that validation and any other use of the token stay in bounds.\<close>

lemma auth_parse_safe:
  assumes "p + m \<le> length buf"
  shows "\<exists>n r. pw_auth_parse_request buf p m out = Some (n, r) \<and>
     (n = 0 \<or> 5 \<le> n \<and> n \<le> m \<and> n = 5 + unat (ar_token_len r) \<and>
        ar_method r = buf ! p \<and> ar_token r = Some (buf, p + 5) \<and>
        p + 5 + unat (ar_token_len r) \<le> length buf)"
  using assms by (auto simp: parse_request_dec Let_def nth_bytes_at)

text \<open>A request that was parsed from a payload is validated against the expected token exactly:
  the answer is yes if and only if the bytes that were consumed are the wire form of a bearer request
  with that token, no more and no less. The decision reads nothing outside the payload.\<close>

lemma auth_validate_exact:
  assumes "p + m \<le> length buf" and "0 \<notin> set tok" and "length tok < 2 ^ 32"
    and "pw_auth_parse_request buf p m out = Some (n, r)" and "n \<noteq> 0"
  shows "pw_auth_validate_bearer (Some r) (Some (tok @ 0 # rest)) =
    Some (bytes_at buf p n = PW_AUTH_METHOD_BEARER # u32_be (of_nat (length tok)) @ tok)"
  by (rule validate_parsed [OF assms])

text \<open>C40: The size check of the serialiser does not protect it from huge tokens: its sum is taken in 32
  bits, so a request with a token of \<open>2 ^ 32 - 5\<close> bytes or more is taken for one of at most four
  bytes, and the serialiser then writes outside every buffer of fewer than \<open>2 ^ 32\<close> bytes.\<close>

theorem auth_serialize_size_wraps:
  assumes "2 ^ 32 - 5 \<le> unat (ar_token_len r)" and "4 \<le> buffer_len" and "ar_token r = Some (src, s)"
    and "length buf < 2 ^ 32"
  shows "pw_auth_serialize_request r buf p buffer_len = None"
proof -
  have five: "unat (5 :: u32) = 5" by simp
  have "unat (5 + ar_token_len r) = (unat (5 :: u32) + unat (ar_token_len r)) mod 2 ^ 32"
    by (simp only: unat_word_ariths) simp
  also have "\<dots> = unat (ar_token_len r) - (2 ^ 32 - 5)"
    using assms(1) unat_u32_bound [of "ar_token_len r"] by (simp add: mod_if)
  finally have "unat (1 + 4 + ar_token_len r) \<le> buffer_len"
    using unat_u32_bound [of "ar_token_len r"] assms(2) by simp
  moreover have "0 < ar_token_len r"
    using assms(1) by (auto simp: word_gt_0)
  moreover have "length buf < p + 5 + unat (ar_token_len r)"
    using assms(1,4) by simp
  ultimately show ?thesis
    using assms(3) unfolding pw_auth_serialize_request_def
    by (simp add: wr_def auth_write_u32_be_def memcpy_overflow split: bind_split)
qed

theorem auth_serialize_size_wraps_witness:
  "pw_auth_serialize_request
     \<lparr>ar_method = 1, ar_token_len = 0xFFFFFFFB, ar_token = Some ([0x68], 0)\<rparr> (replicate 128 0) 0 128 = None"
  by (rule auth_serialize_size_wraps) simp_all

end
