(* ===== verification/PW_Connection.thy ===== *)
theory PW_Connection
  imports PW_Protocol
begin

text \<open>
  The connection state machine of \<open>native/src/pw_connection.c\<close>. The code is a switch that accepts
  or refuses a requested transition; the specification is the step relation \<open>lifecycle\<close>. What the
  session loops and the extension rely on is the locale \<open>lifecycle_machine\<close>: a request that is
  accepted is a step, a refused one changes nothing. Its consequences are proved there, by rule
  induction over runs, and the interpretation discharges the laws for the code.
\<close>

section \<open>The code\<close>

record pw_connection =
  conn_state :: pw_connection_state

definition pw_connection_init :: "pw_connection option \<Rightarrow> pw_connection option" where
  "pw_connection_init conn =
     (case conn of None \<Rightarrow> None | Some c \<Rightarrow> Some (c\<lparr>conn_state := PW_STATE_DISCONNECTED\<rparr>))"

text \<open>The switch over the current state; the default branch has no constructor left.\<close>

definition transition_valid :: "pw_connection_state \<Rightarrow> pw_connection_state \<Rightarrow> bool" where
  "transition_valid current new_state =
     (case current of
        PW_STATE_DISCONNECTED \<Rightarrow> new_state = PW_STATE_CONNECTING
      | PW_STATE_CONNECTING \<Rightarrow> new_state = PW_STATE_HANDSHAKING \<or> new_state = PW_STATE_CLOSED
      | PW_STATE_HANDSHAKING \<Rightarrow> new_state = PW_STATE_AUTHENTICATING \<or> new_state = PW_STATE_CLOSED
      | PW_STATE_AUTHENTICATING \<Rightarrow> new_state = PW_STATE_READY \<or> new_state = PW_STATE_CLOSED
      | PW_STATE_READY \<Rightarrow>
          new_state = PW_STATE_DRAINING \<or> new_state = PW_STATE_CLOSING \<or> new_state = PW_STATE_CLOSED
      | PW_STATE_DRAINING \<Rightarrow> new_state = PW_STATE_CLOSING \<or> new_state = PW_STATE_CLOSED
      | PW_STATE_CLOSING \<Rightarrow> new_state = PW_STATE_CLOSED
      | PW_STATE_CLOSED \<Rightarrow> new_state = PW_STATE_DISCONNECTED)"

definition pw_connection_transition ::
  "pw_connection option \<Rightarrow> pw_connection_state \<Rightarrow> bool \<times> pw_connection option" where
  "pw_connection_transition conn new_state =
     (case conn of
        None \<Rightarrow> (False, None)
      | Some c \<Rightarrow>
          (if transition_valid (conn_state c) new_state
           then (True, Some (c\<lparr>conn_state := new_state\<rparr>))
           else (False, Some c)))"

section \<open>The specification\<close>

text \<open>A session goes through the phases in order, may be cut off from every phase but the first, and
  can be closed gracefully once it is ready. A closed one can be used again.\<close>

inductive lifecycle :: "pw_connection_state \<Rightarrow> pw_connection_state \<Rightarrow> bool" where
  dial: "lifecycle PW_STATE_DISCONNECTED PW_STATE_CONNECTING"
| connected: "lifecycle PW_STATE_CONNECTING PW_STATE_HANDSHAKING"
| hello: "lifecycle PW_STATE_HANDSHAKING PW_STATE_AUTHENTICATING"
| authenticated: "lifecycle PW_STATE_AUTHENTICATING PW_STATE_READY"
| drain: "lifecycle PW_STATE_READY PW_STATE_DRAINING"
| graceful: "s \<in> {PW_STATE_READY, PW_STATE_DRAINING} \<Longrightarrow> lifecycle s PW_STATE_CLOSING"
| cut: "s \<notin> {PW_STATE_DISCONNECTED, PW_STATE_CLOSED} \<Longrightarrow> lifecycle s PW_STATE_CLOSED"
| reuse: "lifecycle PW_STATE_CLOSED PW_STATE_DISCONNECTED"

code_pred lifecycle .

inductive_cases to_ready: "lifecycle s PW_STATE_READY"
inductive_cases to_authenticating: "lifecycle s PW_STATE_AUTHENTICATING"
inductive_cases to_handshaking: "lifecycle s PW_STATE_HANDSHAKING"
inductive_cases to_connecting: "lifecycle s PW_STATE_CONNECTING"
inductive_simps to_closing: "lifecycle s PW_STATE_CLOSING"
inductive_simps to_closed: "lifecycle s PW_STATE_CLOSED"
inductive_simps to_disconnected: "lifecycle s PW_STATE_DISCONNECTED"
inductive_simps from_disconnected: "lifecycle PW_STATE_DISCONNECTED s"
inductive_simps from_connecting: "lifecycle PW_STATE_CONNECTING s"
inductive_simps from_closed: "lifecycle PW_STATE_CLOSED s"

text \<open>Every step but the reuse goes forward in the order of the enum.\<close>

lemma lifecycle_forward: "lifecycle a b \<Longrightarrow> a < b \<or> a = PW_STATE_CLOSED \<and> b = PW_STATE_DISCONNECTED"
proof (induction rule: lifecycle.induct)
  case (cut s)
  then show ?case by (cases s) (simp_all add: less_pw_connection_state_def)
qed (auto simp: less_pw_connection_state_def)

text \<open>The states in which a run is after each accepted request.\<close>

fun visited :: "('c \<Rightarrow> pw_connection_state \<Rightarrow> bool \<times> 'c) \<Rightarrow> 'c \<Rightarrow> pw_connection_state list \<Rightarrow> pw_connection_state list" where
  "visited req c [] = []"
| "visited req c (s # ss) = (case req c s of (True, c') \<Rightarrow> s # visited req c' ss | (False, c') \<Rightarrow> visited req c' ss)"

fun lifecycle_path :: "pw_connection_state \<Rightarrow> pw_connection_state list \<Rightarrow> bool" where
  "lifecycle_path a [] \<longleftrightarrow> True"
| "lifecycle_path a (b # bs) \<longleftrightarrow> lifecycle a b \<and> lifecycle_path b bs"

lemma lifecycle_path_append:
  "lifecycle_path a (xs @ ys) \<longleftrightarrow> lifecycle_path a xs \<and> lifecycle_path (last (a # xs)) ys"
  by (induction xs arbitrary: a) auto

lemma path_last_step:
  assumes "lifecycle_path a (xs @ s # ys)"
  shows "lifecycle (last (a # xs)) s \<and> lifecycle_path a xs"
  using assms by (simp add: lifecycle_path_append)

lemma path_to_ready:
  assumes "lifecycle_path PW_STATE_DISCONNECTED (xs @ PW_STATE_READY # ys)"
  shows "\<exists>zs. PW_STATE_DISCONNECTED # xs =
    zs @ [PW_STATE_DISCONNECTED, PW_STATE_CONNECTING, PW_STATE_HANDSHAKING, PW_STATE_AUTHENTICATING]"
proof -
  let ?d = PW_STATE_DISCONNECTED
  have before: "\<exists>ys'. xs' = ys' @ [s] \<and> lifecycle_path ?d (ys' @ [s])"
    if "lifecycle (last (?d # xs')) t" and "lifecycle_path ?d xs'"
      and "\<And>u. lifecycle u t \<Longrightarrow> u = s" and "s \<noteq> ?d" for xs' s t
    using that by (cases xs' rule: rev_cases) auto
  from path_last_step [OF assms] obtain a where a: "xs = a @ [PW_STATE_AUTHENTICATING]"
    "lifecycle_path ?d (a @ [PW_STATE_AUTHENTICATING])"
    using before [of xs PW_STATE_READY PW_STATE_AUTHENTICATING] by (auto elim: to_ready)
  from path_last_step [OF a(2)] obtain b where b: "a = b @ [PW_STATE_HANDSHAKING]"
    "lifecycle_path ?d (b @ [PW_STATE_HANDSHAKING])"
    using before [of a PW_STATE_AUTHENTICATING PW_STATE_HANDSHAKING] by (auto elim: to_authenticating)
  from path_last_step [OF b(2)] obtain c where c: "b = c @ [PW_STATE_CONNECTING]"
    "lifecycle_path ?d (c @ [PW_STATE_CONNECTING])"
    using before [of b PW_STATE_HANDSHAKING PW_STATE_CONNECTING] by (auto elim: to_handshaking)
  from path_last_step [OF c(2)] have "last (?d # c) = ?d" by (auto elim: to_connecting)
  then have "?d # c = butlast (?d # c) @ [?d]" using append_butlast_last_id [of "?d # c"] by simp
  then have "?d # xs = butlast (?d # c) @ [?d, PW_STATE_CONNECTING, PW_STATE_HANDSHAKING, PW_STATE_AUTHENTICATING]"
    by (simp add: a b c)
  then show ?thesis ..
qed

lemma path_length:
  "lifecycle_path a xs \<Longrightarrow> PW_STATE_DISCONNECTED \<notin> set xs \<Longrightarrow> length xs + state_code a \<le> 7"
proof (induction xs arbitrary: a)
  case Nil
  show ?case by (cases a) simp_all
next
  case (Cons b xs)
  then have "a < b" using lifecycle_forward [of a b] by auto
  with Cons.IH [of b] Cons.prems show ?case by (simp add: less_pw_connection_state_def)
qed

locale lifecycle_machine =
  fixes request :: "'c \<Rightarrow> pw_connection_state \<Rightarrow> bool \<times> 'c"
    and state_of :: "'c \<Rightarrow> pw_connection_state"
  assumes accept_iff: "fst (request c s) \<longleftrightarrow> lifecycle (state_of c) s"
    and accepted: "fst (request c s) \<Longrightarrow> state_of (snd (request c s)) = s"
    and refused: "\<not> fst (request c s) \<Longrightarrow> snd (request c s) = c"
begin

lemma visited_path: "lifecycle_path (state_of c) (visited request c ss)"
proof (induction ss arbitrary: c)
  case (Cons s ss)
  then show ?case
    using accept_iff [of c s] accepted [of c s] refused [of c s] Cons.IH [of "snd (request c s)"]
    by (auto split: prod.splits bool.splits)
qed simp

lemma visited_ready:
  "state_of c = PW_STATE_DISCONNECTED \<Longrightarrow> visited request c ss = xs @ PW_STATE_READY # ys \<Longrightarrow>
   \<exists>zs. PW_STATE_DISCONNECTED # xs =
    zs @ [PW_STATE_DISCONNECTED, PW_STATE_CONNECTING, PW_STATE_HANDSHAKING, PW_STATE_AUTHENTICATING]"
  using visited_path [of c ss] path_to_ready by simp

lemma visited_length:
  "PW_STATE_DISCONNECTED \<notin> set ss \<Longrightarrow> length (visited request c ss) + state_code (state_of c) \<le> 7"
proof -
  have "set (visited request c ss) \<subseteq> set ss" for c
    by (induction ss arbitrary: c) (fastforce split: prod.splits bool.splits)+
  then show "PW_STATE_DISCONNECTED \<notin> set ss \<Longrightarrow> ?thesis"
    using path_length [OF visited_path [of c ss]] by blast
qed

lemma graceful_refused: "state_of c < PW_STATE_READY \<Longrightarrow> request c PW_STATE_CLOSING = (False, c)"
  using accept_iff [of c PW_STATE_CLOSING] refused [of c PW_STATE_CLOSING]
  by (cases "state_of c"; cases "request c PW_STATE_CLOSING")
    (auto simp: to_closing less_pw_connection_state_def)

end

section \<open>The code implements the specification\<close>

lemma transition_valid_lifecycle: "transition_valid a b \<longleftrightarrow> lifecycle a b"
  by (cases a; cases b) (simp_all add: transition_valid_def lifecycle.simps)

text \<open>The code on a connection that exists: the answer, and the connection afterwards.\<close>

definition transition :: "pw_connection \<Rightarrow> pw_connection_state \<Rightarrow> bool \<times> pw_connection" where
  "transition c s = (case pw_connection_transition (Some c) s of
     (ok, Some c') \<Rightarrow> (ok, c') | (ok, None) \<Rightarrow> (ok, c))"

lemma pw_connection_transition_Some:
  "pw_connection_transition (Some c) s = (fst (transition c s), Some (snd (transition c s)))"
  by (simp add: transition_def pw_connection_transition_def)

lemma transition_eq:
  "transition c s =
     (if lifecycle (conn_state c) s then (True, c\<lparr>conn_state := s\<rparr>) else (False, c))"
  by (simp add: transition_def pw_connection_transition_def transition_valid_lifecycle)

interpretation conn: lifecycle_machine transition conn_state
  by unfold_locales (auto simp: transition_eq split: if_splits)

section \<open>Properties\<close>

text \<open>The state machine implements the lifecycle: a request on a connection is accepted exactly when
  it is a step of the specification, an accepted one sets the state, a refused one leaves the
  connection as it was, and every accepted step but the reuse of a closed connection goes forward in
  the order of the states, so that no phase is ever repeated.\<close>

lemma connection_implements_lifecycle:
  "case pw_connection_transition (Some c) s of (ok, c') \<Rightarrow>
     (ok \<longleftrightarrow> lifecycle (conn_state c) s) \<and> c' = Some (if ok then c\<lparr>conn_state := s\<rparr> else c) \<and>
     (ok \<and> s \<noteq> PW_STATE_DISCONNECTED \<longrightarrow> conn_state c < s)"
  using lifecycle_forward [of "conn_state c" s] by (auto simp: pw_connection_transition_Some transition_eq)

text \<open>C10: A session becomes ready only by way of the handshake and the authentication: in any sequence
  of requests on an initialised connection, accepted or refused, each time the state READY is
  entered, the four states before it were, without a gap, DISCONNECTED, CONNECTING, HANDSHAKING and
  AUTHENTICATING.\<close>

theorem connection_ready_only_authenticated:
  assumes "pw_connection_init (Some c0) = Some c"
    and "visited transition c ss = xs @ PW_STATE_READY # ys"
  shows "\<exists>zs. PW_STATE_DISCONNECTED # xs =
    zs @ [PW_STATE_DISCONNECTED, PW_STATE_CONNECTING, PW_STATE_HANDSHAKING, PW_STATE_AUTHENTICATING]"
  using assms by (intro conn.visited_ready [of c ss xs ys]) (auto simp: pw_connection_init_def)

theorem connection_ready_only_authenticated_witness:
  "\<exists>zs. [PW_STATE_DISCONNECTED, PW_STATE_CONNECTING, PW_STATE_HANDSHAKING, PW_STATE_AUTHENTICATING] =
    zs @ [PW_STATE_DISCONNECTED, PW_STATE_CONNECTING, PW_STATE_HANDSHAKING, PW_STATE_AUTHENTICATING]"
proof -
  have "visited transition \<lparr>conn_state = PW_STATE_DISCONNECTED\<rparr>
      [PW_STATE_READY, PW_STATE_CONNECTING, PW_STATE_READY, PW_STATE_HANDSHAKING, PW_STATE_AUTHENTICATING, PW_STATE_READY]
      = [PW_STATE_CONNECTING, PW_STATE_HANDSHAKING, PW_STATE_AUTHENTICATING] @ PW_STATE_READY # []"
    by (simp add: transition_eq lifecycle.simps)
  from connection_ready_only_authenticated [OF _ this, of "\<lparr>conn_state = PW_STATE_READY\<rparr>"]
  show ?thesis by (simp add: pw_connection_init_def)
qed

text \<open>A connection makes at most seven transitions before it has to be reused: in any sequence of
  requests that does not ask for DISCONNECTED, the accepted ones and the number of the state it
  started in add up to at most seven, so every session ends.\<close>

lemma connection_bounded:
  assumes "PW_STATE_DISCONNECTED \<notin> set ss"
  shows "length (visited transition c ss) + state_code (conn_state c) \<le> 7"
  by (rule conn.visited_length [OF assms])

end
