(* ===== verification/PW_Transport.thy ===== *)
theory PW_Transport
  imports PW_Prelude
begin

text \<open>
  The buffered transport of \<open>native/src/pw_transport.c\<close>. The calls into the system are parameters:
  \<open>fcntl\<close> acts on a state of the system, \<open>recv\<close> and \<open>send\<close> answer a call with the bytes received,
  the number of bytes sent, or a failure, each with the value of \<open>errno\<close> afterwards. What the code
  relies on is only that \<open>recv\<close> delivers no more than the room and that \<open>send\<close> takes no more than
  it is offered. A call that hands the system a range outside of the buffer is \<open>None\<close>.

  The read side is a first-in first-out queue of bytes: the locale \<open>byte_queue\<close> states this contract,
  and the interpretation proves it for the code.
\<close>

section \<open>The code\<close>

definition PW_BUFFER_SIZE :: nat where
  [simp, pw_consts]: "PW_BUFFER_SIZE = 4096"

definition EAGAIN :: int where
  [simp, pw_consts]: "EAGAIN = 11"

definition EWOULDBLOCK :: int where
  [simp, pw_consts]: "EWOULDBLOCK = 11"

definition O_NONBLOCK :: int where
  "O_NONBLOCK = 2048"

record pw_transport =
  tr_fd :: int
  tr_read_buffer :: "byte list"
  tr_read_pos :: nat
  tr_read_len :: nat
  tr_write_buffer :: "byte list"
  tr_write_pos :: nat
  tr_write_len :: nat

datatype fcntl_cmd = F_GETFL | F_SETFL int

definition pw_transport_set_nonblocking ::
  "(int \<Rightarrow> fcntl_cmd \<Rightarrow> 'w \<Rightarrow> int \<times> 'w) \<Rightarrow> int \<Rightarrow> 'w \<Rightarrow> int \<times> 'w" where
  "pw_transport_set_nonblocking fcntl fd w =
     (case fcntl fd F_GETFL w of (flags, w) \<Rightarrow>
        if flags = -1 then (-1, w) else fcntl fd (F_SETFL (flags OR O_NONBLOCK)) w)"

definition pw_transport_init ::
  "(int \<Rightarrow> fcntl_cmd \<Rightarrow> 'w \<Rightarrow> int \<times> 'w) \<Rightarrow> pw_transport option \<Rightarrow> int \<Rightarrow> 'w \<Rightarrow> pw_transport option \<times> 'w" where
  "pw_transport_init fcntl transport fd w =
     (case transport of
        None \<Rightarrow> (None, w)
      | Some tr \<Rightarrow>
          (Some (tr\<lparr>tr_fd := fd, tr_read_pos := 0, tr_read_len := 0, tr_write_pos := 0, tr_write_len := 0\<rparr>),
           if 0 \<le> fd then snd (pw_transport_set_nonblocking fcntl fd w) else w))"

datatype recv_result = Received "byte list" int | RecvFailed int

datatype send_result = Sent nat int | SendFailed int

text \<open>The compaction before a read: the unread bytes are moved to the front.\<close>

definition transport_compact :: "pw_transport \<Rightarrow> pw_transport option" where
  "transport_compact tr =
     (if 0 < tr_read_len tr \<and> 0 < tr_read_pos tr
      then do {
        rb \<leftarrow> memcpy (tr_read_buffer tr) 0 (tr_read_buffer tr) (tr_read_pos tr) (tr_read_len tr);
        Some (tr\<lparr>tr_read_buffer := rb, tr_read_pos := 0\<rparr>)
      }
      else if tr_read_len tr = 0 then Some (tr\<lparr>tr_read_pos := 0\<rparr>)
      else Some tr)"

text \<open>The results are the code's return value, \<open>errno\<close> and the transport.\<close>

definition pw_transport_read ::
  "(int \<Rightarrow> nat \<Rightarrow> recv_result) \<Rightarrow> int \<Rightarrow> pw_transport option \<Rightarrow> (int \<times> int \<times> pw_transport option) option" where
  "pw_transport_read recv errno transport =
     (case transport of
        None \<Rightarrow> Some (-1, errno, None)
      | Some tr \<Rightarrow>
          if tr_fd tr < 0 then Some (-1, errno, Some tr)
          else if tr_read_len tr = PW_BUFFER_SIZE then Some (0, errno, Some tr)
          else do {
            tr \<leftarrow> transport_compact tr;
            let space = size_sub PW_BUFFER_SIZE (tr_read_len tr);
            let target = tr_read_pos tr + tr_read_len tr;
            if length (tr_read_buffer tr) < target + space then None
            else case recv (tr_fd tr) space of
              Received bs errno \<Rightarrow> do {
                rb \<leftarrow> memcpy (tr_read_buffer tr) target bs 0 (length bs);
                Some (int (length bs), errno,
                  Some (tr\<lparr>tr_read_buffer := rb, tr_read_len := tr_read_len tr + length bs\<rparr>))
              }
            | RecvFailed errno \<Rightarrow>
                (if errno = EAGAIN \<or> errno = EWOULDBLOCK then Some (- EAGAIN, errno, Some tr)
                 else Some (-1, errno, Some tr))
          })"

definition pw_transport_write ::
  "(int \<Rightarrow> byte list \<Rightarrow> send_result) \<Rightarrow> int \<Rightarrow> pw_transport option \<Rightarrow> (int \<times> int \<times> pw_transport option) option" where
  "pw_transport_write send errno transport =
     (case transport of
        None \<Rightarrow> Some (-1, errno, None)
      | Some tr \<Rightarrow>
          if tr_fd tr < 0 then Some (-1, errno, Some tr)
          else if tr_write_len tr = 0 then Some (0, errno, Some tr)
          else if length (tr_write_buffer tr) < tr_write_pos tr + tr_write_len tr then None
          else case send (tr_fd tr) (bytes_at (tr_write_buffer tr) (tr_write_pos tr) (tr_write_len tr)) of
            Sent n errno \<Rightarrow>
              if 0 < n
              then let tr = tr\<lparr>tr_write_pos := tr_write_pos tr + n, tr_write_len := size_sub (tr_write_len tr) n\<rparr>
                   in if tr_write_len tr = 0 then Some (int n, errno, Some (tr\<lparr>tr_write_pos := 0\<rparr>))
                      else Some (int n, errno, Some tr)
              else Some (0, errno, Some tr)
          | SendFailed errno \<Rightarrow>
              (if errno = EAGAIN \<or> errno = EWOULDBLOCK then Some (- EAGAIN, errno, Some tr)
               else Some (-1, errno, Some tr)))"

section \<open>The invariant and the contents of the buffers\<close>

definition transport_ok :: "pw_transport \<Rightarrow> bool" where
  "transport_ok tr \<longleftrightarrow>
     length (tr_read_buffer tr) = PW_BUFFER_SIZE \<and> length (tr_write_buffer tr) = PW_BUFFER_SIZE \<and>
     tr_read_pos tr + tr_read_len tr \<le> PW_BUFFER_SIZE \<and> tr_write_pos tr + tr_write_len tr \<le> PW_BUFFER_SIZE"

text \<open>The halves of the invariant on which the read side and the write side rest. The write half leaves
  open whether position and length together fit: that is lost when something is queued behind a partial
  write.\<close>

definition reading_ok :: "pw_transport \<Rightarrow> bool" where
  "reading_ok tr \<longleftrightarrow> length (tr_read_buffer tr) = 4096 \<and> tr_read_pos tr + tr_read_len tr \<le> 4096"

definition writing_ok :: "pw_transport \<Rightarrow> bool" where
  "writing_ok tr \<longleftrightarrow> length (tr_write_buffer tr) = 4096 \<and> tr_write_len tr \<le> 4096 \<and> tr_write_pos tr \<le> 4096"

definition unread :: "pw_transport \<Rightarrow> byte list" where
  "unread tr = bytes_at (tr_read_buffer tr) (tr_read_pos tr) (tr_read_len tr)"

definition unsent :: "pw_transport \<Rightarrow> byte list" where
  "unsent tr = bytes_at (tr_write_buffer tr) (tr_write_pos tr) (tr_write_len tr)"

definition recv_ok :: "(int \<Rightarrow> nat \<Rightarrow> recv_result) \<Rightarrow> bool" where
  "recv_ok recv \<longleftrightarrow> (\<forall>fd n bs e. recv fd n = Received bs e \<longrightarrow> length bs \<le> n)"

definition send_ok :: "(int \<Rightarrow> byte list \<Rightarrow> send_result) \<Rightarrow> bool" where
  "send_ok send \<longleftrightarrow> (\<forall>fd bs n e. send fd bs = Sent n e \<longrightarrow> n \<le> length bs)"

lemma send_okD: "send_ok send \<Longrightarrow> send fd bs = Sent n e \<Longrightarrow> n \<le> length bs"
  by (auto simp: send_ok_def)

lemma recv_okD: "recv_ok recv \<Longrightarrow> recv fd n = Received bs e \<Longrightarrow> length bs \<le> n"
  by (auto simp: recv_ok_def)

lemma transport_okD:
  assumes "transport_ok tr"
  shows "length (tr_read_buffer tr) = 4096" "length (tr_write_buffer tr) = 4096"
    "tr_read_pos tr + tr_read_len tr \<le> 4096" "tr_write_pos tr + tr_write_len tr \<le> 4096"
  using assms by (simp_all add: transport_ok_def)

lemma transport_halves [simp]: "transport_ok tr \<Longrightarrow> reading_ok tr" "transport_ok tr \<Longrightarrow> writing_ok tr"
  by (simp_all add: transport_ok_def reading_ok_def writing_ok_def)

lemma transport_ok_halves:
  "transport_ok tr \<longleftrightarrow> reading_ok tr \<and> writing_ok tr \<and> tr_write_pos tr + tr_write_len tr \<le> 4096"
  by (auto simp: transport_ok_def reading_ok_def writing_ok_def)

lemma reading_length [simp]: "reading_ok tr \<Longrightarrow> length (unread tr) = tr_read_len tr"
  by (simp add: unread_def reading_ok_def length_bytes_at)

lemma length_unread [simp]: "transport_ok tr \<Longrightarrow> length (unread tr) = tr_read_len tr"
  by (simp add: unread_def transport_ok_def length_bytes_at)

lemma length_unsent [simp]: "transport_ok tr \<Longrightarrow> length (unsent tr) = tr_write_len tr"
  by (simp add: unsent_def transport_ok_def length_bytes_at)

text \<open>Compaction puts the unread bytes at the front of the buffer, so that the whole rest is free.\<close>

lemma transport_compact_ok:
  assumes "reading_ok tr"
  shows "\<exists>rb. transport_compact tr = Some (tr\<lparr>tr_read_buffer := rb, tr_read_pos := 0\<rparr>) \<and>
    length rb = 4096 \<and> bytes_at rb 0 (tr_read_len tr) = unread tr"
proof (cases "0 < tr_read_len tr \<and> 0 < tr_read_pos tr")
  case True
  from True assms show ?thesis
    using bytes_at_put_bytes_same [of 0 "unread tr" "tr_read_buffer tr"] reading_length [OF assms]
    by (intro exI [of _ "put_bytes (tr_read_buffer tr) 0 (unread tr)"])
      (simp add: transport_compact_def mem_simps unread_def reading_ok_def)
next
  case False
  then show ?thesis
    using assms by (cases tr) (auto simp: transport_compact_def unread_def reading_ok_def)
qed

definition recv_fits :: "(int \<Rightarrow> nat \<Rightarrow> recv_result) \<Rightarrow> pw_transport \<Rightarrow> bool" where
  "recv_fits recv tr \<longleftrightarrow>
     (\<forall>bs e. recv (tr_fd tr) (4096 - tr_read_len tr) = Received bs e \<longrightarrow> length bs \<le> 4096 - tr_read_len tr)"

lemma recv_ok_fits: "recv_ok recv \<Longrightarrow> recv_fits recv tr"
  by (auto simp: recv_fits_def recv_ok_def)

lemma recv_fitsD:
  "recv_fits recv tr \<Longrightarrow> recv (tr_fd tr) (4096 - tr_read_len tr) = Received bs e \<Longrightarrow> length bs \<le> 4096 - tr_read_len tr"
  by (auto simp: recv_fits_def)

lemma read_eq:
  assumes "reading_ok tr" and "0 \<le> tr_fd tr" and "tr_read_len tr < 4096"
    and "recv_fits recv tr"
  shows "\<exists>rb. length rb = 4096 \<and> bytes_at rb 0 (tr_read_len tr) = unread tr \<and>
    pw_transport_read recv errno (Some tr) = Some
      (case recv (tr_fd tr) (4096 - tr_read_len tr) of
         Received bs e \<Rightarrow> (int (length bs), e, Some (tr\<lparr>tr_read_buffer := put_bytes rb (tr_read_len tr) bs,
           tr_read_pos := 0, tr_read_len := tr_read_len tr + length bs\<rparr>))
       | RecvFailed e \<Rightarrow> (if e = EAGAIN then - EAGAIN else -1, e, Some (tr\<lparr>tr_read_buffer := rb, tr_read_pos := 0\<rparr>)))"
proof -
  from transport_compact_ok [OF assms(1)] obtain rb where rb:
    "transport_compact tr = Some (tr\<lparr>tr_read_buffer := rb, tr_read_pos := 0\<rparr>)"
    "length rb = 4096" "bytes_at rb 0 (tr_read_len tr) = unread tr" by blast
  show ?thesis
  proof (intro exI [of _ rb] conjI rb(2,3), cases "recv (tr_fd tr) (4096 - tr_read_len tr)")
    fix bs e
    assume r: "recv (tr_fd tr) (4096 - tr_read_len tr) = Received bs e"
    from recv_fitsD [OF assms(4) r] have "length bs \<le> 4096 - tr_read_len tr" .
    with r assms(2,3) rb show "pw_transport_read recv errno (Some tr) = Some
      (case recv (tr_fd tr) (4096 - tr_read_len tr) of
         Received bs e \<Rightarrow> (int (length bs), e, Some (tr\<lparr>tr_read_buffer := put_bytes rb (tr_read_len tr) bs,
           tr_read_pos := 0, tr_read_len := tr_read_len tr + length bs\<rparr>))
       | RecvFailed e \<Rightarrow> (if e = EAGAIN then - EAGAIN else -1, e, Some (tr\<lparr>tr_read_buffer := rb, tr_read_pos := 0\<rparr>)))"
      by (simp add: pw_transport_read_def mem_simps bytes_at_whole Let_def)
  qed (use assms(2,3) rb in \<open>simp add: pw_transport_read_def mem_simps\<close>)
qed

lemma read_cases:
  assumes "transport_ok tr" and "0 \<le> tr_fd tr"
    and "recv_fits recv tr"
  obtains (full) "tr_read_len tr = 4096" and "pw_transport_read recv errno (Some tr) = Some (0, errno, Some tr)"
    | (received) bs e tr' where "tr_read_len tr < 4096" and "recv (tr_fd tr) (4096 - tr_read_len tr) = Received bs e"
        and "pw_transport_read recv errno (Some tr) = Some (int (length bs), e, Some tr')"
        and "transport_ok tr'" and "unread tr' = unread tr @ bs" and "unsent tr' = unsent tr" and "tr_fd tr' = tr_fd tr"
        and "tr_write_pos tr' = tr_write_pos tr" and "tr_write_len tr' = tr_write_len tr"
    | (failed) e tr' where "tr_read_len tr < 4096" and "recv (tr_fd tr) (4096 - tr_read_len tr) = RecvFailed e"
        and "pw_transport_read recv errno (Some tr) = Some (if e = EAGAIN then - EAGAIN else -1, e, Some tr')"
        and "transport_ok tr'" and "unread tr' = unread tr" and "unsent tr' = unsent tr" and "tr_fd tr' = tr_fd tr"
        and "tr_write_pos tr' = tr_write_pos tr" and "tr_write_len tr' = tr_write_len tr"
proof (cases "tr_read_len tr < 4096")
  case False
  with transport_okD(3) [OF assms(1)] have "tr_read_len tr = 4096" by simp
  with assms(2) full show thesis by (simp add: pw_transport_read_def)
next
  case True
  note ok = transport_okD [OF assms(1)]
  obtain rb where rb: "length rb = 4096"
    "bytes_at rb 0 (tr_read_len tr) = unread tr" "pw_transport_read recv errno (Some tr) = Some
      (case recv (tr_fd tr) (4096 - tr_read_len tr) of
         Received bs e \<Rightarrow> (int (length bs), e, Some (tr\<lparr>tr_read_buffer := put_bytes rb (tr_read_len tr) bs,
           tr_read_pos := 0, tr_read_len := tr_read_len tr + length bs\<rparr>))
       | RecvFailed e \<Rightarrow> (if e = EAGAIN then - EAGAIN else -1, e, Some (tr\<lparr>tr_read_buffer := rb, tr_read_pos := 0\<rparr>)))"
    using read_eq [OF transport_halves(1) [OF assms(1)] assms(2) True assms(3), of errno] by (elim exE conjE) (rule that)
  show thesis
  proof (cases "recv (tr_fd tr) (4096 - tr_read_len tr)")
    case (Received bs e)
    from recv_fitsD [OF assms(3) Received] have bs: "length bs \<le> 4096 - tr_read_len tr" .
    show thesis
    proof (rule received [OF True Received])
      show "pw_transport_read recv errno (Some tr) = Some (int (length bs), e, Some (tr\<lparr>tr_read_buffer :=
          put_bytes rb (tr_read_len tr) bs, tr_read_pos := 0, tr_read_len := tr_read_len tr + length bs\<rparr>))"
        using rb(3) Received by simp
    qed (use True bs rb(1,2) ok bytes_at_put_bytes_append [of 0 "tr_read_len tr" "tr_read_len tr" bs rb] in
        \<open>simp_all add: transport_ok_def unread_def unsent_def length_put_bytes\<close>)
  next
    case (RecvFailed e)
    show thesis
    proof (rule failed [OF True RecvFailed])
      show "pw_transport_read recv errno (Some tr) =
          Some (if e = EAGAIN then - EAGAIN else -1, e, Some (tr\<lparr>tr_read_buffer := rb, tr_read_pos := 0\<rparr>))"
        using rb(3) RecvFailed by simp
    qed (use True rb(1,2) ok in \<open>simp_all add: transport_ok_def unread_def unsent_def\<close>)
  qed
qed

lemma write_cases:
  assumes "transport_ok tr" and "0 \<le> tr_fd tr" and "send_ok send"
  obtains (idle) "tr_write_len tr = 0" and "pw_transport_write send errno (Some tr) = Some (0, errno, Some tr)"
    | (sent) n e tr' where "0 < tr_write_len tr" and "send (tr_fd tr) (unsent tr) = Sent n e"
        and "n \<le> length (unsent tr)"
        and "pw_transport_write send errno (Some tr) = Some (int n, e, Some tr')"
        and "transport_ok tr'" and "unsent tr' = drop n (unsent tr)" and "unread tr' = unread tr"
        and "tr_fd tr' = tr_fd tr" and "tr_write_len tr' = tr_write_len tr - n"
        and "n = tr_write_len tr \<Longrightarrow> tr_write_pos tr' = 0" and "tr_read_len tr' = tr_read_len tr"
    | (failed) e where "0 < tr_write_len tr" and "send (tr_fd tr) (unsent tr) = SendFailed e"
        and "pw_transport_write send errno (Some tr) = Some (if e = EAGAIN then - EAGAIN else -1, e, Some tr)"
proof (cases "tr_write_len tr = 0")
  case True
  with assms(2) idle show thesis by (simp add: pw_transport_write_def)
next
  case False
  note ok = transport_okD [OF assms(1)]
  show thesis
  proof (cases "send (tr_fd tr) (unsent tr)")
    case (Sent n e)
    then have n: "n \<le> tr_write_len tr" using send_okD [OF assms(3) Sent] assms(1) by simp
    define tr' where "tr' = (if n = 0 then tr else tr\<lparr>tr_write_pos := (if n = tr_write_len tr then 0 else tr_write_pos tr + n),
      tr_write_len := tr_write_len tr - n\<rparr>)"
    show thesis
    proof (rule sent [OF _ Sent])
      show "pw_transport_write send errno (Some tr) = Some (int n, e, Some tr')"
        using False Sent assms(2) n ok by (auto simp: pw_transport_write_def unsent_def mem_simps tr'_def Let_def)
      show "unsent tr' = drop n (unsent tr)"
        using n ok by (auto simp: unsent_def tr'_def drop_bytes_at)
    qed (use False n ok assms(1) in \<open>auto simp: transport_ok_def tr'_def unread_def\<close>)
  next
    case (SendFailed e)
    show thesis
      by (rule failed [OF _ SendFailed])
        (use False SendFailed assms(2) ok in \<open>auto simp: pw_transport_write_def unsent_def\<close>)
  qed
qed

section \<open>Reads and writes under the halves of the invariant\<close>

text \<open>The bytes that a read takes from the system.\<close>

definition received_by :: "(int \<Rightarrow> nat \<Rightarrow> recv_result) \<Rightarrow> pw_transport \<Rightarrow> byte list" where
  "received_by recv tr =
     (if tr_fd tr < 0 \<or> tr_read_len tr = 4096 then []
      else case recv (tr_fd tr) (4096 - tr_read_len tr) of Received bs e \<Rightarrow> bs | RecvFailed e \<Rightarrow> [])"

text \<open>Two transports with the same write side.\<close>

definition same_writing :: "pw_transport \<Rightarrow> pw_transport \<Rightarrow> bool" where
  "same_writing tr tr' \<longleftrightarrow> tr_write_buffer tr' = tr_write_buffer tr \<and> tr_write_pos tr' = tr_write_pos tr \<and>
     tr_write_len tr' = tr_write_len tr \<and> tr_fd tr' = tr_fd tr"

lemma same_writingD:
  assumes "same_writing tr tr'"
  shows "writing_ok tr' = writing_ok tr" "unsent tr' = unsent tr" "tr_write_pos tr' = tr_write_pos tr"
    "tr_write_len tr' = tr_write_len tr" "tr_fd tr' = tr_fd tr"
  using assms by (simp_all add: same_writing_def writing_ok_def unsent_def)

lemma read_any:
  assumes "reading_ok tr" and "0 \<le> tr_fd tr" and "recv_fits recv tr"
  shows "\<exists>r e tr'. pw_transport_read recv errno (Some tr) = Some (r, e, Some tr') \<and> reading_ok tr' \<and>
    unread tr' = unread tr @ received_by recv tr \<and> same_writing tr tr'"
proof (cases "tr_read_len tr < 4096")
  case False
  with assms(1) have "tr_read_len tr = 4096" by (simp add: reading_ok_def)
  with assms(1,2) show ?thesis by (simp add: pw_transport_read_def received_by_def same_writing_def)
next
  case True
  from read_eq [OF assms(1,2) True assms(3), of errno] obtain rb where
    rb: "length rb = 4096" "bytes_at rb 0 (tr_read_len tr) = unread tr"
    and rd: "pw_transport_read recv errno (Some tr) = Some
      (case recv (tr_fd tr) (4096 - tr_read_len tr) of
         Received bs e \<Rightarrow> (int (length bs), e, Some (tr\<lparr>tr_read_buffer := put_bytes rb (tr_read_len tr) bs,
           tr_read_pos := 0, tr_read_len := tr_read_len tr + length bs\<rparr>))
       | RecvFailed e \<Rightarrow> (if e = EAGAIN then - EAGAIN else -1, e, Some (tr\<lparr>tr_read_buffer := rb, tr_read_pos := 0\<rparr>)))"
    by (elim exE conjE) (rule that)
  show ?thesis
  proof (cases "recv (tr_fd tr) (4096 - tr_read_len tr)")
    case (Received bs e)
    from recv_fitsD [OF assms(3) Received] have "length bs \<le> 4096 - tr_read_len tr" .
    with True rb rd Received assms(2) bytes_at_put_bytes_append [of 0 "tr_read_len tr" "tr_read_len tr" bs rb]
    show ?thesis
      by (simp add: received_by_def reading_ok_def unread_def same_writing_def length_put_bytes)
  next
    case (RecvFailed e)
    with True rb rd show ?thesis
      by (simp add: received_by_def reading_ok_def unread_def same_writing_def)
  qed
qed

text \<open>A write leaves the arrays exactly when position and length pass the end of the buffer; otherwise the
  read side is untouched.\<close>

lemma write_fault_iff:
  "pw_transport_write send errno (Some tr) = None \<longleftrightarrow>
     0 \<le> tr_fd tr \<and> 0 < tr_write_len tr \<and> length (tr_write_buffer tr) < tr_write_pos tr + tr_write_len tr"
  by (auto simp: pw_transport_write_def Let_def split: send_result.splits)

lemma write_any:
  assumes "writing_ok tr" and "send_ok send" and "pw_transport_write send errno (Some tr) = Some (r, e, t)"
  shows "\<exists>p n. t = Some (tr\<lparr>tr_write_pos := p, tr_write_len := n\<rparr>) \<and> p \<le> 4096 \<and> n \<le> tr_write_len tr"
proof -
  have same: ?thesis if "t = Some tr"
    using assms(1) that
    by (intro exI [of _ "tr_write_pos tr"] exI [of _ "tr_write_len tr"]) (simp add: writing_ok_def)
  show ?thesis
  proof (cases "tr_fd tr < 0 \<or> tr_write_len tr = 0")
    case True
    with assms(3) have "t = Some tr" by (auto simp: pw_transport_write_def split: if_splits)
    then show ?thesis by (rule same)
  next
    case False
    let ?bs = "unsent tr"
    from assms(3) False have fit: "tr_write_pos tr + tr_write_len tr \<le> length (tr_write_buffer tr)"
      by (auto simp: pw_transport_write_def split: if_splits)
    then have l: "length ?bs = tr_write_len tr" by (simp add: unsent_def length_bytes_at)
    show ?thesis
    proof (cases "send (tr_fd tr) ?bs")
      case (Sent n e')
      with send_okD [OF assms(2)] l have n: "n \<le> tr_write_len tr" by fastforce
      show ?thesis
      proof (cases "n = 0")
        case True
        with False Sent assms(3) fit have "t = Some tr"
          by (simp add: pw_transport_write_def unsent_def)
        then show ?thesis by (rule same)
      next
        case pos: False
        with False Sent assms(3) fit n have t: "t = Some (tr\<lparr>tr_write_pos := if n = tr_write_len tr then 0 else tr_write_pos tr + n,
            tr_write_len := tr_write_len tr - n\<rparr>)"
          by (auto simp: pw_transport_write_def unsent_def Let_def mem_simps split: if_splits)
        have "(if n = tr_write_len tr then 0 else tr_write_pos tr + n) \<le> 4096"
          using n fit assms(1) by (simp add: writing_ok_def)
        with t show ?thesis by (intro exI conjI) (assumption, simp_all)
      qed
    next
      case (SendFailed e')
      with False assms(3) fit have "t = Some tr"
        by (auto simp: pw_transport_write_def unsent_def split: if_splits)
      then show ?thesis by (rule same)
    qed
  qed
qed

section \<open>The read side as a byte queue\<close>

datatype queue_event = Fill "byte list" | Consume nat

fun queue_run ::
  "('s \<Rightarrow> byte list) \<Rightarrow> ('s \<Rightarrow> byte list \<Rightarrow> 's option) \<Rightarrow> ('s \<Rightarrow> nat \<Rightarrow> 's) \<Rightarrow> 's \<Rightarrow> queue_event list \<Rightarrow>
   (byte list \<times> 's) option" where
  "queue_run content fill consume s [] = Some ([], s)"
| "queue_run content fill consume s (Fill bs # es) = do {
     s \<leftarrow> fill s bs;
     queue_run content fill consume s es
   }"
| "queue_run content fill consume s (Consume n # es) = do {
     (out, s') \<leftarrow> queue_run content fill consume (consume s n) es;
     Some (take n (content s) @ out, s')
   }"

fun queue_fits :: "nat \<Rightarrow> nat \<Rightarrow> queue_event list \<Rightarrow> bool" where
  "queue_fits cap n [] \<longleftrightarrow> True"
| "queue_fits cap n (Fill bs # es) \<longleftrightarrow> n + length bs \<le> cap \<and> queue_fits cap (n + length bs) es"
| "queue_fits cap n (Consume k # es) \<longleftrightarrow> k \<le> n \<and> queue_fits cap (n - k) es"

fun filled :: "queue_event list \<Rightarrow> byte list" where
  "filled [] = []"
| "filled (Fill bs # es) = bs @ filled es"
| "filled (Consume n # es) = filled es"

locale byte_queue =
  fixes content :: "'s \<Rightarrow> byte list"
    and inv :: "'s \<Rightarrow> bool"
    and fill :: "'s \<Rightarrow> byte list \<Rightarrow> 's option"
    and consume :: "'s \<Rightarrow> nat \<Rightarrow> 's"
    and cap :: nat
  assumes fill: "inv s \<Longrightarrow> length (content s) + length bs \<le> cap \<Longrightarrow>
      \<exists>s'. fill s bs = Some s' \<and> inv s' \<and> content s' = content s @ bs"
    and consume: "inv s \<Longrightarrow> n \<le> length (content s) \<Longrightarrow>
      inv (consume s n) \<and> content (consume s n) = drop n (content s)"
begin

lemma run_fifo:
  assumes "inv s" and "queue_fits cap (length (content s)) es"
  shows "\<exists>out s'. queue_run content fill consume s es = Some (out, s') \<and> inv s' \<and>
    out @ content s' = content s @ filled es"
  using assms
proof (induction es arbitrary: s)
  case (Cons e es)
  show ?case
  proof (cases e)
    case (Fill bs)
    with Cons.prems fill [of s bs] obtain s1 where
      s1: "fill s bs = Some s1" "inv s1" "content s1 = content s @ bs" by auto
    with Cons.IH [of s1] Cons.prems Fill show ?thesis by auto
  next
    case (Consume n)
    with Cons.prems consume [of s n] have
      c: "inv (consume s n)" "content (consume s n) = drop n (content s)" by auto
    with Cons.IH [of "consume s n"] Cons.prems Consume obtain out s' where
      IH: "queue_run content fill consume (consume s n) es = Some (out, s')" "inv s'"
        "out @ content s' = drop n (content s) @ filled es" by auto
    with Consume have "queue_run content fill consume s (e # es) = Some (take n (content s) @ out, s')"
      by simp
    moreover have "(take n (content s) @ out) @ content s' = content s @ filled (e # es)"
      using IH(3) Consume by (metis append_assoc append_take_drop_id filled.simps(3))
    ultimately show ?thesis using IH(2) by blast
  qed
qed simp

end

text \<open>A read that delivers the given bytes; the loops of the daemons consume bytes by moving the
  position on.\<close>

definition transport_fill :: "pw_transport \<Rightarrow> byte list \<Rightarrow> pw_transport option" where
  "transport_fill tr bs = do {
     (r, e, t) \<leftarrow> pw_transport_read (\<lambda>fd n. Received bs 0) 0 (Some tr);
     t
   }"

definition transport_consume :: "pw_transport \<Rightarrow> nat \<Rightarrow> pw_transport" where
  "transport_consume tr n =
     tr\<lparr>tr_read_pos := size_add (tr_read_pos tr) n, tr_read_len := size_sub (tr_read_len tr) n\<rparr>"

lemma consume_ok:
  assumes "transport_ok tr" and "n \<le> tr_read_len tr"
  shows "transport_ok (transport_consume tr n)" "unread (transport_consume tr n) = drop n (unread tr)"
    "tr_read_len (transport_consume tr n) = tr_read_len tr - n"
    "tr_read_pos (transport_consume tr n) = tr_read_pos tr + n"
    "unsent (transport_consume tr n) = unsent tr"
    "transport_consume tr n = tr\<lparr>tr_read_pos := tr_read_pos tr + n, tr_read_len := tr_read_len tr - n\<rparr>"
proof -
  note ok = transport_okD [OF assms(1)]
  have "size_add (tr_read_pos tr) n = tr_read_pos tr + n"
    using ok assms(2) by (intro size_add_small) simp
  then show "transport_consume tr n = tr\<lparr>tr_read_pos := tr_read_pos tr + n, tr_read_len := tr_read_len tr - n\<rparr>"
    using assms(2) by (simp add: transport_consume_def mem_simps)
  then show "transport_ok (transport_consume tr n)" "unread (transport_consume tr n) = drop n (unread tr)"
    "tr_read_len (transport_consume tr n) = tr_read_len tr - n"
    "tr_read_pos (transport_consume tr n) = tr_read_pos tr + n"
    "unsent (transport_consume tr n) = unsent tr"
    using assms(2) ok by (simp_all add: transport_ok_def unread_def unsent_def drop_bytes_at)
qed

interpretation rq: byte_queue unread "\<lambda>tr. transport_ok tr \<and> 0 \<le> tr_fd tr" transport_fill transport_consume 4096
proof unfold_locales
  fix tr and bs :: "byte list"
  assume inv: "transport_ok tr \<and> 0 \<le> tr_fd tr" and room: "length (unread tr) + length bs \<le> 4096"
  let ?recv = "\<lambda>(fd :: int) (n :: nat). Received bs 0"
  from inv have ok: "transport_ok tr" "0 \<le> tr_fd tr" by simp_all
  have r: "recv_fits ?recv tr" using room ok by (simp add: recv_fits_def)
  show "\<exists>tr'. transport_fill tr bs = Some tr' \<and> (transport_ok tr' \<and> 0 \<le> tr_fd tr') \<and> unread tr' = unread tr @ bs"
    by (rule read_cases [of tr ?recv 0, OF ok r]) (use room ok in \<open>auto simp: transport_fill_def\<close>)
next
  fix tr n
  assume inv: "transport_ok tr \<and> 0 \<le> tr_fd tr" and "n \<le> length (unread tr)"
  then have "transport_ok tr" and "n \<le> tr_read_len tr" by simp_all
  note c = consume_ok [OF this]
  have "tr_fd (transport_consume tr n) = tr_fd tr" by (simp add: transport_consume_def)
  with c(1,2) inv show "(transport_ok (transport_consume tr n) \<and> 0 \<le> tr_fd (transport_consume tr n)) \<and>
      unread (transport_consume tr n) = drop n (unread tr)"
    by simp
qed

section \<open>Draining the write side\<close>

text \<open>Writes one after the other, with the bytes that go out on the wire.\<close>

fun transport_drain :: "(int \<Rightarrow> byte list \<Rightarrow> send_result) list \<Rightarrow> pw_transport \<Rightarrow> (byte list \<times> pw_transport) option" where
  "transport_drain [] tr = Some ([], tr)"
| "transport_drain (send # sends) tr = do {
     (r, e, t) \<leftarrow> pw_transport_write send 0 (Some tr);
     tr' \<leftarrow> t;
     (out, tr'') \<leftarrow> transport_drain sends tr';
     Some (take (nat r) (unsent tr) @ out, tr'')
   }"

definition send_progress :: "(int \<Rightarrow> byte list \<Rightarrow> send_result) \<Rightarrow> bool" where
  "send_progress send \<longleftrightarrow> send_ok send \<and> (\<forall>fd bs. bs \<noteq> [] \<longrightarrow> (\<exists>n e. send fd bs = Sent n e \<and> 0 < n))"

lemma drain_step:
  assumes "transport_ok tr" and "0 \<le> tr_fd tr" and "send_progress send"
  obtains n tr' e where "pw_transport_write send 0 (Some tr) = Some (int n, e, Some tr')"
    and "transport_ok tr'" and "0 \<le> tr_fd tr'" and "unsent tr' = drop n (unsent tr)"
    and "tr_write_len tr' = tr_write_len tr - n" and "tr_write_len tr = 0 \<or> 0 < n"
proof -
  from assms(3) have ok: "send_ok send" by (simp add: send_progress_def)
  show thesis
  proof (rule write_cases [OF assms(1,2) ok, of 0])
    assume "tr_write_len tr = 0" and w: "pw_transport_write send 0 (Some tr) = Some (0, 0, Some tr)"
    then show thesis using that [of 0 0 tr] assms(1,2) by simp
  next
    fix n e tr'
    assume w: "0 < tr_write_len tr" "send (tr_fd tr) (unsent tr) = Sent n e"
      "pw_transport_write send 0 (Some tr) = Some (int n, e, Some tr')" "transport_ok tr'"
      "unsent tr' = drop n (unsent tr)" "tr_fd tr' = tr_fd tr" "tr_write_len tr' = tr_write_len tr - n"
    have "unsent tr \<noteq> []" using w(1) assms(1) by (metis length_unsent length_0_conv less_irrefl)
    then obtain k e' where "send (tr_fd tr) (unsent tr) = Sent k e'" "0 < k"
      using assms(3) unfolding send_progress_def by blast
    with w assms(2) show thesis using that [of n e tr'] by simp
  next
    fix e assume w: "0 < tr_write_len tr" "send (tr_fd tr) (unsent tr) = SendFailed e"
    have "unsent tr \<noteq> []" using w(1) assms(1) by (metis length_unsent length_0_conv less_irrefl)
    then obtain k e' where "send (tr_fd tr) (unsent tr) = Sent k e'"
      using assms(3) unfolding send_progress_def by blast
    with w(2) show thesis by simp
  qed
qed

lemma drain_all:
  assumes "transport_ok tr" and "0 \<le> tr_fd tr" and "\<forall>s \<in> set sends. send_progress s"
    and "tr_write_len tr \<le> length sends"
  shows "\<exists>tr'. transport_drain sends tr = Some (unsent tr, tr') \<and> transport_ok tr' \<and> tr_write_len tr' = 0"
  using assms
proof (induction sends arbitrary: tr)
  case Nil
  moreover from Nil have "unsent tr = []" by (simp add: unsent_def)
  ultimately show ?case by simp
next
  case (Cons send sends)
  from Cons.prems(3) have "send_progress send" by simp
  from drain_step [OF Cons.prems(1,2) this] obtain n tr' e where
    w: "pw_transport_write send 0 (Some tr) = Some (int n, e, Some tr')" "transport_ok tr'" "0 \<le> tr_fd tr'"
      "unsent tr' = drop n (unsent tr)" "tr_write_len tr' = tr_write_len tr - n"
      "tr_write_len tr = 0 \<or> 0 < n" .
  with Cons.prems have "tr_write_len tr' \<le> length sends" by auto
  with Cons.IH [OF w(2,3)] Cons.prems(3) obtain tr'' where
    "transport_drain sends tr' = Some (unsent tr', tr'')" "transport_ok tr''" "tr_write_len tr'' = 0" by auto
  with w show ?case by simp
qed

section \<open>Properties\<close>

text \<open>A read is safe and loses nothing: it hands the system only free room of the buffer, keeps the
  invariant of the buffers and the bytes to be sent, and on a buffer that is not full appends exactly
  the received bytes to the unread ones. A failed call is reported, with its own code when it would
  block. A full buffer is reported as 0, the value that stands for the end of the stream.\<close>

lemma transport_read_correct:
  assumes "transport_ok tr" and "0 \<le> tr_fd tr" and "recv_ok recv"
  shows "\<exists>r e tr'. pw_transport_read recv errno (Some tr) = Some (r, e, Some tr') \<and>
     transport_ok tr' \<and> unsent tr' = unsent tr \<and>
     (if tr_read_len tr = PW_BUFFER_SIZE then r = 0 \<and> e = errno \<and> tr' = tr
      else case recv (tr_fd tr) (PW_BUFFER_SIZE - tr_read_len tr) of
          Received bs e' \<Rightarrow> r = int (length bs) \<and> e = e' \<and> unread tr' = unread tr @ bs
        | RecvFailed e' \<Rightarrow> r = (if e' = EAGAIN then - EAGAIN else -1) \<and> e = e' \<and> unread tr' = unread tr)"
  by (rule read_cases [OF assms(1,2) recv_ok_fits [OF assms(3)], of errno]) (use assms(1) in simp_all)

text \<open>C13: The read buffer is a first-in first-out queue over any sequence of reads that fit and
  consumptions of what is there, compactions included: the bytes consumed, followed by those still
  unread, are the bytes that were there followed by all that were received, in order.\<close>

theorem read_buffer_fifo:
  assumes "transport_ok tr" and "0 \<le> tr_fd tr" and "queue_fits 4096 (tr_read_len tr) es"
  shows "\<exists>out tr'. queue_run unread transport_fill transport_consume tr es = Some (out, tr') \<and>
     transport_ok tr' \<and> out @ unread tr' = unread tr @ filled es"
  using rq.run_fifo [of tr es] assms by auto

theorem read_buffer_fifo_witness:
  "let tr = \<lparr>tr_fd = 3, tr_read_buffer = replicate 4096 0, tr_read_pos = 0, tr_read_len = 0,
             tr_write_buffer = replicate 4096 0, tr_write_pos = 0, tr_write_len = 0\<rparr>
   in \<exists>out tr'. queue_run unread transport_fill transport_consume tr
          [Fill [1, 2, 3], Consume 2, Fill [4], Consume 1, Fill [5]] = Some (out, tr') \<and>
        transport_ok tr' \<and> out @ unread tr' = [1, 2, 3, 4, 5]"
proof -
  define tr where "tr = \<lparr>tr_fd = 3, tr_read_buffer = replicate 4096 0, tr_read_pos = 0, tr_read_len = 0,
    tr_write_buffer = replicate 4096 (0 :: byte), tr_write_pos = 0, tr_write_len = 0\<rparr>"
  have "transport_ok tr" "0 \<le> tr_fd tr" "tr_read_len tr = 0" "unread tr = []"
    by (simp_all add: tr_def transport_ok_def unread_def)
  with read_buffer_fifo [of tr "[Fill [1, 2, 3], Consume 2, Fill [4], Consume 1, Fill [5]]"]
  show ?thesis by (simp add: tr_def Let_def)
qed

text \<open>A write is safe and in order: it offers the system exactly the unsent bytes, removes from them
  exactly the ones that were taken, leaves the unread bytes alone, and keeps the invariant; a failed
  call changes nothing. When everything has been taken the position returns to the start.\<close>

lemma transport_write_correct:
  assumes "transport_ok tr" and "0 \<le> tr_fd tr" and "send_ok send"
  shows "\<exists>r e tr'. pw_transport_write send errno (Some tr) = Some (r, e, Some tr') \<and>
     transport_ok tr' \<and> unread tr' = unread tr \<and>
     (if tr_write_len tr = 0 then r = 0 \<and> tr' = tr
      else case send (tr_fd tr) (unsent tr) of
          Sent n e' \<Rightarrow> r = int n \<and> unsent tr' = drop n (unsent tr) \<and>
            (n = tr_write_len tr \<longrightarrow> tr_write_pos tr' = 0 \<and> tr_write_len tr' = 0)
        | SendFailed e' \<Rightarrow> r = (if e' = EAGAIN then - EAGAIN else -1) \<and> tr' = tr)"
  by (rule write_cases [OF assms, of errno]) (use assms(1) in auto)

text \<open>Everything queued is sent: if each call of \<open>send\<close> takes at least one byte of what it is
  offered, then after as many writes as there were bytes the buffer is empty, and the bytes that went
  out are exactly the unsent ones, each once and in order.\<close>

lemma transport_drains:
  assumes "transport_ok tr" and "0 \<le> tr_fd tr" and "\<forall>s \<in> set sends. send_progress s"
    and "tr_write_len tr \<le> length sends"
  shows "\<exists>tr'. transport_drain sends tr = Some (unsent tr, tr') \<and> transport_ok tr' \<and> tr_write_len tr' = 0"
  by (rule drain_all [OF assms])

end
