(* ===== verification/PW_Session.thy ===== *)
theory PW_Session
  imports PW_Frame PW_Handshake PW_Auth PW_Connection PW_Transport
begin

text \<open>
  What the loops of the two programs, \<open>server_main.c\<close> and \<open>client_main.c\<close>, have in common: a
  connection with its transport, queueing a frame header or bytes behind the bytes to be written, the
  test for a complete frame, the copy of a payload into \<open>char buf[128]\<close> that is printed as a string,
  and what one round of \<open>poll\<close> brings. Every local structure that the code leaves uninitialised is a
  parameter, so the theorems hold for whatever the stack contained.
\<close>

section \<open>The code\<close>

record session =
  se_conn :: pw_connection
  se_tr :: pw_transport

abbreviation state_of :: "session \<Rightarrow> pw_connection_state" where
  "state_of se \<equiv> conn_state (se_conn se)"

text \<open>A requested transition whose answer is ignored.\<close>

definition goto_state :: "pw_connection_state \<Rightarrow> pw_connection \<Rightarrow> pw_connection" where
  "goto_state s c = snd (transition c s)"

text \<open>The replies are written at index \<open>write_len\<close>, with the room that the subtraction of \<open>size_t\<close>
  values gives.\<close>

definition send_header :: "pw_frame \<Rightarrow> pw_transport \<Rightarrow> pw_transport option" where
  "send_header frame tr = do {
     (fw, wb) \<leftarrow> pw_frame_serialize_header frame (tr_write_buffer tr) (tr_write_len tr)
                   (size_sub PW_BUFFER_SIZE (tr_write_len tr));
     Some (tr\<lparr>tr_write_buffer := wb, tr_write_len := tr_write_len tr + fw\<rparr>)
   }"

definition send_bytes :: "byte list \<Rightarrow> nat \<Rightarrow> nat \<Rightarrow> pw_transport \<Rightarrow> pw_transport option" where
  "send_bytes src s n tr = do {
     wb \<leftarrow> memcpy (tr_write_buffer tr) (tr_write_len tr) src s n;
     Some (tr\<lparr>tr_write_buffer := wb, tr_write_len := tr_write_len tr + n\<rparr>)
   }"

text \<open>The header of a frame that has arrived whole: the sum of the test is one of \<open>size_t\<close> values.\<close>

definition parse_frame :: "pw_frame \<Rightarrow> pw_transport \<Rightarrow> ((nat \<times> pw_frame) option) option" where
  "parse_frame junk tr = do {
     (parsed, frame) \<leftarrow> pw_frame_parse_header (tr_read_buffer tr) (tr_read_pos tr) (tr_read_len tr) junk;
     if 0 < parsed \<and> size_add parsed (unat (fr_length frame)) \<le> tr_read_len tr
     then Some (Some (parsed, frame)) else Some None
   }"

text \<open>The branches of both programs that read frames: find a complete one, act on it, consume it.\<close>

definition frame_branch ::
  "pw_frame \<Rightarrow> (nat \<Rightarrow> pw_frame \<Rightarrow> session \<Rightarrow> session option) \<Rightarrow> session \<Rightarrow> (bool \<times> session) option" where
  "frame_branch junk act se = do {
     found \<leftarrow> parse_frame junk (se_tr se);
     (case found of
        Some (parsed, frame) \<Rightarrow> do {
          se \<leftarrow> act parsed frame se;
          Some (True, se\<lparr>se_tr := transport_consume (se_tr se) (size_add parsed (unat (fr_length frame)))\<rparr>)
        }
      | None \<Rightarrow> Some (False, se))
   }"

text \<open>\<open>char buf[128] = {0}; memcpy(buf, payload, length); printf("%s", buf)\<close>: the copy must fit, and the
  string must end within the array. The result is the length of the string printed.\<close>

definition print_payload :: "byte list \<Rightarrow> nat \<Rightarrow> nat \<Rightarrow> nat option" where
  "print_payload src s n = do {
     buf \<leftarrow> memcpy (replicate 128 0) 0 src s n;
     c_strlen buf
   }"

text \<open>One round of \<open>poll\<close>: its result, the events it reports, the answers of the system to the calls
  that follow, the value of \<open>errno\<close> before them, and the content of the uninitialised locals in each
  turn of the inner loop, which the number of unread bytes tells apart.\<close>

record poll_event =
  pe_result :: int
  pe_in :: bool
  pe_out :: bool
  pe_recv :: "int \<Rightarrow> nat \<Rightarrow> recv_result"
  pe_send :: "int \<Rightarrow> byte list \<Rightarrow> send_result"
  pe_errno :: int
  pe_frame :: "nat \<Rightarrow> pw_frame"
  pe_client_hello :: "nat \<Rightarrow> pw_client_hello"
  pe_server_hello :: "nat \<Rightarrow> pw_server_hello"
  pe_request :: "nat \<Rightarrow> pw_auth_request"

text \<open>The write half of a round, the same in both programs.\<close>

definition poll_write :: "poll_event \<Rightarrow> session \<Rightarrow> session option" where
  "poll_write ev se = do {
     (r, e, t) \<leftarrow> pw_transport_write (pe_send ev) (pe_errno ev) (Some (se_tr se));
     tr \<leftarrow> t;
     let se = se\<lparr>se_tr := tr\<rparr>;
     Some (if state_of se = PW_STATE_CLOSING \<and> tr_write_len tr = 0
           then se\<lparr>se_conn := goto_state PW_STATE_CLOSED (se_conn se)\<rparr> else se)
   }"

text \<open>The token of the reference implementation.\<close>

definition secret_token :: "byte list" where
  "secret_token = [0x73, 0x65, 0x63, 0x72, 0x65, 0x74, 0x5F, 0x74, 0x6F, 0x6B, 0x65, 0x6E]"

section \<open>Queueing\<close>

text \<open>Bytes queued behind the unsent ones, where the code puts them. That is behind them only when
  the write position is 0.\<close>

definition queue_out :: "byte list \<Rightarrow> pw_transport \<Rightarrow> pw_transport" where
  "queue_out bs tr =
     tr\<lparr>tr_write_buffer := put_bytes (tr_write_buffer tr) (tr_write_len tr) bs,
        tr_write_len := tr_write_len tr + length bs\<rparr>"

definition writable :: "pw_transport \<Rightarrow> nat \<Rightarrow> bool" where
  "writable tr n \<longleftrightarrow> transport_ok tr \<and> tr_write_pos tr = 0 \<and> tr_write_len tr + n \<le> 4096"

lemma writable_mono: "writable tr n \<Longrightarrow> m \<le> n \<Longrightarrow> writable tr m"
  by (simp add: writable_def)

lemma queue_out_Nil [simp]: "queue_out [] tr = tr"
  by (simp add: queue_out_def)

lemma queue_out_simps [simp]:
  "tr_fd (queue_out bs tr) = tr_fd tr" "tr_read_buffer (queue_out bs tr) = tr_read_buffer tr"
  "tr_read_pos (queue_out bs tr) = tr_read_pos tr" "tr_read_len (queue_out bs tr) = tr_read_len tr"
  "tr_write_pos (queue_out bs tr) = tr_write_pos tr"
  "tr_write_len (queue_out bs tr) = tr_write_len tr + length bs"
  "unread (queue_out bs tr) = unread tr"
  by (simp_all add: queue_out_def unread_def)

lemma queue_out_writable:
  assumes "writable tr (length bs + n)"
  shows "writable (queue_out bs tr) n" and "unsent (queue_out bs tr) = unsent tr @ bs"
  using assms bytes_at_put_bytes_append [of 0 "tr_write_len tr" "tr_write_len tr" bs "tr_write_buffer tr"]
  by (auto simp: writable_def transport_ok_def queue_out_def unsent_def length_put_bytes)

lemma queue_out_append:
  assumes "writable tr (length xs + length ys)"
  shows "queue_out ys (queue_out xs tr) = queue_out (xs @ ys) tr"
  using assms by (simp add: queue_out_def writable_def transport_ok_def put_bytes_append)

lemma send_header_eq:
  assumes "length (tr_write_buffer tr) = 4096" and "tr_write_len tr \<le> 4096"
  shows "send_header f tr = Some (if tr_write_len tr + length (frame_header_bytes f) \<le> 4096
     then queue_out (frame_header_bytes f) tr else tr)"
  using assms
  by (auto simp: send_header_def pw_frame_serialize_header_bytes mem_simps queue_out_def)

lemma send_header_queue:
  "writable tr (length (frame_header_bytes f)) \<Longrightarrow> send_header f tr = Some (queue_out (frame_header_bytes f) tr)"
  by (simp add: send_header_eq writable_def transport_ok_def)

lemma send_bytes_queue:
  assumes "writable tr n" and "s + n \<le> length src"
  shows "send_bytes src s n tr = Some (queue_out (bytes_at src s n) tr)"
  using assms
  by (simp add: send_bytes_def writable_def transport_ok_def memcpy_Some queue_out_def length_bytes_at)

lemma consume_queue_out:
  "transport_consume (queue_out bs tr) n = queue_out bs (transport_consume tr n)"
  by (simp add: transport_consume_def queue_out_def)

lemma writable_consume:
  "writable tr k \<Longrightarrow> n \<le> tr_read_len tr \<Longrightarrow> writable (transport_consume tr n) k"
  using consume_ok [of tr n] by (auto simp: writable_def)

section \<open>Frames that have arrived\<close>

lemma frame_header_bytes_nonempty [simp]: "frame_header_bytes f \<noteq> []"
  by (simp add: frame_header_bytes_def)

lemma frame_header_bytes_received [simp]: "frame_header_bytes (frame_received f out) = frame_header_bytes f"
  by (simp add: frame_header_bytes_def frame_received_def)

lemma frame_received_simps [simp]:
  "fr_length (frame_received f out) = fr_length f" "fr_opcode (frame_received f out) = fr_opcode f"
  "fr_stream_id (frame_received f out) = fr_stream_id f"
  "fr_version (frame_received f out) = fr_version f" "fr_flags (frame_received f out) = fr_flags f"
  by (simp_all add: frame_received_def)

lemma parse_frame_dec:
  assumes "reading_ok tr"
  shows "parse_frame junk tr = Some (case frame_dec (unread tr) junk of (n, f) \<Rightarrow>
     if 0 < n \<and> size_add n (unat (fr_length f)) \<le> tr_read_len tr then Some (n, f) else None)"
proof -
  have "tr_read_pos tr + tr_read_len tr \<le> length (tr_read_buffer tr)"
    using assms by (simp add: reading_ok_def)
  from pw_frame_parse_header_dec [OF this, of junk] show ?thesis
    by (simp add: parse_frame_def unread_def split: prod.splits)
qed

lemma parse_frame_total: "reading_ok tr \<Longrightarrow> \<exists>r. parse_frame junk tr = Some r"
  by (simp add: parse_frame_dec)

lemma parse_frame_consumes:
  assumes "parse_frame junk tr = Some (Some (n, f))"
  shows "size_add n (unat (fr_length f)) \<le> tr_read_len tr"
  using assms by (auto simp: parse_frame_def split: bind_splits if_splits)

text \<open>A complete message at the front of the unread bytes is found, whatever the stack contained, and
  an incomplete one is not.\<close>

definition is_message :: "pw_frame \<Rightarrow> byte list \<Rightarrow> bool" where
  "is_message f pl \<longleftrightarrow> length pl = unat (fr_length f)"

lemma parse_frame_message:
  assumes "transport_ok tr" and "unread tr = frame_header_bytes f @ pl @ rest" and "is_message f pl"
  shows "parse_frame junk tr = Some (Some (length (frame_header_bytes f), frame_received f junk))"
    and "size_add (length (frame_header_bytes f)) (unat (fr_length f)) = length (frame_header_bytes f) + length pl"
proof -
  let ?h = "frame_header_bytes f"
  have l: "length ?h + length pl + length rest = tr_read_len tr"
    using length_unread [OF assms(1)] assms(2) by simp
  moreover have "tr_read_len tr \<le> 4096" using transport_okD(3) [OF assms(1)] by simp
  ultimately have "length ?h + length pl < 2 ^ 64" by simp
  then show s: "size_add (length ?h) (unat (fr_length f)) = length ?h + length pl"
    using assms(3) by (simp add: is_message_def size_add_small)
  have "frame_dec (unread tr) junk = (length ?h, frame_received f junk)"
    using frame_dec_header_bytes [of f "pl @ rest" junk] assms(2) by simp
  with s l length_frame_header_bytes [of f]
  show "parse_frame junk tr = Some (Some (length ?h, frame_received f junk))"
    by (simp add: parse_frame_dec assms(1))
qed

lemma parse_frame_partial:
  assumes "transport_ok tr" and "unread tr = take k (frame_header_bytes f @ pl)" and "is_message f pl"
    and "k < length (frame_header_bytes f @ pl)"
  shows "parse_frame junk tr = Some None"
proof (cases "k < length (frame_header_bytes f)")
  case True
  with assms(2) have "fst (frame_dec (unread tr) junk) = 0" by (simp add: frame_dec_truncated)
  then show ?thesis
    by (cases "frame_dec (unread tr) junk") (simp add: parse_frame_dec assms(1))
next
  case False
  let ?h = "frame_header_bytes f"
  from False assms(2) have "unread tr = ?h @ take (k - length ?h) pl" by simp
  then have d: "frame_dec (unread tr) junk = (length ?h, frame_received f junk)"
    by (simp add: frame_dec_header_bytes)
  have "tr_read_len tr = k" using length_unread [OF assms(1)] assms(2,4) by simp
  moreover have "length ?h + unat (fr_length f) < 2 ^ 64"
    using unat_u32_bound [of "fr_length f"] length_frame_header_bytes [of f] by simp
  ultimately show ?thesis
    using d assms(3,4) by (simp add: parse_frame_dec assms(1) size_add_small is_message_def)
qed

text \<open>The payload lies behind the header in the read buffer.\<close>

lemma payload_at:
  assumes "transport_ok tr" and "unread tr = h @ pl @ rest"
  shows "bytes_at (tr_read_buffer tr) (tr_read_pos tr + length h) (length pl) = pl"
    and "tr_read_pos tr + length h + length pl \<le> length (tr_read_buffer tr)"
    and "length h + length pl \<le> tr_read_len tr"
    and "unread (transport_consume tr (length h + length pl)) = rest"
proof -
  have l: "length h + length pl + length rest = tr_read_len tr"
    using length_unread [OF assms(1)] assms(2) by simp
  then show "length h + length pl \<le> tr_read_len tr" by simp
  then show "unread (transport_consume tr (length h + length pl)) = rest"
    using consume_ok(2) [OF assms(1)] assms(2) by simp
  show "tr_read_pos tr + length h + length pl \<le> length (tr_read_buffer tr)"
    using l transport_okD [OF assms(1)] by simp
  have "bytes_at (tr_read_buffer tr) (tr_read_pos tr + length h) (length pl) =
      bytes_at (unread tr) (length h) (length pl)"
    using l by (simp add: unread_def bytes_at_bytes_at)
  also have "\<dots> = pl" unfolding assms(2) by (rule bytes_at_appended) simp_all
  finally show "bytes_at (tr_read_buffer tr) (tr_read_pos tr + length h) (length pl) = pl" .
qed

lemma c_strlen_zeros: "c_strlen (bs @ replicate (Suc n) 0) \<noteq> None"
  by (induction bs) auto

lemma print_payload_ok: "s + n \<le> length src \<Longrightarrow> n < 128 \<Longrightarrow> \<exists>k. print_payload src s n = Some k"
proof -
  assume a: "s + n \<le> length src" "n < 128"
  then have "put_bytes (replicate 128 0) 0 (bytes_at src s n) = bytes_at src s n @ replicate (Suc (127 - n)) 0"
    by (simp add: put_bytes_def length_bytes_at Suc_diff_le del: replicate_Suc)
  with a c_strlen_zeros [of "bytes_at src s n" "127 - n"] show ?thesis
    by (simp add: print_payload_def mem_simps del: replicate_Suc)
qed

lemma print_payload_overflow: "128 < n \<Longrightarrow> print_payload src s n = None"
  by (simp add: print_payload_def memcpy_overflow)

section \<open>Branches that read frames\<close>

lemma size_sub_le_same: "n \<le> a \<Longrightarrow> size_sub a n \<le> a"
  by (simp add: size_sub_def)

lemma send_header_read_len: "send_header f tr = Some tr' \<Longrightarrow> tr_read_len tr' = tr_read_len tr"
  by (auto simp: send_header_def split: bind_splits)

lemma send_bytes_read_len: "send_bytes src s n tr = Some tr' \<Longrightarrow> tr_read_len tr' = tr_read_len tr"
  by (auto simp: send_bytes_def split: bind_splits)

lemma frame_branch_read_len:
  assumes "frame_branch junk act se = Some (c, se')"
    and "\<And>n f se1. act n f se = Some se1 \<Longrightarrow> tr_read_len (se_tr se1) = tr_read_len (se_tr se)"
  shows "tr_read_len (se_tr se') \<le> tr_read_len (se_tr se)"
  using assms(1) parse_frame_consumes [of junk "se_tr se"]
  by (auto simp: frame_branch_def transport_consume_def size_sub_le_same dest!: assms(2)
      split: bind_splits option.splits)

lemma frame_branch_message:
  assumes "transport_ok (se_tr se)" and "unread (se_tr se) = frame_header_bytes f @ pl @ rest" and "is_message f pl"
    and "act (length (frame_header_bytes f)) (frame_received f junk) se = Some se1"
  shows "frame_branch junk act se =
    Some (True, se1\<lparr>se_tr := transport_consume (se_tr se1) (length (frame_header_bytes f) + length pl)\<rparr>)"
  using parse_frame_message(1) [OF assms(1-3), of junk] parse_frame_message(2) [OF assms(1-3)] assms(4)
  by (simp add: frame_branch_def)

lemma frame_branch_partial:
  assumes "transport_ok (se_tr se)" and "unread (se_tr se) = take k (frame_header_bytes f @ pl)" and "is_message f pl"
    and "k < length (frame_header_bytes f @ pl)"
  shows "frame_branch junk act se = Some (False, se)"
  using parse_frame_partial [OF assms] by (simp add: frame_branch_def)

section \<open>State changes\<close>

lemma goto_state_eq:
  "goto_state s c = (if lifecycle (conn_state c) s then c\<lparr>conn_state := s\<rparr> else c)"
  by (simp add: goto_state_def transition_eq)

lemma goto_closing_early: "conn_state c < PW_STATE_READY \<Longrightarrow> goto_state PW_STATE_CLOSING c = c"
  using conn.graceful_refused [of c] by (simp add: goto_state_def)

lemma poll_write_total:
  assumes "transport_ok (se_tr se)" and "0 \<le> tr_fd (se_tr se)" and "send_ok (pe_send ev)"
  shows "\<exists>se'. poll_write ev se = Some se' \<and> transport_ok (se_tr se') \<and> tr_fd (se_tr se') = tr_fd (se_tr se) \<and>
    (state_of se' = state_of se \<or> state_of se = PW_STATE_CLOSING \<and> state_of se' = PW_STATE_CLOSED)"
  by (rule write_cases [OF assms, of "pe_errno ev"])
    (use assms(1) in \<open>auto simp: poll_write_def goto_state_eq to_closed Let_def\<close>)

text \<open>The last write of a session that is closing.\<close>

lemma poll_write_closes:
  assumes "transport_ok (se_tr se)" and "0 \<le> tr_fd (se_tr se)" and "state_of se = PW_STATE_CLOSING"
    and "\<forall>fd bs. pe_send ev fd bs = Sent (length bs) 0"
  shows "\<exists>se'. poll_write ev se = Some se' \<and> state_of se' = PW_STATE_CLOSED \<and> tr_write_len (se_tr se') = 0"
proof -
  have "send_ok (pe_send ev)" using assms(4) by (simp add: send_ok_def)
  then show ?thesis
    by (rule write_cases [OF assms(1,2), of "pe_send ev" "pe_errno ev"])
      (use assms in \<open>auto simp: poll_write_def goto_state_eq to_closed Let_def\<close>)
qed

section \<open>Sample sessions\<close>

text \<open>A transport on descriptor 3 that has received some bytes and has nothing to send, and a round of
  \<open>poll\<close> that brings nothing, with cleared locals.\<close>

definition transport_with :: "byte list \<Rightarrow> pw_transport" where
  "transport_with bs =
     \<lparr>tr_fd = 3, tr_read_buffer = bs @ replicate (4096 - length bs) 0, tr_read_pos = 0, tr_read_len = length bs,
      tr_write_buffer = replicate 4096 0, tr_write_pos = 0, tr_write_len = 0\<rparr>"

definition frame_zero :: pw_frame where
  "frame_zero = (frame_init 0 0 PW_OPCODE_CONTROL 0 0)\<lparr>fr_opcode := 0\<rparr>"

definition quiet_poll :: poll_event where
  "quiet_poll =
     \<lparr>pe_result = 0, pe_in = False, pe_out = False, pe_recv = (\<lambda>fd n. RecvFailed EAGAIN),
      pe_send = (\<lambda>fd bs. SendFailed EAGAIN), pe_errno = 0, pe_frame = (\<lambda>k. frame_zero),
      pe_client_hello = (\<lambda>k. client_hello_zero), pe_server_hello = (\<lambda>k. server_hello_zero),
      pe_request = (\<lambda>k. auth_request_zero)\<rparr>"

lemma transport_with_simps [simp]:
  "length bs \<le> 4096 \<Longrightarrow> transport_ok (transport_with bs)"
  "unread (transport_with bs) = bs" "unsent (transport_with bs) = []"
  "tr_fd (transport_with bs) = 3" "tr_write_pos (transport_with bs) = 0"
  "tr_write_len (transport_with bs) = 0" "tr_read_len (transport_with bs) = length bs"
  "length bs \<le> 4096 \<Longrightarrow> writable (transport_with bs) n \<longleftrightarrow> n \<le> 4096"
  by (simp_all add: transport_with_def transport_ok_def unread_def unsent_def writable_def bytes_at_def)

section \<open>Properties\<close>

text \<open>C22: A reply queued while an earlier one is only partly sent corrupts the stream: the code puts it at
  index \<open>write_len\<close> and not behind the unsent bytes, which start at \<open>write_pos\<close>. What the transport holds
  then, whatever position and length inside the buffer: when \<open>p\<close> bytes were sent and \<open>l\<close> are left, a reply of \<open>n\<close> bytes takes the
  place of the last \<open>p\<close> unsent bytes, and \<open>p\<close> old bytes of the buffer are sent after it. When \<open>p > l\<close> nothing is left
  of the unsent bytes, and of the reply only what is not among its first \<open>p - l\<close> bytes, so nothing of it when
  \<open>p \<ge> l + n\<close>; old bytes are sent in their place. When \<open>l + n\<close> exceeds the buffer, nothing is queued at all; when it does not but
  \<open>p + l + n\<close> does, the next write reads behind the buffer, whatever \<open>send\<close> would do. Only \<open>p = 0\<close> queues the reply
  behind the unsent bytes.\<close>

theorem reply_after_partial_send:
  assumes "transport_ok tr" and "0 \<le> tr_fd tr"
  shows "let p = tr_write_pos tr; l = tr_write_len tr; wb = tr_write_buffer tr; reply = frame_header_bytes f; n = length reply
    in \<exists>tr'. send_header f tr = Some tr' \<and>
      (if 4096 < l + n then tr' = tr
       else if p + l + n \<le> 4096
       then unsent tr' = take (l - p) (unsent tr) @ drop (p - l) reply @ bytes_at wb (max p (l + n)) (min p (l + n))
       else \<forall>send errno. pw_transport_write send errno (Some tr') = None)"
proof -
  note ok = transport_okD [OF assms(1)]
  let ?h = "frame_header_bytes f" and ?p = "tr_write_pos tr" and ?l = "tr_write_len tr" and ?wb = "tr_write_buffer tr"
  have send: "send_header f tr = Some (if ?l + length ?h \<le> 4096 then queue_out ?h tr else tr)"
    using ok by (simp add: send_header_eq)
  have "unsent (queue_out ?h tr) = take (?l - ?p) (unsent tr) @ drop (?p - ?l) ?h @
      bytes_at ?wb (max ?p (?l + length ?h)) (min ?p (?l + length ?h))"
    if fit: "?p + ?l + length ?h \<le> 4096"
  proof -
    have "unsent (queue_out ?h tr) = drop ?p (take (?p + (?l + length ?h)) (put_bytes ?wb ?l ?h))"
      by (simp add: queue_out_def unsent_def bytes_at_def take_drop add.commute)
    also have "take (?p + (?l + length ?h)) (put_bytes ?wb ?l ?h) =
        take ?l ?wb @ ?h @ take ?p (drop (?l + length ?h) ?wb)"
      using ok(2) fit by (simp add: put_bytes_def min.absorb2)
    also have "drop ?p \<dots> = drop ?p (take ?l ?wb) @ drop (?p - ?l) ?h @
        drop (?p - (?l + length ?h)) (take ?p (drop (?l + length ?h) ?wb))"
      using ok fit by simp
    also have "drop ?p (take ?l ?wb) = take (?l - ?p) (unsent tr)"
      by (simp add: unsent_def bytes_at_def drop_take min_def)
    also have "drop (?p - (?l + length ?h)) (take ?p (drop (?l + length ?h) ?wb)) =
        bytes_at ?wb (max ?p (?l + length ?h)) (min ?p (?l + length ?h))"
      by (auto simp: bytes_at_def drop_take max_def min_def)
    finally show ?thesis .
  qed
  moreover have "pw_transport_write send errno (Some (queue_out ?h tr)) = None"
    if "\<not> ?p + ?l + length ?h \<le> 4096" "?l + length ?h \<le> 4096" for send errno
  proof -
    have "length (tr_write_buffer (queue_out ?h tr)) = 4096"
      using ok(2) that(2) by (simp add: queue_out_def length_put_bytes)
    with that(1) assms(2) show ?thesis by (simp add: pw_transport_write_def)
  qed
  ultimately show ?thesis using send by (auto simp: Let_def)
qed

theorem reply_after_partial_send_witness:
  "let tr = (\<lambda>p. (transport_with [])\<lparr>tr_write_buffer := [1, 2, 3, 4, 5] @ replicate 4091 9, tr_write_pos := p, tr_write_len := 3\<rparr>);
       f = frame_init 1 0 PW_OPCODE_PONG 0 0
   in unsent (tr 2) = [3, 4, 5] \<and>
      (\<exists>tr'. send_header f (tr 2) = Some tr' \<and> unsent tr' = [3] @ frame_header_bytes f @ [9, 9]) \<and>
      (\<exists>tr'. send_header f (tr 100) = Some tr' \<and> unsent tr' = replicate 10 9) \<and>
      (\<exists>tr'. send_header f (tr 4090) = Some tr' \<and> (\<forall>send errno. pw_transport_write send errno (Some tr') = None))"
proof -
  define tr where "tr = (\<lambda>p. (transport_with [])\<lparr>tr_write_buffer := [1, 2, 3, 4, 5] @ replicate 4091 9,
    tr_write_pos := p, tr_write_len := 3\<rparr>)"
  define f where "f = frame_init 1 0 PW_OPCODE_PONG 0 0"
  have h: "frame_header_bytes f = [0x50, 0x57, 1, 0, 4, 0, 0]"
    by (simp add: f_def frame_header_bytes_def frame_init_def varint_bytes.simps word_le_nat_alt)
  have tr: "transport_ok (tr p)" "tr_write_pos (tr p) = p" "tr_write_len (tr p) = 3" "0 \<le> tr_fd (tr p)" if "p \<le> 4093" for p
    using that by (simp_all add: tr_def transport_with_def transport_ok_def)
  have u: "unsent (tr 2) = [3, 4, 5]"
    by (simp add: tr_def transport_with_def unsent_def bytes_at_def)
  have "bytes_at (tr_write_buffer (tr 2)) 10 2 = [9, 9]" "bytes_at (tr_write_buffer (tr 100)) 100 10 = replicate 10 9"
    by (simp_all add: tr_def bytes_at_def numeral_2_eq_2)
  with u tr(2-4) [of 2] tr(2-4) [of 100] tr(2-4) [of 4090]
    reply_after_partial_send [OF tr(1) tr(4), of 2 f] reply_after_partial_send [OF tr(1) tr(4), of 100 f]
    reply_after_partial_send [OF tr(1) tr(4), of 4090 f]
  show ?thesis unfolding tr_def [symmetric] f_def [symmetric] Let_def by (simp add: h)
qed

end
