(* ===== verification/PW_Pipeline.thy ===== *)
theory PW_Pipeline
  imports PW_Session
begin

text \<open>
  A ready session that gets many frames at once. The locale \<open>pipeline\<close> is the contract of the inner loop of a program that
  answers frames one by one: which messages it serves, and with what bytes. The server, the client and the thread of the
  integration tests are its interpretations.
\<close>

locale pipeline =
  fixes step :: "poll_event \<Rightarrow> session \<Rightarrow> (bool \<times> session) option"
    and loop :: "poll_event \<Rightarrow> session \<Rightarrow> session option"
    and serves :: "pw_frame \<times> byte list \<Rightarrow> bool"
    and answer :: "pw_frame \<times> byte list \<Rightarrow> byte list"
  assumes loop_step: "step ev se = Some (True, se') \<Longrightarrow> tr_read_len (se_tr se') < tr_read_len (se_tr se) \<Longrightarrow>
      loop ev se = loop ev se'"
    and loop_stop: "step ev se = Some (False, se') \<Longrightarrow> loop ev se = Some (if tr_read_len (se_tr se) = 0 then se else se')"
    and step_serves: "state_of se = PW_STATE_READY \<Longrightarrow> writable (se_tr se) (length (answer (f, pl))) \<Longrightarrow>
      unread (se_tr se) = frame_header_bytes f @ pl @ rest \<Longrightarrow> serves (f, pl) \<Longrightarrow>
      step ev se = Some (True, se\<lparr>se_tr := queue_out (answer (f, pl))
        (transport_consume (se_tr se) (length (frame_header_bytes f) + length pl))\<rparr>)"
    and step_waits: "state_of se = PW_STATE_READY \<Longrightarrow> transport_ok (se_tr se) \<Longrightarrow>
      unread (se_tr se) = take k (frame_header_bytes f @ pl) \<Longrightarrow> is_message f pl \<Longrightarrow>
      k < length (frame_header_bytes f @ pl) \<Longrightarrow> step ev se = Some (False, se)"
begin

text \<open>Complete messages are taken off the buffer and answered in order; a started one at the end is left.\<close>

lemma ready_loop:
  assumes "state_of se = PW_STATE_READY"
    and "writable (se_tr se) (length (concat (map answer ms)))"
    and "unread (se_tr se) = concat (map (msg_enc frame_header_bytes) ms) @ take k (msg_enc frame_header_bytes m)"
    and "\<forall>m \<in> set ms. serves m" and "is_message (fst m) (snd m)" and "k < length (msg_enc frame_header_bytes m)"
  shows "\<exists>tr'. loop ev se = Some (se\<lparr>se_tr := tr'\<rparr>) \<and> transport_ok tr' \<and>
    unread tr' = take k (msg_enc frame_header_bytes m) \<and>
    unsent tr' = unsent (se_tr se) @ concat (map answer ms) \<and>
    tr_fd tr' = tr_fd (se_tr se) \<and> tr_write_pos tr' = 0"
  using assms(1-4)
proof (induction ms arbitrary: se)
  case Nil
  from Nil.prems(2) have ok: "transport_ok (se_tr se)" "tr_write_pos (se_tr se) = 0" by (simp_all add: writable_def)
  with Nil.prems assms(5,6) have "step ev se = Some (False, se)"
    using step_waits [OF Nil.prems(1) ok(1), of k "fst m" "snd m"] by (simp add: msg_enc_def)
  from loop_stop [OF this] ok Nil.prems(3) show ?case by (auto intro: exI [of _ "se_tr se"])
next
  case (Cons m1 ms)
  obtain f pl where m1: "m1 = (f, pl)" by (cases m1)
  define rest where "rest = concat (map (msg_enc frame_header_bytes) ms) @ take k (msg_enc frame_header_bytes m)"
  let ?n = "length (frame_header_bytes f) + length pl" and ?a = "answer (f, pl)"
  let ?se' = "se\<lparr>se_tr := queue_out ?a (transport_consume (se_tr se) ?n)\<rparr>"
  from Cons.prems(2) have w: "writable (se_tr se) (length ?a + length (concat (map answer ms)))"
    by (simp add: m1)
  then have ok: "transport_ok (se_tr se)" by (simp add: writable_def)
  have u: "unread (se_tr se) = frame_header_bytes f @ pl @ rest"
    using Cons.prems(3) by (simp add: m1 rest_def) (simp add: msg_enc_def [of _ "(f, pl)"])
  note pay = payload_at [OF ok u]
  from Cons.prems(4) have "serves (f, pl)" by (simp add: m1)
  with step_serves [OF Cons.prems(1) _ u] writable_mono [OF w]
  have "step ev se = Some (True, ?se')" by simp
  moreover have "tr_read_len (transport_consume (se_tr se) ?n) = tr_read_len (se_tr se) - ?n"
    using consume_ok(3) [OF ok pay(3)] .
  moreover have "tr_read_len (se_tr se) - ?n < tr_read_len (se_tr se)"
    using pay(3) length_frame_header_bytes [of f] by linarith
  ultimately have loop: "loop ev se = loop ev ?se'"
    by (intro loop_step) simp_all
  have w': "writable (transport_consume (se_tr se) ?n) (length ?a + length (concat (map answer ms)))"
    using w pay(3) by (rule writable_consume)
  have "\<exists>tr'. loop ev ?se' = Some (?se'\<lparr>se_tr := tr'\<rparr>) \<and> transport_ok tr' \<and>
      unread tr' = take k (msg_enc frame_header_bytes m) \<and>
      unsent tr' = unsent (se_tr ?se') @ concat (map answer ms) \<and>
      tr_fd tr' = tr_fd (se_tr ?se') \<and> tr_write_pos tr' = 0"
    by (rule Cons.IH) (use Cons.prems queue_out_writable(1) [OF w'] pay(4) in \<open>simp_all add: rest_def\<close>)
  moreover have "tr_fd (transport_consume (se_tr se) ?n) = tr_fd (se_tr se)"
    by (simp add: transport_consume_def)
  ultimately show ?case
    using loop queue_out_writable(2) [OF w'] consume_ok(5) [OF ok pay(3)] by (simp add: m1)
qed

end

end
