(* ===== verification/PW_Server.thy ===== *)
theory PW_Server
  imports PW_Pipeline
begin

text \<open>
  The session of the daemon, \<open>native/src/server_main.c\<close>: what it does with a connection it has
  accepted, one definition per branch of its loop. A branch answers whether the inner loop goes on
  and with which session; \<open>None\<close> is an access out of bounds. The sockets are set up outside of the
  model, and the lines that are printed are in PW_Output; here is what memory is read for them.
\<close>

section \<open>The code\<close>

text \<open>An accepted connection; the transport is uninitialised before, and the answer of the transition
  is ignored.\<close>

definition server_accept ::
  "(int \<Rightarrow> fcntl_cmd \<Rightarrow> 'w \<Rightarrow> int \<times> 'w) \<Rightarrow> pw_transport \<Rightarrow> pw_connection \<Rightarrow> int \<Rightarrow> 'w \<Rightarrow> session option" where
  "server_accept fcntl junk_tr junk_conn client_fd w = do {
     tr \<leftarrow> fst (pw_transport_init fcntl (Some junk_tr) client_fd w);
     conn \<leftarrow> pw_connection_init (Some junk_conn);
     Some \<lparr>se_conn = goto_state PW_STATE_HANDSHAKING conn, se_tr = tr\<rparr>
   }"

text \<open>The reply to a client hello, before the version is looked at.\<close>

definition server_hello_for :: "pw_client_hello \<Rightarrow> pw_server_hello option" where
  "server_hello_for ch = do {
     accepted \<leftarrow> (if ch_has_resume_token ch
                 then do { b \<leftarrow> rd (ch_resume_session_id ch) 0; Some (b \<noteq> 0x99) }
                 else Some False);
     Some \<lparr>sh_magic = (PW_MAGIC_BYTE_1, PW_MAGIC_BYTE_2), sh_version = PW_VERSION_1,
           sh_capabilities = ch_capabilities ch, sh_server_nonce = replicate 16 0,
           sh_session_id = replicate 16 0, sh_status = 0, sh_resume_accepted = accepted\<rparr>
   }"

definition server_handshaking :: "pw_client_hello \<Rightarrow> session \<Rightarrow> (bool \<times> session) option" where
  "server_handshaking junk se = do {
     let tr = se_tr se;
     (parsed, ch) \<leftarrow> pw_handshake_parse_client_hello (tr_read_buffer tr) (tr_read_pos tr) (tr_read_len tr) junk;
     if 0 < parsed
     then do {
       let tr = transport_consume tr parsed;
       sh \<leftarrow> server_hello_for ch;
       let (conn, sh) =
         (if ch_version ch \<noteq> PW_VERSION_1
          then (goto_state PW_STATE_CLOSING (se_conn se),
                sh\<lparr>sh_status := PW_ERR_PROTOCOL_ERROR, sh_resume_accepted := False\<rparr>)
          else (goto_state PW_STATE_AUTHENTICATING (se_conn se), sh));
       (written, wb) \<leftarrow> pw_handshake_serialize_server_hello sh (tr_write_buffer tr) (tr_write_len tr)
                          (size_sub PW_BUFFER_SIZE (tr_write_len tr));
       Some (True, \<lparr>se_conn = conn, se_tr = tr\<lparr>tr_write_buffer := wb, tr_write_len := tr_write_len tr + written\<rparr>\<rparr>)
     }
     else Some (False, se)
   }"

text \<open>The frames that the server makes itself.\<close>

definition server_reply :: "pw_opcode \<Rightarrow> u32 \<Rightarrow> pw_frame" where
  "server_reply opc stream_id = frame_init PW_VERSION_1 PW_FLAG_FIN opc stream_id 0"

definition server_auth_frame :: "pw_auth_request \<Rightarrow> nat \<Rightarrow> pw_frame \<Rightarrow> session \<Rightarrow> session option" where
  "server_auth_frame junk parsed frame se =
     (if fr_opcode frame = opcode_byte PW_OPCODE_AUTH
      then do {
        (k, req) \<leftarrow> pw_auth_parse_request (tr_read_buffer (se_tr se)) (tr_read_pos (se_tr se) + parsed)
                      (unat (fr_length frame)) junk;
        if k \<noteq> 0
        then do {
          ok \<leftarrow> pw_auth_validate_bearer (Some req) (Some (secret_token @ [0]));
          if ok
          then do {
            tr \<leftarrow> send_header (server_reply PW_OPCODE_AUTH_OK 0) (se_tr se);
            Some \<lparr>se_conn = goto_state PW_STATE_READY (se_conn se), se_tr = tr\<rparr>
          }
          else Some (se\<lparr>se_conn := goto_state PW_STATE_CLOSING (se_conn se)\<rparr>)
        }
        else Some se
      }
      else Some se)"

definition server_ready_frame :: "nat \<Rightarrow> pw_frame \<Rightarrow> session \<Rightarrow> session option" where
  "server_ready_frame parsed frame se =
     (let tr = se_tr se; payload = tr_read_pos tr + parsed
      in if fr_opcode frame = opcode_byte PW_OPCODE_DATA_BINARY \<or> fr_opcode frame = opcode_byte PW_OPCODE_DATA_TEXT
      then do {
        _ \<leftarrow> print_payload (tr_read_buffer tr) payload (unat (fr_length frame));
        tr \<leftarrow> send_header frame tr;
        tr \<leftarrow> send_bytes (tr_read_buffer tr) payload (unat (fr_length frame)) tr;
        Some (se\<lparr>se_tr := tr\<rparr>)
      }
      else if fr_opcode frame = opcode_byte PW_OPCODE_PING
      then do {
        tr \<leftarrow> send_header (server_reply PW_OPCODE_PONG (fr_stream_id frame)) tr;
        Some (se\<lparr>se_tr := tr\<rparr>)
      }
      else if fr_opcode frame = opcode_byte PW_OPCODE_CLOSE
      then do {
        tr \<leftarrow> send_header (server_reply PW_OPCODE_CLOSE 0) tr;
        Some \<lparr>se_conn = goto_state PW_STATE_CLOSING (se_conn se), se_tr = tr\<rparr>
      }
      else Some se)"

text \<open>One turn of the inner loop, and the loop: it ends when nothing is unread, when a branch breaks
  out of it, and when a turn has consumed nothing.\<close>

definition server_step :: "poll_event \<Rightarrow> session \<Rightarrow> (bool \<times> session) option" where
  "server_step ev se =
     (let k = tr_read_len (se_tr se)
      in case state_of se of
           PW_STATE_HANDSHAKING \<Rightarrow> server_handshaking (pe_client_hello ev k) se
         | PW_STATE_AUTHENTICATING \<Rightarrow> frame_branch (pe_frame ev k) (server_auth_frame (pe_request ev k)) se
         | PW_STATE_READY \<Rightarrow> frame_branch (pe_frame ev k) server_ready_frame se
         | _ \<Rightarrow> Some (False, se))"

lemma parse_client_hello_bound:
  "pw_handshake_parse_client_hello buf p m h = Some (n, h') \<Longrightarrow> n \<le> m"
  by (auto simp: pw_handshake_parse_client_hello_def Let_def split: if_splits bind_splits)

lemma server_act_read_len:
  "server_auth_frame junk n f se = Some se' \<Longrightarrow> tr_read_len (se_tr se') = tr_read_len (se_tr se)"
  "server_ready_frame n f se = Some se' \<Longrightarrow> tr_read_len (se_tr se') = tr_read_len (se_tr se)"
  by (auto simp: server_auth_frame_def server_ready_frame_def Let_def split: if_splits bind_splits
      dest!: send_header_read_len send_bytes_read_len)

lemma server_step_read_len:
  assumes "server_step ev se = Some (c, se')"
  shows "tr_read_len (se_tr se') \<le> tr_read_len (se_tr se)"
proof (cases "state_of se")
  case PW_STATE_HANDSHAKING
  with assms show ?thesis
    by (auto simp: server_step_def server_handshaking_def Let_def transport_consume_def
        split: bind_splits if_splits)
      (rule size_sub_le_same, erule parse_client_hello_bound)+
next
  case PW_STATE_AUTHENTICATING
  with assms show ?thesis
    by (auto simp: server_step_def Let_def intro: frame_branch_read_len server_act_read_len(1))
next
  case PW_STATE_READY
  with assms show ?thesis
    by (auto simp: server_step_def Let_def intro: frame_branch_read_len server_act_read_len(2))
qed (use assms in \<open>auto simp: server_step_def\<close>)

function server_read_loop :: "poll_event \<Rightarrow> session \<Rightarrow> session option" where
  "server_read_loop ev se =
     (if tr_read_len (se_tr se) = 0 then Some se
      else case server_step ev se of
             None \<Rightarrow> None
           | Some (go_on, se') \<Rightarrow>
               if go_on \<and> tr_read_len (se_tr se') \<noteq> tr_read_len (se_tr se)
               then server_read_loop ev se' else Some se')"
  by pat_completeness auto
termination
  by (relation "measure (\<lambda>(ev, se). tr_read_len (se_tr se))")
    (auto dest: server_step_read_len intro: le_neq_implies_less)

declare server_read_loop.simps [simp del]

text \<open>One round of the outer loop. \<open>POLLOUT\<close> is asked for only with something to write, and \<open>poll\<close>
  reports only what it is asked for.\<close>

definition server_round :: "poll_event \<Rightarrow> session \<Rightarrow> (bool \<times> session) option" where
  "server_round ev se =
     (let pollout = pe_out ev \<and> 0 < tr_write_len (se_tr se)
      in if pe_result ev < 0 then Some (False, se)
      else do {
        (go_on, se) \<leftarrow>
          (if pe_in ev
           then do {
             (r, errno, t) \<leftarrow> pw_transport_read (pe_recv ev) (pe_errno ev) (Some (se_tr se));
             tr \<leftarrow> t;
             if r \<le> 0 \<and> errno \<noteq> EAGAIN \<and> errno \<noteq> EWOULDBLOCK then Some (False, se\<lparr>se_tr := tr\<rparr>)
             else do {
               se \<leftarrow> server_read_loop ev (se\<lparr>se_tr := tr\<rparr>);
               Some (True, se)
             }
           }
           else Some (True, se));
        if \<not> go_on then Some (False, se)
        else if pollout
        then do {
          se \<leftarrow> poll_write ev se;
          Some (True, se)
        }
        else Some (True, se)
      })"

text \<open>The outer loop over the rounds that \<open>poll\<close> brings, as long as there are any.\<close>

fun server_session :: "poll_event list \<Rightarrow> session \<Rightarrow> session option" where
  "server_session [] se = Some se"
| "server_session (ev # evs) se =
     (if state_of se = PW_STATE_CLOSED \<or> state_of se = PW_STATE_DISCONNECTED then Some se
      else case server_round ev se of
             None \<Rightarrow> None
           | Some (go_on, se') \<Rightarrow> if go_on then server_session evs se' else Some se')"

section \<open>A ready server\<close>

text \<open>What a ready server answers to a frame that is not a CLOSE: a data frame is echoed, a ping is
  answered with a pong on its stream, everything else is dropped.\<close>

definition is_data :: "pw_frame \<Rightarrow> bool" where
  "is_data f \<longleftrightarrow> fr_opcode f = opcode_byte PW_OPCODE_DATA_BINARY \<or> fr_opcode f = opcode_byte PW_OPCODE_DATA_TEXT"

definition server_answer :: "pw_frame \<times> byte list \<Rightarrow> byte list" where
  "server_answer m =
     (if is_data (fst m) then frame_header_bytes (fst m) @ snd m
      else if fr_opcode (fst m) = opcode_byte PW_OPCODE_PING
      then frame_header_bytes (server_reply PW_OPCODE_PONG (fr_stream_id (fst m)))
      else [])"

definition served :: "pw_frame \<times> byte list \<Rightarrow> bool" where
  "served m \<longleftrightarrow> is_message (fst m) (snd m) \<and> fr_opcode (fst m) \<noteq> opcode_byte PW_OPCODE_CLOSE \<and>
     (is_data (fst m) \<longrightarrow> length (snd m) < 128)"

lemma server_ready_act:
  assumes "writable (se_tr se) (length (server_answer (f, pl)))"
    and "unread (se_tr se) = frame_header_bytes f @ pl @ rest" and "served (f, pl)"
  shows "server_ready_frame (length (frame_header_bytes f)) (frame_received f junk) se =
    Some (se\<lparr>se_tr := queue_out (server_answer (f, pl)) (se_tr se)\<rparr>)"
proof -
  let ?tr = "se_tr se" and ?h = "frame_header_bytes f"
  from assms(1) have ok: "transport_ok ?tr" by (simp add: writable_def)
  note pay = payload_at [OF ok assms(2)]
  from assms(3) have len: "unat (fr_length f) = length pl" and m: "is_message f pl"
    by (simp_all add: served_def is_message_def)
  show ?thesis
  proof (cases "is_data f")
    case True
    with assms(3) have "length pl < 128" by (simp add: served_def)
    with pay(2) obtain k where k: "print_payload (tr_read_buffer ?tr) (tr_read_pos ?tr + length ?h) (length pl) = Some k"
      using print_payload_ok by blast
    from True assms(1) have w: "writable ?tr (length ?h + length pl)"
      by (simp add: server_answer_def)
    then have h: "send_header (frame_received f junk) ?tr = Some (queue_out ?h ?tr)"
      using send_header_queue [of ?tr "frame_received f junk"] writable_mono [OF w, of "length ?h"] by simp
    have "send_bytes (tr_read_buffer ?tr) (tr_read_pos ?tr + length ?h) (length pl) (queue_out ?h ?tr) =
        Some (queue_out pl (queue_out ?h ?tr))"
      using send_bytes_queue [OF queue_out_writable(1) [OF w] pay(2)] pay(1) by simp
    with True k h len queue_out_append [OF w] show ?thesis
      by (simp add: server_ready_frame_def Let_def is_data_def server_answer_def)
  next
    case False
    show ?thesis
    proof (cases "fr_opcode f = opcode_byte PW_OPCODE_PING")
      case True
      with False assms(1) send_header_queue [of ?tr "server_reply PW_OPCODE_PONG (fr_stream_id f)"]
      show ?thesis by (simp add: server_ready_frame_def Let_def is_data_def server_answer_def)
    next
      case ping: False
      with False assms(3) show ?thesis
        by (simp add: server_ready_frame_def Let_def is_data_def server_answer_def served_def)
    qed
  qed
qed

lemma server_ready_step:
  assumes "state_of se = PW_STATE_READY" and "writable (se_tr se) (length (server_answer (f, pl)))"
    and "unread (se_tr se) = frame_header_bytes f @ pl @ rest" and "served (f, pl)"
  shows "server_step ev se = Some (True, se\<lparr>se_tr := queue_out (server_answer (f, pl))
    (transport_consume (se_tr se) (length (frame_header_bytes f) + length pl))\<rparr>)"
proof -
  from assms(2) have ok: "transport_ok (se_tr se)" by (simp add: writable_def)
  from assms(4) have "is_message f pl" by (simp add: served_def)
  note frame_branch_message [OF ok assms(3) this, where act = server_ready_frame,
    OF server_ready_act [OF assms(2-4)]]
  with assms(1) show ?thesis by (simp add: server_step_def Let_def consume_queue_out)
qed

lemma read_loop_step:
  assumes "server_step ev se = Some (True, se')" and "tr_read_len (se_tr se') < tr_read_len (se_tr se)"
  shows "server_read_loop ev se = server_read_loop ev se'"
  using assms by (simp add: server_read_loop.simps [of ev se])

lemma read_loop_stop:
  assumes "server_step ev se = Some (False, se')"
  shows "server_read_loop ev se = Some (if tr_read_len (se_tr se) = 0 then se else se')"
  using assms by (simp add: server_read_loop.simps [of ev se])

interpretation server_pipe: pipeline server_step server_read_loop served server_answer
proof unfold_locales
  fix se :: session and f :: pw_frame and pl :: "byte list" and k :: nat and ev :: poll_event
  assume "state_of se = PW_STATE_READY" and "transport_ok (se_tr se)" and "unread (se_tr se) = take k (frame_header_bytes f @ pl)"
    and "is_message f pl" and "k < length (frame_header_bytes f @ pl)"
  then show "server_step ev se = Some (False, se)"
    using frame_branch_partial [of se k f pl] by (simp add: server_step_def Let_def)
qed (rule read_loop_step read_loop_stop server_ready_step; assumption)+

section \<open>The handshake and the authentication\<close>

definition hello_answer :: "pw_client_hello \<Rightarrow> pw_server_hello" where
  "hello_answer h =
     \<lparr>sh_magic = (0x50, 0x57), sh_version = 1, sh_capabilities = client_hello_caps h,
      sh_server_nonce = replicate 16 0, sh_session_id = replicate 16 0,
      sh_status = (if ch_version h = 1 then 0 else 1002),
      sh_resume_accepted = (ch_version h = 1 \<and> ch_has_resume_token h \<and> ch_resume_session_id h ! 0 \<noteq> 0x99)\<rparr>"

lemma hello_answer_wf [simp]: "server_hello_wf (hello_answer h)"
  by (simp add: hello_answer_def server_hello_wf_def)

lemma server_hello_for_received:
  assumes "client_hello_wf h"
  shows "server_hello_for (client_hello_received h out) = Some (hello_answer h
    \<lparr>sh_status := 0, sh_resume_accepted := ch_has_resume_token h \<and> ch_resume_session_id h ! 0 \<noteq> 0x99\<rparr>)"
  using assms
  by (simp add: server_hello_for_def client_hello_received_def hello_answer_def client_hello_wf_def mem_simps)

text \<open>The turn for the hello that the parser has read, and the turn without one.\<close>

lemma server_parses_hello:
  assumes "transport_ok tr" and "client_hello_wf junk"
  shows "pw_handshake_parse_client_hello (tr_read_buffer tr) (tr_read_pos tr) (tr_read_len tr) junk =
    Some (client_hello_dec (unread tr) junk)"
  using parse_client_hello_dec [of "tr_read_pos tr" "tr_read_len tr" "tr_read_buffer tr" junk] assms transport_okD [OF assms(1)]
  by (simp add: unread_def)

lemma server_handshake_waits:
  assumes "state_of se = PW_STATE_HANDSHAKING" and "transport_ok (se_tr se)"
    and "client_hello_wf (pe_client_hello ev (tr_read_len (se_tr se)))"
    and "fst (client_hello_dec (unread (se_tr se)) (pe_client_hello ev (tr_read_len (se_tr se)))) = 0"
  shows "server_step ev se = Some (False, se)"
  using assms(1,4) server_parses_hello [OF assms(2,3)]
  by (auto simp: server_step_def server_handshaking_def Let_def split: prod.splits)

lemma server_handshake_parsed:
  assumes "state_of se = PW_STATE_HANDSHAKING" and "writable (se_tr se) 42"
    and "client_hello_wf (pe_client_hello ev (tr_read_len (se_tr se)))"
    and "client_hello_dec (unread (se_tr se)) (pe_client_hello ev (tr_read_len (se_tr se))) = (n, g)" and "0 < n"
    and "server_hello_for g = Some sh"
    and "a = (if ch_version g = 1 then sh else sh\<lparr>sh_status := 1002, sh_resume_accepted := False\<rparr>)"
    and "server_hello_wf a"
  shows "server_step ev se = Some (True,
    \<lparr>se_conn = (se_conn se)\<lparr>conn_state := if ch_version g = 1 then PW_STATE_AUTHENTICATING else PW_STATE_HANDSHAKING\<rparr>,
     se_tr = queue_out (server_hello_bytes a) (transport_consume (se_tr se) n)\<rparr>)"
proof -
  let ?tr = "se_tr se" and ?tr' = "transport_consume (se_tr se) n"
  from assms(2) have ok: "transport_ok ?tr" by (simp add: writable_def)
  from assms(4) have "n \<le> tr_read_len ?tr" using client_hello_dec_consumed length_unread [OF ok] by metis
  with assms(2) have w: "writable ?tr' 42" by (rule writable_consume)
  then have ser: "pw_handshake_serialize_server_hello a (tr_write_buffer ?tr') (tr_write_len ?tr')
      (size_sub 4096 (tr_write_len ?tr')) =
      Some (42, put_bytes (tr_write_buffer ?tr') (tr_write_len ?tr') (server_hello_bytes a))"
    using assms(8) by (subst serialize_server_hello_bytes) (auto simp: writable_def transport_ok_def mem_simps)
  have q: "queue_out (server_hello_bytes a) ?tr' = ?tr'
      \<lparr>tr_write_buffer := put_bytes (tr_write_buffer ?tr') (tr_write_len ?tr') (server_hello_bytes a),
       tr_write_len := tr_write_len ?tr' + 42\<rparr>"
    using assms(8) by (simp add: queue_out_def length_server_hello_bytes)
  have c: "goto_state PW_STATE_AUTHENTICATING (se_conn se) = (se_conn se)\<lparr>conn_state := PW_STATE_AUTHENTICATING\<rparr>"
    "goto_state PW_STATE_CLOSING (se_conn se) = (se_conn se)\<lparr>conn_state := PW_STATE_HANDSHAKING\<rparr>"
    using assms(1) by (simp_all add: goto_state_eq lifecycle.simps)
  note parse = server_parses_hello [OF ok assms(3), unfolded assms(4)]
  show ?thesis
    using assms(1,5-7) parse ser q c
    by (cases "ch_version g = 1") (simp_all add: server_step_def server_handshaking_def Let_def)
qed

lemma server_handshake_step:
  assumes "state_of se = PW_STATE_HANDSHAKING" and "client_hello_wf h" and "writable (se_tr se) 42"
    and "client_hello_wf (pe_client_hello ev (tr_read_len (se_tr se)))"
    and "unread (se_tr se) = client_hello_bytes h @ rest"
  shows "server_step ev se = Some (True,
    \<lparr>se_conn = (se_conn se)\<lparr>conn_state := if ch_version h = 1 then PW_STATE_AUTHENTICATING else PW_STATE_HANDSHAKING\<rparr>,
     se_tr = queue_out (server_hello_bytes (hello_answer h))
       (transport_consume (se_tr se) (length (client_hello_bytes h)))\<rparr>)"
proof -
  let ?g = "client_hello_received h (pe_client_hello ev (tr_read_len (se_tr se)))"
  have v: "ch_version ?g = ch_version h" by (simp add: client_hello_received_def)
  have d: "client_hello_dec (unread (se_tr se)) (pe_client_hello ev (tr_read_len (se_tr se))) =
      (length (client_hello_bytes h), ?g)" "0 < length (client_hello_bytes h)"
    using assms(5) length_client_hello_bytes [OF assms(2)] by (simp_all add: client_hello_dec_bytes [OF assms(2)])
  let ?sh = "hello_answer h\<lparr>sh_status := 0,
    sh_resume_accepted := ch_has_resume_token h \<and> ch_resume_session_id h ! 0 \<noteq> 0x99\<rparr>"
  have "hello_answer h = (if ch_version ?g = 1 then ?sh else ?sh\<lparr>sh_status := 1002, sh_resume_accepted := False\<rparr>)"
    by (simp add: v hello_answer_def)
  from server_handshake_parsed [OF assms(1,3,4) d server_hello_for_received [OF assms(2)] this hello_answer_wf]
  show ?thesis by (simp only: v)
qed

lemma secret_token_ok: "0 \<notin> set secret_token" "length secret_token < 2 ^ 32" "length secret_token = 12"
  by (simp_all add: secret_token_def)

lemma server_auth_step:
  assumes "state_of se = PW_STATE_AUTHENTICATING" and "writable (se_tr se) 15"
    and "unread (se_tr se) = frame_header_bytes f @ pl @ rest" and "is_message f pl"
    and "fr_opcode f = opcode_byte PW_OPCODE_AUTH"
  shows "server_step ev se = Some (True,
    (let tr = transport_consume (se_tr se) (length (frame_header_bytes f) + length pl)
     in if grants secret_token pl
        then \<lparr>se_conn = (se_conn se)\<lparr>conn_state := PW_STATE_READY\<rparr>,
              se_tr = queue_out (frame_header_bytes (server_reply PW_OPCODE_AUTH_OK 0)) tr\<rparr>
        else se\<lparr>se_tr := tr\<rparr>))"
proof -
  let ?tr = "se_tr se" and ?h = "frame_header_bytes f" and ?k = "tr_read_len (se_tr se)"
  let ?f = "frame_received f (pe_frame ev ?k)" and ?ok = "frame_header_bytes (server_reply PW_OPCODE_AUTH_OK 0)"
  from assms(2) have ok: "transport_ok ?tr" by (simp add: writable_def)
  note pay = payload_at [OF ok assms(3)]
  have m: "unat (fr_length f) = length pl" using assms(4) by (simp add: is_message_def)
  from parse_then_validate [OF pay(2) secret_token_ok(1,2), of "pe_request ev ?k" "[]"] pay(1)
  obtain k r where parse: "pw_auth_parse_request (tr_read_buffer ?tr) (tr_read_pos ?tr + length ?h) (length pl)
        (pe_request ev ?k) = Some (k, r)"
    and k0: "k = 0 \<Longrightarrow> \<not> grants secret_token pl"
    and k1: "k \<noteq> 0 \<Longrightarrow> pw_auth_validate_bearer (Some r) (Some (secret_token @ [0])) = Some (grants secret_token pl)"
    by auto
  have send: "send_header (server_reply PW_OPCODE_AUTH_OK 0) ?tr = Some (queue_out ?ok ?tr)"
    using writable_mono [OF assms(2)] length_frame_header_bytes [of "server_reply PW_OPCODE_AUTH_OK 0"]
    by (intro send_header_queue) simp
  have c: "goto_state PW_STATE_READY (se_conn se) = (se_conn se)\<lparr>conn_state := PW_STATE_READY\<rparr>"
    using assms(1) by (simp add: goto_state_eq lifecycle.simps)
  have closing: "goto_state PW_STATE_CLOSING (se_conn se) = se_conn se"
    using assms(1) by (intro goto_closing_early) (simp add: less_pw_connection_state_def)
  let ?se1 = "if grants secret_token pl
    then \<lparr>se_conn = (se_conn se)\<lparr>conn_state := PW_STATE_READY\<rparr>, se_tr = queue_out ?ok ?tr\<rparr> else se"
  have "server_auth_frame (pe_request ev ?k) (length ?h) ?f se = Some ?se1"
    using assms(5) parse k0 k1 m send c closing by (cases "k = 0") (auto simp: server_auth_frame_def)
  from frame_branch_message [OF ok assms(3,4), where act = "server_auth_frame (pe_request ev ?k)", OF this] assms(1)
  show ?thesis by (simp add: server_step_def Let_def consume_queue_out)
qed

text \<open>No other step makes a session ready, whatever bytes have arrived.\<close>

lemma parse_request_reads:
  "pw_auth_parse_request buf p m out = Some (k, r) \<Longrightarrow> k \<noteq> 0 \<Longrightarrow> p < length buf"
  by (auto simp: pw_auth_parse_request_def rd_def split: if_splits bind_splits)

lemma server_auth_frame_ready:
  assumes "reading_ok (se_tr se)" and "parse_frame junk (se_tr se) = Some (Some (n, f))"
    and "server_auth_frame req n f se = Some se'" and "state_of se \<noteq> PW_STATE_READY" and "state_of se' = PW_STATE_READY"
  shows "fr_opcode f = opcode_byte PW_OPCODE_AUTH \<and> n + 17 \<le> tr_read_len (se_tr se) \<and>
    bytes_at (tr_read_buffer (se_tr se)) (tr_read_pos (se_tr se) + n) 17 = auth_bytes (PW_AUTH_METHOD_BEARER, secret_token)"
proof -
  let ?tr = "se_tr se"
  let ?buf = "tr_read_buffer ?tr" and ?p = "tr_read_pos ?tr + n" and ?m = "unat (fr_length f)"
  have ok: "length ?buf = 4096" "tr_read_pos ?tr + tr_read_len ?tr \<le> 4096" using assms(1) by (simp_all add: reading_ok_def)
  from assms(3-5) obtain k r where op: "fr_opcode f = opcode_byte PW_OPCODE_AUTH"
    and parse: "pw_auth_parse_request ?buf ?p ?m req = Some (k, r)" and k: "k \<noteq> 0"
    and valid: "pw_auth_validate_bearer (Some r) (Some (secret_token @ [0])) = Some True"
    by (auto simp: server_auth_frame_def goto_state_eq lifecycle.simps split: if_splits bind_splits)
  obtain g where fd: "frame_dec (unread ?tr) junk = (n, g)" and "g = f"
    using assms(1,2) by (auto simp: parse_frame_dec split: prod.splits if_splits)
  have "?p < 4096" using parse_request_reads [OF parse k] ok by simp
  then have "n \<noteq> SIZE_MAX" by (auto simp: SIZE_MAX_def)
  then have "n \<le> 15" using frame_dec_consumed [OF fd] by simp
  then have "size_add n ?m = n + ?m"
    using unat_u32_bound [of "fr_length f"] by (intro size_add_small) simp
  then have nm: "n + ?m \<le> tr_read_len ?tr" using parse_frame_consumes [OF assms(2)] by simp
  then have "?p + ?m \<le> length ?buf" using ok by simp
  from parse_then_validate [OF this secret_token_ok(1,2), of req "[]"] parse k valid
  have "grants secret_token (bytes_at ?buf ?p ?m)" by auto
  then have g: "take 17 (bytes_at ?buf ?p ?m) = auth_bytes (PW_AUTH_METHOD_BEARER, secret_token)"
    by (simp add: grants_def secret_token_ok(3))
  have "length (take 17 (bytes_at ?buf ?p ?m)) = 17"
    unfolding g by (simp add: length_auth_bytes secret_token_ok(3))
  then have "17 \<le> ?m"
    using length_bytes_at_le [of ?buf ?p ?m] by simp
  with g op nm show ?thesis by (simp add: take_bytes_at)
qed

lemma frame_dec_bad_magic:
  assumes "5 \<le> length bs" and "bs ! 0 \<noteq> PW_MAGIC_BYTE_1 \<or> bs ! 1 \<noteq> PW_MAGIC_BYTE_2"
  shows "frame_dec bs junk = (SIZE_MAX,
    junk\<lparr>fr_magic := (bs ! 0, bs ! 1), fr_version := bs ! 2, fr_flags := bs ! 3, fr_opcode := bs ! 4\<rparr>)"
  using assms by (simp add: frame_dec_def Let_def)

lemma server_auth_frame_total:
  assumes "reading_ok (se_tr se)" and "writing_ok (se_tr se)" and "tr_read_pos (se_tr se) + n + unat (fr_length f) \<le> 4096"
  shows "\<exists>se'. server_auth_frame junk n f se = Some se'"
proof -
  let ?tr = "se_tr se"
  have "tr_read_pos ?tr + n + unat (fr_length f) \<le> length (tr_read_buffer ?tr)"
    using assms(1,3) by (simp add: reading_ok_def)
  from parse_then_validate [OF this secret_token_ok(1,2), of junk "[]"] obtain k r where
    "pw_auth_parse_request (tr_read_buffer ?tr) (tr_read_pos ?tr + n) (unat (fr_length f)) junk = Some (k, r)"
    "k \<noteq> 0 \<Longrightarrow> \<exists>b. pw_auth_validate_bearer (Some r) (Some (secret_token @ [0])) = Some b" by auto
  moreover have "\<exists>tr'. send_header (server_reply PW_OPCODE_AUTH_OK 0) ?tr = Some tr'"
    using assms(2) by (simp add: send_header_eq writing_ok_def)
  ultimately show ?thesis
    by (cases "k = 0") (auto simp: server_auth_frame_def)
qed

lemma server_handshaking_total:
  assumes "reading_ok (se_tr se)" and "writing_ok (se_tr se)" and "client_hello_wf junk"
  shows "\<exists>r. server_handshaking junk se = Some r"
proof -
  let ?tr = "se_tr se"
  have "tr_read_pos ?tr + tr_read_len ?tr \<le> length (tr_read_buffer ?tr)" using assms(1) by (simp add: reading_ok_def)
  from parse_client_hello_dec [OF this assms(3)] obtain n h where
    p: "pw_handshake_parse_client_hello (tr_read_buffer ?tr) (tr_read_pos ?tr) (tr_read_len ?tr) junk = Some (n, h)"
    and d: "client_hello_dec (unread ?tr) junk = (n, h)"
    unfolding unread_def by (metis surj_pair)
  have "length (ch_resume_session_id h) = 16"
    using d assms(3) length_bytes_at [of 24 16 "unread ?tr"]
    by (auto simp: client_hello_dec_def client_hello_wf_def Let_def split: if_splits)
  then have "rd (ch_resume_session_id h) 0 = Some (ch_resume_session_id h ! 0)" by (intro rd_Some) linarith
  then obtain sh where sh: "server_hello_for h = Some sh" and wf: "server_hello_wf sh"
    by (cases "ch_has_resume_token h") (simp_all add: server_hello_for_def server_hello_wf_def)
  define tr1 where "tr1 = transport_consume ?tr n"
  have "length (tr_write_buffer tr1) = 4096" "tr_write_len tr1 \<le> 4096"
    using assms(2) by (simp_all add: tr1_def transport_consume_def writing_ok_def)
  then have "\<exists>w wb. pw_handshake_serialize_server_hello s (tr_write_buffer tr1) (tr_write_len tr1)
      (size_sub 4096 (tr_write_len tr1)) = Some (w, wb)" if "server_hello_wf s" for s
    using that by (subst serialize_server_hello_bytes) (auto simp: mem_simps)
  from this [of sh] this [of "sh\<lparr>sh_status := 1002, sh_resume_accepted := False\<rparr>"] wf p sh show ?thesis
    by (auto simp: server_handshaking_def Let_def tr1_def server_hello_wf_def)
qed

lemma server_close_step:
  assumes "state_of se = PW_STATE_READY" and "writable (se_tr se) 15"
    and "unread (se_tr se) = frame_header_bytes f @ pl @ rest" and "is_message f pl"
    and "fr_opcode f = opcode_byte PW_OPCODE_CLOSE"
  shows "server_step ev se = Some (True, \<lparr>se_conn = (se_conn se)\<lparr>conn_state := PW_STATE_CLOSING\<rparr>,
    se_tr = queue_out (frame_header_bytes (server_reply PW_OPCODE_CLOSE 0))
      (transport_consume (se_tr se) (length (frame_header_bytes f) + length pl))\<rparr>)"
proof -
  let ?b = "frame_header_bytes (server_reply PW_OPCODE_CLOSE 0)"
  from assms(2) have ok: "transport_ok (se_tr se)" by (simp add: writable_def)
  have w: "writable (se_tr se) (length ?b)"
    using writable_mono [OF assms(2)] length_frame_header_bytes [of "server_reply PW_OPCODE_CLOSE 0"] by simp
  have "server_ready_frame (length (frame_header_bytes f)) (frame_received f junk) se =
      Some \<lparr>se_conn = (se_conn se)\<lparr>conn_state := PW_STATE_CLOSING\<rparr>, se_tr = queue_out ?b (se_tr se)\<rparr>" for junk
    using assms(1,5) send_header_queue [OF w]
    by (simp add: server_ready_frame_def Let_def goto_state_eq to_closing)
  from frame_branch_message [OF ok assms(3,4), where act = server_ready_frame, OF this] assms(1)
  show ?thesis by (simp add: server_step_def Let_def consume_queue_out)
qed

section \<open>Properties\<close>

text \<open>The session of an accepted connection never runs: the code asks for the transition from
  DISCONNECTED to HANDSHAKING, which the state machine refuses, so the connection stays DISCONNECTED and
  the loop ends before the first call of \<open>poll\<close>, whatever the client sends. Not a byte is read or
  answered.\<close>

lemma server_session_never_runs:
  "\<exists>se. server_accept fcntl junk_tr junk_conn client_fd w = Some se \<and>
     state_of se = PW_STATE_DISCONNECTED \<and> (\<forall>evs. server_session evs se = Some se)"
proof -
  have "server_session evs se = Some se" if "state_of se = PW_STATE_DISCONNECTED" for evs se
    using that by (cases evs) simp_all
  then show ?thesis
    by (simp add: server_accept_def pw_transport_init_def pw_connection_init_def goto_state_eq from_disconnected)
qed

text \<open>A turn of the server loop makes a session ready only for the right token: whatever bytes have
  arrived and whatever the uninitialised locals hold, if the state becomes READY then the session was
  AUTHENTICATING and the unread bytes start with the header of an AUTH frame whose payload, all of it
  received, begins with the bearer request for exactly the secret token.\<close>

lemma server_ready_only_with_token:
  assumes "transport_ok (se_tr se)" and "server_step ev se = Some (go_on, se')"
    and "state_of se \<noteq> PW_STATE_READY" and "state_of se' = PW_STATE_READY"
  shows "state_of se = PW_STATE_AUTHENTICATING \<and>
    (\<exists>n f. pw_frame_parse_header (tr_read_buffer (se_tr se)) (tr_read_pos (se_tr se)) (tr_read_len (se_tr se))
         (pe_frame ev (tr_read_len (se_tr se))) = Some (n, f) \<and>
       fr_opcode f = opcode_byte PW_OPCODE_AUTH \<and> n + 17 \<le> tr_read_len (se_tr se) \<and>
       bytes_at (tr_read_buffer (se_tr se)) (tr_read_pos (se_tr se) + n) 17 =
         auth_bytes (PW_AUTH_METHOD_BEARER, secret_token))"
proof -
  from assms(2-4) have st: "state_of se = PW_STATE_AUTHENTICATING"
    by (cases "state_of se")
      (auto simp: server_step_def server_handshaking_def Let_def goto_state_eq lifecycle.simps
        split: bind_splits if_splits)
  with assms(2) obtain n f se1 where
    p: "parse_frame (pe_frame ev (tr_read_len (se_tr se))) (se_tr se) = Some (Some (n, f))"
    and a: "server_auth_frame (pe_request ev (tr_read_len (se_tr se))) n f se = Some se1"
    and s: "state_of se' = state_of se1"
    using assms(4) by (auto simp: server_step_def frame_branch_def Let_def split: bind_splits option.splits)
  from p have "pw_frame_parse_header (tr_read_buffer (se_tr se)) (tr_read_pos (se_tr se)) (tr_read_len (se_tr se))
      (pe_frame ev (tr_read_len (se_tr se))) = Some (n, f)"
    by (auto simp: parse_frame_def split: bind_splits if_splits)
  with server_auth_frame_ready [OF transport_halves(1) [OF assms(1)] p a assms(3)] assms(4) s st show ?thesis by auto
qed

text \<open>A ready server serves a pipeline of frames: complete messages, none of them a CLOSE and data of
  fewer than 128 bytes, are taken off the buffer one after the other and answered in order, data
  frames with an echo of the same header and payload, pings with a pong on the same stream; a started
  message at the end is left unread, and the invariant of the buffers holds. The replies must fit.\<close>

lemma server_serves_stream:
  assumes "state_of se = PW_STATE_READY"
    and "writable (se_tr se) (length (concat (map server_answer ms)))"
    and "unread (se_tr se) = concat (map (msg_enc frame_header_bytes) ms) @ take k (msg_enc frame_header_bytes m)"
    and "\<forall>m \<in> set ms. served m" and "is_message (fst m) (snd m)" and "k < length (msg_enc frame_header_bytes m)"
  shows "\<exists>tr'. server_read_loop ev se = Some (se\<lparr>se_tr := tr'\<rparr>) \<and> transport_ok tr' \<and>
    unread tr' = take k (msg_enc frame_header_bytes m) \<and>
    unsent tr' = unsent (se_tr se) @ concat (map server_answer ms)"
  using server_pipe.ready_loop [OF assms] by blast

text \<open>C20: A client hello is answered with a server hello on the server's own terms: the echoed
  capabilities, a status that says whether the version is the supported one, and a resumption that is
  accepted only then, with the flag, and for a session id that does not start with 0x99. With the
  supported version the session goes on to authentication. With another one the session is not
  closed: it stays in HANDSHAKING, where the next hello is answered again, because the transition to
  CLOSING that the code asks for is refused. The magic bytes of the hello are not looked at.\<close>

theorem server_handshake_answers:
  assumes "state_of se = PW_STATE_HANDSHAKING" and "client_hello_wf h" and "writable (se_tr se) 42"
    and "client_hello_wf (pe_client_hello ev (tr_read_len (se_tr se)))"
    and "unread (se_tr se) = client_hello_bytes h @ rest"
  shows "\<exists>se'. server_step ev se = Some (True, se') \<and>
    state_of se' = (if ch_version h = PW_VERSION_1 then PW_STATE_AUTHENTICATING else PW_STATE_HANDSHAKING) \<and>
    unread (se_tr se') = rest \<and> transport_ok (se_tr se') \<and>
    unsent (se_tr se') = unsent (se_tr se) @ server_hello_bytes
      \<lparr>sh_magic = (PW_MAGIC_BYTE_1, PW_MAGIC_BYTE_2), sh_version = PW_VERSION_1,
       sh_capabilities = client_hello_caps h, sh_server_nonce = replicate 16 0, sh_session_id = replicate 16 0,
       sh_status = (if ch_version h = PW_VERSION_1 then 0 else PW_ERR_PROTOCOL_ERROR),
       sh_resume_accepted = (ch_version h = PW_VERSION_1 \<and> ch_has_resume_token h \<and>
         ch_resume_session_id h ! 0 \<noteq> 0x99)\<rparr>"
proof -
  let ?n = "length (client_hello_bytes h)" and ?b = "server_hello_bytes (hello_answer h)"
  from assms(3) have ok: "transport_ok (se_tr se)" by (simp add: writable_def)
  have n: "?n \<le> tr_read_len (se_tr se)" using length_unread [OF ok] assms(5) by simp
  have "writable (transport_consume (se_tr se) ?n) (length ?b + 0)"
    using writable_consume [OF assms(3) n] by (simp add: length_server_hello_bytes)
  from queue_out_writable [OF this] server_handshake_step [OF assms] consume_ok(2,5) [OF ok n] assms(5)
  show ?thesis by (simp add: hello_answer_def writable_def)
qed

theorem server_handshake_answers_witness:
  "let h = client_hello_zero\<lparr>ch_magic := (0x50, 0x57), ch_version := 2, ch_capabilities := 4\<rparr>;
       se = \<lparr>se_conn = \<lparr>conn_state = PW_STATE_HANDSHAKING\<rparr>, se_tr = transport_with (client_hello_bytes h @ [7])\<rparr>
   in \<exists>se'. server_step quiet_poll se = Some (True, se') \<and> state_of se' = PW_STATE_HANDSHAKING \<and>
        unread (se_tr se') = [7]"
proof -
  define h where "h = client_hello_zero\<lparr>ch_magic := (0x50, 0x57), ch_version := 2, ch_capabilities := 4\<rparr>"
  define se where "se = \<lparr>se_conn = \<lparr>conn_state = PW_STATE_HANDSHAKING\<rparr>,
    se_tr = transport_with (client_hello_bytes h @ [7])\<rparr>"
  have wf: "client_hello_wf h" "ch_version h = 2" "\<not> ch_has_resume_token h"
    by (simp_all add: h_def client_hello_wf_def client_hello_zero_def)
  then have "length (client_hello_bytes h) = 24" by (simp add: length_client_hello_bytes)
  then have "writable (se_tr se) 42" "client_hello_wf (pe_client_hello quiet_poll (tr_read_len (se_tr se)))"
    by (simp_all add: se_def quiet_poll_def)
  from server_handshake_answers [of se h quiet_poll "[7]", OF _ wf(1) this] wf(2) show ?thesis
    unfolding h_def [symmetric] se_def [symmetric] Let_def by (auto simp: se_def)
qed

text \<open>C21: An authentication request is decided by its payload: when it begins with the bearer request for
  the secret token the session becomes ready and AUTH_OK is queued. Any other one is dropped without an
  answer and the session stays in AUTHENTICATING, free to try again as often as it likes: the
  transition to CLOSING that the code asks for is refused, and no AUTH_FAIL is sent.\<close>

theorem server_auth_answers:
  assumes "state_of se = PW_STATE_AUTHENTICATING" and "writable (se_tr se) 15"
    and "unread (se_tr se) = frame_header_bytes f @ pl @ rest" and "is_message f pl"
    and "fr_opcode f = opcode_byte PW_OPCODE_AUTH"
  shows "\<exists>se'. server_step ev se = Some (True, se') \<and> unread (se_tr se') = rest \<and> transport_ok (se_tr se') \<and>
    (if take 17 pl = auth_bytes (PW_AUTH_METHOD_BEARER, secret_token)
     then state_of se' = PW_STATE_READY \<and> unsent (se_tr se') = unsent (se_tr se) @
       frame_header_bytes (frame_init PW_VERSION_1 PW_FLAG_FIN PW_OPCODE_AUTH_OK 0 0)
     else se_conn se' = se_conn se \<and> unsent (se_tr se') = unsent (se_tr se))"
proof -
  let ?n = "length (frame_header_bytes f) + length pl" and ?b = "frame_header_bytes (server_reply PW_OPCODE_AUTH_OK 0)"
  from assms(2) have ok: "transport_ok (se_tr se)" by (simp add: writable_def)
  note pay = payload_at [OF ok assms(3)]
  have "writable (transport_consume (se_tr se) ?n) (length ?b + 0)"
    using writable_mono [OF writable_consume [OF assms(2) pay(3)]]
      length_frame_header_bytes [of "server_reply PW_OPCODE_AUTH_OK 0"] by simp
  from queue_out_writable [OF this] server_auth_step [OF assms, of ev] consume_ok(1,5) [OF ok pay(3)] pay(4)
  show ?thesis
    by (simp add: Let_def grants_def secret_token_ok(3) server_reply_def writable_def)
qed

theorem server_auth_answers_witness:
  "let f = frame_init 1 0x10 PW_OPCODE_AUTH 0 6;
       se = \<lparr>se_conn = \<lparr>conn_state = PW_STATE_AUTHENTICATING\<rparr>,
             se_tr = transport_with (frame_header_bytes f @ auth_bytes (1, [0x78]))\<rparr>
   in \<exists>se'. server_step quiet_poll se = Some (True, se') \<and> state_of se' = PW_STATE_AUTHENTICATING \<and>
        unread (se_tr se') = [] \<and> unsent (se_tr se') = []"
proof -
  define f where "f = frame_init 1 0x10 PW_OPCODE_AUTH 0 6"
  define se where "se = \<lparr>se_conn = \<lparr>conn_state = PW_STATE_AUTHENTICATING\<rparr>,
    se_tr = transport_with (frame_header_bytes f @ auth_bytes (1, [0x78]))\<rparr>"
  have l: "length (auth_bytes (1, [0x78])) = 6" by (simp add: length_auth_bytes)
  have "length (take 17 (auth_bytes (1, [0x78]))) \<noteq> length (auth_bytes (1, secret_token))"
    using l by (simp add: length_auth_bytes secret_token_ok(3))
  then have ne: "take 17 (auth_bytes (1, [0x78])) \<noteq> auth_bytes (1, secret_token)" by metis
  have "writable (se_tr se) 15" "is_message f (auth_bytes (1, [0x78]))"
    using l length_frame_header_bytes [of f] by (simp_all add: se_def is_message_def f_def frame_init_def)
  moreover have "fr_opcode f = opcode_byte PW_OPCODE_AUTH" by (simp add: f_def frame_init_def)
  ultimately show ?thesis
    using server_auth_answers [of se f "auth_bytes (1, [0x78])" "[]" quiet_poll] ne
    unfolding f_def [symmetric] se_def [symmetric] Let_def by (auto simp: se_def)
qed

text \<open>Before authentication a turn of the server loop is memory safe on every input that does not
  present five bytes with wrong magic: whatever has arrived, whatever the uninitialised locals hold and
  however full the buffers are, no access leaves an array.\<close>

lemma server_preauth_safe:
  assumes "transport_ok (se_tr se)" and "state_of se \<in> {PW_STATE_HANDSHAKING, PW_STATE_AUTHENTICATING}"
    and "client_hello_wf (pe_client_hello ev (tr_read_len (se_tr se)))"
    and "tr_read_len (se_tr se) < 5 \<or> take 2 (unread (se_tr se)) = [PW_MAGIC_BYTE_1, PW_MAGIC_BYTE_2]"
  shows "\<exists>r. server_step ev se = Some r"
proof (cases "state_of se = PW_STATE_HANDSHAKING")
  case True
  then show ?thesis using server_handshaking_total [of se] assms(1,3) by (simp add: server_step_def)
next
  case False
  let ?tr = "se_tr se" and ?k = "tr_read_len (se_tr se)"
  note ok = transport_okD [OF assms(1)]
  obtain n f where d: "frame_dec (unread ?tr) (pe_frame ev ?k) = (n, f)"
    by (cases "frame_dec (unread ?tr) (pe_frame ev ?k)")
  have "n \<noteq> SIZE_MAX"
  proof (cases "?k < 5")
    case True
    then have "n = 0" using d assms(1) by (simp add: frame_dec_def)
    then show ?thesis by (simp add: SIZE_MAX_def)
  next
    case large: False
    with assms(4) have t: "take 2 (unread ?tr) = [0x50, 0x57]" by simp
    then have m: "unread ?tr ! 0 = 0x50" "unread ?tr ! 1 = 0x57"
      using nth_take [of 0 2 "unread ?tr"] nth_take [of 1 2 "unread ?tr"] by simp_all
    from frame_dec_good_magic [OF d m] have "n \<le> 15" .
    then show ?thesis by (simp add: SIZE_MAX_def)
  qed
  then have "n \<le> ?k \<and> n \<le> 15" using frame_dec_consumed [OF d] assms(1) by simp
  then have "size_add n (unat (fr_length f)) = n + unat (fr_length f)"
    using unat_u32_bound [of "fr_length f"] by (intro size_add_small) simp
  then have "\<exists>se'. server_auth_frame (pe_request ev ?k) n f se = Some se'"
    if "size_add n (unat (fr_length f)) \<le> ?k"
    using that ok assms(1) by (intro server_auth_frame_total) simp_all
  with False assms(1,2) d show ?thesis
    by (auto simp: server_step_def frame_branch_def Let_def parse_frame_dec ex_bool_eq)
qed

text \<open>Wrong magic bytes are not rejected but lead outside of the buffer: the parser's error value is
  \<open>SIZE_MAX\<close>, a positive number, and the sum with the frame's length, which is then whatever the stack
  contained, wraps. So in a session that is not authenticated, five bytes with wrong magic and the code
  of AUTH make the server read behind its buffer, when the stale length is at least 5 and at most one
  more than the bytes received.\<close>

lemma server_bad_magic_out_of_bounds:
  assumes "transport_ok (se_tr se)" and "state_of se = PW_STATE_AUTHENTICATING" and "5 \<le> tr_read_len (se_tr se)"
    and "unread (se_tr se) ! 0 \<noteq> PW_MAGIC_BYTE_1 \<or> unread (se_tr se) ! 1 \<noteq> PW_MAGIC_BYTE_2"
    and "unread (se_tr se) ! 4 = opcode_byte PW_OPCODE_AUTH"
    and "5 \<le> unat (fr_length (pe_frame ev (tr_read_len (se_tr se))))"
    and "unat (fr_length (pe_frame ev (tr_read_len (se_tr se)))) \<le> tr_read_len (se_tr se) + 1"
  shows "server_step ev se = None"
proof -
  let ?tr = "se_tr se"
  let ?j = "pe_frame ev (tr_read_len ?tr)"
  define f where "f = ?j\<lparr>fr_magic := (unread ?tr ! 0, unread ?tr ! 1), fr_version := unread ?tr ! 2,
    fr_flags := unread ?tr ! 3, fr_opcode := unread ?tr ! 4\<rparr>"
  have f: "fr_opcode f = opcode_byte PW_OPCODE_AUTH" "fr_length f = fr_length ?j"
    using assms(5) by (simp_all add: f_def)
  have "5 \<le> length (unread ?tr)" using assms(1,3) by simp
  from frame_dec_bad_magic [OF this assms(4)] have d: "frame_dec (unread ?tr) ?j = (SIZE_MAX, f)"
    by (simp add: f_def)
  have "size_add SIZE_MAX (unat (fr_length ?j)) = unat (fr_length ?j) - 1"
    using assms(6) unat_u32_bound [of "fr_length ?j"] by (intro size_add_max) (simp_all add: SIZE_MAX_def)
  with assms(7) have "size_add SIZE_MAX (unat (fr_length ?j)) \<le> tr_read_len ?tr" by simp
  then have p: "parse_frame ?j ?tr = Some (Some (SIZE_MAX, f))"
    using d f by (simp add: parse_frame_dec assms(1)) (simp add: SIZE_MAX_def)
  have "rd (tr_read_buffer ?tr) (tr_read_pos ?tr + SIZE_MAX) = None"
    using transport_okD(1) [OF assms(1)] by (intro rd_None) (simp add: SIZE_MAX_def)
  then have "server_auth_frame (pe_request ev (tr_read_len ?tr)) SIZE_MAX f se = None"
    using f assms(6) by (simp add: server_auth_frame_def pw_auth_parse_request_def)
  with p assms(2) show ?thesis by (simp add: server_step_def frame_branch_def Let_def)
qed

text \<open>A CLOSE frame ends the session: a ready server queues its own CLOSE behind what it still has to
  send, goes to CLOSING, leaves what follows in the buffer unread, and is CLOSED, with the session's
  loop at its end, after the first round in which everything could be written.\<close>

lemma server_close_completes:
  assumes "state_of se = PW_STATE_READY" and "writable (se_tr se) 15" and "0 \<le> tr_fd (se_tr se)"
    and "unread (se_tr se) = frame_header_bytes f @ pl @ rest" and "is_message f pl"
    and "fr_opcode f = opcode_byte PW_OPCODE_CLOSE"
    and "0 \<le> pe_result ev'" and "\<not> pe_in ev'" and "pe_out ev'"
    and "\<forall>fd bs. pe_send ev' fd bs = Sent (length bs) 0"
  shows "\<exists>se1 se2. server_read_loop ev se = Some se1 \<and> state_of se1 = PW_STATE_CLOSING \<and>
    unsent (se_tr se1) = unsent (se_tr se) @ frame_header_bytes (frame_init PW_VERSION_1 PW_FLAG_FIN PW_OPCODE_CLOSE 0 0) \<and>
    unread (se_tr se1) = rest \<and> server_round ev' se1 = Some (True, se2) \<and> state_of se2 = PW_STATE_CLOSED \<and>
    server_session (ev' # evs) se1 = Some se2"
proof -
  let ?tr = "se_tr se" and ?n = "length (frame_header_bytes f) + length pl"
  let ?b = "frame_header_bytes (server_reply PW_OPCODE_CLOSE 0)"
  define se1 where "se1 = \<lparr>se_conn = (se_conn se)\<lparr>conn_state := PW_STATE_CLOSING\<rparr>,
    se_tr = queue_out ?b (transport_consume ?tr ?n)\<rparr>"
  from assms(2) have ok: "transport_ok ?tr" by (simp add: writable_def)
  note pay = payload_at [OF ok assms(4)] and b = length_frame_header_bytes [of "server_reply PW_OPCODE_CLOSE 0"]
  have w: "writable ?tr (length ?b)" using writable_mono [OF assms(2)] b by simp
  have w': "writable (transport_consume ?tr ?n) (length ?b + 0)"
    using writable_consume [OF w pay(3)] by simp
  have step: "server_step ev se = Some (True, se1)"
    using server_close_step [OF assms(1,2,4-6)] by (simp add: se1_def)
  have "tr_read_len (se_tr se1) = tr_read_len ?tr - ?n" using consume_ok(3) [OF ok pay(3)] by (simp add: se1_def)
  moreover have "tr_read_len ?tr - ?n < tr_read_len ?tr"
    using pay(3) length_frame_header_bytes [of f] by linarith
  ultimately have "server_read_loop ev se = server_read_loop ev se1"
    using step by (intro read_loop_step) simp_all
  moreover have "server_step ev se1 = Some (False, se1)" by (simp add: server_step_def se1_def)
  ultimately have loop: "server_read_loop ev se = Some se1" by (simp add: read_loop_stop)
  have ok1: "transport_ok (se_tr se1)" and u1: "unsent (se_tr se1) = unsent ?tr @ ?b"
    using queue_out_writable [OF w'] consume_ok(5) [OF ok pay(3)] by (simp_all add: se1_def writable_def)
  have fd1: "0 \<le> tr_fd (se_tr se1)" using assms(3) by (simp add: se1_def transport_consume_def)
  have st1: "state_of se1 = PW_STATE_CLOSING" by (simp add: se1_def)
  have pos: "0 < tr_write_len (se_tr se1)" using b by (simp add: se1_def)
  from poll_write_closes [OF ok1 fd1 st1 assms(10)] obtain se2 where
    se2: "poll_write ev' se1 = Some se2" "state_of se2 = PW_STATE_CLOSED" by blast
  have round: "server_round ev' se1 = Some (True, se2)"
    using assms(7-9) pos se2(1) by (simp add: server_round_def Let_def)
  moreover have "server_session evs se2 = Some se2" using se2(2) by (cases evs) simp_all
  ultimately show ?thesis
    using loop u1 st1 se2(2) pay(4) by (auto simp: server_reply_def se1_def)
qed

text \<open>A data frame of more than 128 bytes writes past the end of the server's \<open>char buf[128]\<close>: once it has
  arrived whole, the loop leaves the array, whatever else is true of the session.\<close>

lemma server_step_overflow:
  assumes "state_of se = PW_STATE_READY" and "transport_ok (se_tr se)"
    and "unread (se_tr se) = frame_header_bytes f @ pl @ rest" and "is_message f pl"
    and "fr_opcode f = opcode_byte PW_OPCODE_DATA_TEXT \<or> fr_opcode f = opcode_byte PW_OPCODE_DATA_BINARY"
    and "128 < length pl"
  shows "server_step ev se = None"
proof -
  have "unat (fr_length f) = length pl" using assms(4) by (simp add: is_message_def)
  then have "server_ready_frame (length (frame_header_bytes f)) (frame_received f junk) se = None" for junk
    using assms(5,6) by (auto simp: server_ready_frame_def Let_def print_payload_overflow)
  with parse_frame_message(1) [OF assms(2-4)] assms(1) show ?thesis
    by (simp add: server_step_def frame_branch_def Let_def)
qed

lemma server_payload_overflow:
  assumes "state_of se = PW_STATE_READY" and "transport_ok (se_tr se)"
    and "unread (se_tr se) = frame_header_bytes f @ pl @ rest" and "is_message f pl"
    and "fr_opcode f = opcode_byte PW_OPCODE_DATA_TEXT \<or> fr_opcode f = opcode_byte PW_OPCODE_DATA_BINARY"
    and "128 < length pl"
  shows "server_read_loop ev se = None"
proof -
  have "tr_read_len (se_tr se) \<noteq> 0"
    using length_unread [OF assms(2)] assms(3,6) by auto
  then show ?thesis by (simp add: server_read_loop.simps [of ev se] server_step_overflow [OF assms])
qed

text \<open>C31: The end of the stream is recognised only by a stale \<open>errno\<close>: when the client has closed its side
  and nothing is unread, the round ends the session exactly if \<open>errno\<close>, which a read of the end of the
  stream does not set, does not happen to be EAGAIN; otherwise the session goes on as it was, and every
  further round finds the same.\<close>

theorem server_eof_needs_errno:
  assumes "transport_ok (se_tr se)" and "0 \<le> tr_fd (se_tr se)" and "tr_read_len (se_tr se) = 0"
    and "tr_write_len (se_tr se) = 0" and "0 \<le> pe_result ev" and "pe_in ev"
    and "\<forall>fd n. pe_recv ev fd n = Received [] e"
  shows "\<exists>tr'. server_round ev se = Some (e = EAGAIN, se\<lparr>se_tr := tr'\<rparr>) \<and> transport_ok tr' \<and>
    unread tr' = [] \<and> tr_read_len tr' = 0 \<and> tr_write_len tr' = 0 \<and> tr_fd tr' = tr_fd (se_tr se)"
proof -
  have fits: "recv_fits (pe_recv ev) (se_tr se)" using assms(7) by (simp add: recv_fits_def)
  show ?thesis
  proof (rule read_cases [OF assms(1,2) fits, of "pe_errno ev"])
    assume "tr_read_len (se_tr se) = 4096"
    then show ?thesis using assms(3) by simp
  next
    fix bs e' tr'
    assume r: "pe_recv ev (tr_fd (se_tr se)) (4096 - tr_read_len (se_tr se)) = Received bs e'"
      "pw_transport_read (pe_recv ev) (pe_errno ev) (Some (se_tr se)) = Some (int (length bs), e', Some tr')"
      "transport_ok tr'" "unread tr' = unread (se_tr se) @ bs" "tr_fd tr' = tr_fd (se_tr se)"
      "tr_write_len tr' = tr_write_len (se_tr se)"
    with assms(7) have bs: "bs = []" "e' = e" by simp_all
    have "unread tr' = []" using r(4) bs assms(3) by (simp add: unread_def)
    moreover from this have "tr_read_len tr' = 0" using length_unread [OF r(3)] by simp
    ultimately show ?thesis
      using r bs assms(4-6)
      by (intro exI [of _ tr']) (simp add: server_round_def Let_def server_read_loop.simps)
  next
    fix e' tr'
    assume "pe_recv ev (tr_fd (se_tr se)) (4096 - tr_read_len (se_tr se)) = RecvFailed e'"
    with assms(7) show ?thesis by simp
  qed
qed

theorem server_eof_needs_errno_witness:
  "let se = \<lparr>se_conn = \<lparr>conn_state = PW_STATE_READY\<rparr>, se_tr = transport_with []\<rparr>;
       ev = quiet_poll\<lparr>pe_result := 1, pe_in := True, pe_recv := (\<lambda>fd n. Received [] EAGAIN)\<rparr>
   in \<exists>se'. server_round ev se = Some (True, se') \<and> state_of se' = PW_STATE_READY"
proof -
  define se where "se = \<lparr>se_conn = \<lparr>conn_state = PW_STATE_READY\<rparr>, se_tr = transport_with []\<rparr>"
  define ev where "ev = quiet_poll\<lparr>pe_result := 1, pe_in := True, pe_recv := (\<lambda>fd n. Received [] EAGAIN)\<rparr>"
  have "\<exists>tr'. server_round ev se = Some (EAGAIN = EAGAIN, se\<lparr>se_tr := tr'\<rparr>) \<and> transport_ok tr' \<and>
      unread tr' = [] \<and> tr_read_len tr' = 0 \<and> tr_write_len tr' = 0 \<and> tr_fd tr' = tr_fd (se_tr se)"
    by (rule server_eof_needs_errno) (simp_all add: se_def ev_def quiet_poll_def)
  then show ?thesis unfolding se_def [symmetric] ev_def [symmetric] Let_def by (auto simp: se_def)
qed

end
