(* ===== verification/PW_Client.thy ===== *)
theory PW_Client
  imports PW_Pipeline
begin

text \<open>
  The session of the demonstration client, \<open>native/src/client_main.c\<close>: its hello, one definition per
  branch of its loop, and the loop, which writes before it reads. As for the server, a branch answers
  whether the inner loop goes on, and \<open>None\<close> is an access out of bounds. A connected socket is given.
\<close>

section \<open>The code\<close>

definition client_hello_sent :: pw_client_hello where
  "client_hello_sent =
     \<lparr>ch_magic = (PW_MAGIC_BYTE_1, PW_MAGIC_BYTE_2), ch_version = PW_VERSION_1,
      ch_capabilities = PW_CAP_AUTH_BEARER, ch_client_nonce = replicate 16 0,
      ch_has_resume_token = False, ch_resume_session_id = replicate 16 0\<rparr>"

definition client_start ::
  "(int \<Rightarrow> fcntl_cmd \<Rightarrow> 'w \<Rightarrow> int \<times> 'w) \<Rightarrow> pw_transport \<Rightarrow> pw_connection \<Rightarrow> int \<Rightarrow> 'w \<Rightarrow> session option" where
  "client_start fcntl junk_tr junk_conn sock w = do {
     tr \<leftarrow> fst (pw_transport_init fcntl (Some junk_tr) sock w);
     conn \<leftarrow> pw_connection_init (Some junk_conn);
     let conn = goto_state PW_STATE_HANDSHAKING (goto_state PW_STATE_CONNECTING conn);
     (n, wb) \<leftarrow> pw_handshake_serialize_client_hello client_hello_sent (tr_write_buffer tr) 0 PW_BUFFER_SIZE;
     Some \<lparr>se_conn = conn, se_tr = tr\<lparr>tr_write_buffer := wb, tr_write_len := n\<rparr>\<rparr>
   }"

text \<open>What \<open>auth_payload[128]\<close> holds before does not matter: only the bytes written are sent.\<close>

definition client_handshaking :: "pw_server_hello \<Rightarrow> session \<Rightarrow> (bool \<times> session) option" where
  "client_handshaking junk se = do {
     let tr = se_tr se;
     (parsed, sh) \<leftarrow> pw_handshake_parse_server_hello (tr_read_buffer tr) (tr_read_pos tr) (tr_read_len tr) junk;
     if 0 < parsed
     then do {
       let tr = transport_consume tr parsed;
       let conn = goto_state PW_STATE_AUTHENTICATING (se_conn se);
       let auth_req = \<lparr>ar_method = PW_AUTH_METHOD_BEARER, ar_token_len = of_nat (length secret_token),
                       ar_token = Some (secret_token @ [0], 0)\<rparr>;
       (auth_len, auth_payload) \<leftarrow> pw_auth_serialize_request auth_req (replicate 128 0) 0 128;
       tr \<leftarrow> send_header (frame_init PW_VERSION_1 PW_FLAG_FIN PW_OPCODE_AUTH 0 (of_nat auth_len)) tr;
       tr \<leftarrow> send_bytes auth_payload 0 auth_len tr;
       Some (True, \<lparr>se_conn = conn, se_tr = tr\<rparr>)
     }
     else Some (False, se)
   }"

text \<open>The message "Hello from client!" and the frames the client makes.\<close>

definition client_msg :: "byte list" where
  "client_msg = [0x48, 0x65, 0x6C, 0x6C, 0x6F, 0x20, 0x66, 0x72, 0x6F, 0x6D, 0x20, 0x63, 0x6C, 0x69, 0x65, 0x6E,
     0x74, 0x21]"

definition client_data_frame :: pw_frame where
  "client_data_frame = frame_init PW_VERSION_1 PW_FLAG_FIN PW_OPCODE_DATA_TEXT 1 (of_nat (length client_msg))"

definition client_auth_frame :: "nat \<Rightarrow> pw_frame \<Rightarrow> session \<Rightarrow> session option" where
  "client_auth_frame parsed frame se =
     (if fr_opcode frame = opcode_byte PW_OPCODE_AUTH_OK
      then do {
        tr \<leftarrow> send_header client_data_frame (se_tr se);
        tr \<leftarrow> send_bytes client_msg 0 (length client_msg) tr;
        Some \<lparr>se_conn = goto_state PW_STATE_READY (se_conn se), se_tr = tr\<rparr>
      }
      else Some se)"

definition client_ready_frame :: "nat \<Rightarrow> pw_frame \<Rightarrow> session \<Rightarrow> session option" where
  "client_ready_frame parsed frame se =
     (let tr = se_tr se
      in if fr_opcode frame = opcode_byte PW_OPCODE_DATA_TEXT
      then do {
        _ \<leftarrow> print_payload (tr_read_buffer tr) (tr_read_pos tr + parsed) (unat (fr_length frame));
        tr \<leftarrow> send_header (frame_init PW_VERSION_1 PW_FLAG_FIN PW_OPCODE_PING 0 0) tr;
        Some (se\<lparr>se_tr := tr\<rparr>)
      }
      else if fr_opcode frame = opcode_byte PW_OPCODE_PONG
      then do {
        tr \<leftarrow> send_header (frame_init PW_VERSION_1 PW_FLAG_FIN PW_OPCODE_CLOSE 0 0) tr;
        Some \<lparr>se_conn = goto_state PW_STATE_CLOSING (se_conn se), se_tr = tr\<rparr>
      }
      else if fr_opcode frame = opcode_byte PW_OPCODE_CLOSE
      then Some (se\<lparr>se_conn := goto_state PW_STATE_CLOSING (se_conn se)\<rparr>)
      else Some se)"

definition client_step :: "poll_event \<Rightarrow> session \<Rightarrow> (bool \<times> session) option" where
  "client_step ev se =
     (let k = tr_read_len (se_tr se)
      in case state_of se of
           PW_STATE_HANDSHAKING \<Rightarrow> client_handshaking (pe_server_hello ev k) se
         | PW_STATE_AUTHENTICATING \<Rightarrow> frame_branch (pe_frame ev k) client_auth_frame se
         | PW_STATE_READY \<Rightarrow> frame_branch (pe_frame ev k) client_ready_frame se
         | _ \<Rightarrow> Some (False, se))"

lemma parse_server_hello_bound:
  "pw_handshake_parse_server_hello buf p m h = Some (n, h') \<Longrightarrow> n \<le> m"
  by (auto simp: pw_handshake_parse_server_hello_def Let_def split: if_splits bind_splits)

lemma client_act_read_len:
  "client_auth_frame n f se = Some se' \<Longrightarrow> tr_read_len (se_tr se') = tr_read_len (se_tr se)"
  "client_ready_frame n f se = Some se' \<Longrightarrow> tr_read_len (se_tr se') = tr_read_len (se_tr se)"
  by (auto simp: client_auth_frame_def client_ready_frame_def Let_def split: if_splits bind_splits
      dest!: send_header_read_len send_bytes_read_len)

lemma client_step_read_len:
  assumes "client_step ev se = Some (c, se')"
  shows "tr_read_len (se_tr se') \<le> tr_read_len (se_tr se)"
proof (cases "state_of se")
  case PW_STATE_HANDSHAKING
  with assms show ?thesis
    by (auto simp: client_step_def client_handshaking_def Let_def transport_consume_def
        dest!: send_header_read_len send_bytes_read_len split: bind_splits if_splits)
      (rule size_sub_le_same, erule parse_server_hello_bound)+
next
  case PW_STATE_AUTHENTICATING
  with assms show ?thesis
    by (auto simp: client_step_def Let_def intro: frame_branch_read_len client_act_read_len(1))
next
  case PW_STATE_READY
  with assms show ?thesis
    by (auto simp: client_step_def Let_def intro: frame_branch_read_len client_act_read_len(2))
qed (use assms in \<open>auto simp: client_step_def\<close>)

function client_read_loop :: "poll_event \<Rightarrow> session \<Rightarrow> session option" where
  "client_read_loop ev se =
     (if tr_read_len (se_tr se) = 0 then Some se
      else case client_step ev se of
             None \<Rightarrow> None
           | Some (go_on, se') \<Rightarrow>
               if go_on \<and> tr_read_len (se_tr se') \<noteq> tr_read_len (se_tr se)
               then client_read_loop ev se' else Some se')"
  by pat_completeness auto
termination
  by (relation "measure (\<lambda>(ev, se). tr_read_len (se_tr se))")
    (auto dest: client_step_read_len intro: le_neq_implies_less)

declare client_read_loop.simps [simp del]

definition client_round :: "poll_event \<Rightarrow> session \<Rightarrow> (bool \<times> session) option" where
  "client_round ev se =
     (let pollout = pe_out ev \<and> 0 < tr_write_len (se_tr se)
      in if pe_result ev < 0 then Some (False, se)
      else do {
        se \<leftarrow> (if pollout then poll_write ev se else Some se);
        if pe_in ev
        then do {
          (r, errno, t) \<leftarrow> pw_transport_read (pe_recv ev) (pe_errno ev) (Some (se_tr se));
          tr \<leftarrow> t;
          if r \<le> 0 \<and> errno \<noteq> EAGAIN \<and> errno \<noteq> EWOULDBLOCK then Some (False, se\<lparr>se_tr := tr\<rparr>)
          else do {
            se \<leftarrow> client_read_loop ev (se\<lparr>se_tr := tr\<rparr>);
            Some (True, se)
          }
        }
        else Some (True, se)
      })"

fun client_session :: "poll_event list \<Rightarrow> session \<Rightarrow> session option" where
  "client_session [] se = Some se"
| "client_session (ev # evs) se =
     (if state_of se = PW_STATE_CLOSED \<or> state_of se = PW_STATE_DISCONNECTED then Some se
      else case client_round ev se of
             None \<Rightarrow> None
           | Some (go_on, se') \<Rightarrow> if go_on then client_session evs se' else Some se')"

section \<open>The turns of the loop\<close>

definition client_auth_message :: "byte list" where
  "client_auth_message =
     frame_header_bytes (frame_init PW_VERSION_1 PW_FLAG_FIN PW_OPCODE_AUTH 0 17)
     @ auth_bytes (PW_AUTH_METHOD_BEARER, secret_token)"

lemma length_secret_token: "length secret_token = 12"
  by (simp add: secret_token_def)

lemma client_auth_payload:
  "pw_auth_serialize_request \<lparr>ar_method = PW_AUTH_METHOD_BEARER, ar_token_len = of_nat (length secret_token),
      ar_token = Some (secret_token @ [0], 0)\<rparr> (replicate 128 0) 0 128 =
   Some (17, put_bytes (replicate 128 0) 0 (auth_bytes (PW_AUTH_METHOD_BEARER, secret_token)))"
proof -
  have "bytes_at (secret_token @ [0]) 0 12 = secret_token"
    using bytes_at_appended [of 0 "[]" 12 secret_token "[0]"] by (simp add: length_secret_token)
  then show ?thesis
    by (subst serialize_request_bytes [where src = "secret_token @ [0]" and s = 0])
      (simp_all add: length_secret_token length_auth_bytes Let_def)
qed

lemma length_client_auth_message: "length client_auth_message \<le> 32"
  using length_frame_header_bytes [of "frame_init PW_VERSION_1 PW_FLAG_FIN PW_OPCODE_AUTH 0 17"]
  by (simp add: client_auth_message_def length_auth_bytes length_secret_token)

lemma client_handshake_step:
  assumes "state_of se = PW_STATE_HANDSHAKING" and "server_hello_wf h" and "writable (se_tr se) 32"
    and "server_hello_wf (pe_server_hello ev (tr_read_len (se_tr se)))"
    and "unread (se_tr se) = server_hello_bytes h @ rest"
  shows "client_step ev se = Some (True,
    \<lparr>se_conn = (se_conn se)\<lparr>conn_state := PW_STATE_AUTHENTICATING\<rparr>,
     se_tr = queue_out client_auth_message (transport_consume (se_tr se) 42)\<rparr>)"
proof -
  let ?tr = "se_tr se" and ?tr' = "transport_consume (se_tr se) 42"
  let ?a = "auth_bytes (PW_AUTH_METHOD_BEARER, secret_token)"
  let ?h = "frame_header_bytes (frame_init PW_VERSION_1 PW_FLAG_FIN PW_OPCODE_AUTH 0 17)"
  from assms(3) have ok: "transport_ok ?tr" by (simp add: writable_def)
  have n: "42 \<le> tr_read_len ?tr"
    using length_unread [OF ok] assms(5) length_server_hello_bytes [OF assms(2)] by simp
  have "tr_read_pos ?tr + tr_read_len ?tr \<le> length (tr_read_buffer ?tr)"
    using transport_okD [OF ok] by simp
  from parse_server_hello_dec [OF this assms(4)] assms(5)
  have parse: "pw_handshake_parse_server_hello (tr_read_buffer ?tr) (tr_read_pos ?tr) (tr_read_len ?tr)
      (pe_server_hello ev (tr_read_len ?tr)) = Some (42, h)"
    by (simp add: unread_def server_hello_dec_bytes [OF assms(2)])
  have la: "length ?a = 17" by (simp add: length_auth_bytes length_secret_token)
  have w: "writable ?tr' (length ?h + 17)"
    using writable_mono [OF writable_consume [OF assms(3) n], of "length ?h + 17"] la length_client_auth_message
    by (simp add: client_auth_message_def)
  have h: "send_header (frame_init PW_VERSION_1 PW_FLAG_FIN PW_OPCODE_AUTH 0 17) ?tr' = Some (queue_out ?h ?tr')"
    by (rule send_header_queue [OF writable_mono [OF w le_add1]])
  let ?pl = "put_bytes (replicate 128 0) 0 ?a"
  have "length ?pl = 128" "bytes_at ?pl 0 17 = ?a"
    using la bytes_at_put_bytes_same [of 0 ?a "replicate 128 0"] by (simp_all add: length_put_bytes)
  then have b: "send_bytes ?pl 0 17 (queue_out ?h ?tr') = Some (queue_out (?h @ ?a) ?tr')"
    using send_bytes_queue [OF queue_out_writable(1) [OF w], of 0 ?pl] queue_out_append [of ?tr' ?h ?a] w la by simp
  have c: "goto_state PW_STATE_AUTHENTICATING (se_conn se) = (se_conn se)\<lparr>conn_state := PW_STATE_AUTHENTICATING\<rparr>"
    using assms(1) by (simp add: goto_state_eq lifecycle.simps)
  show ?thesis
    using assms(1) parse client_auth_payload h b c
    by (simp add: client_step_def client_handshaking_def Let_def client_auth_message_def)
qed

text \<open>The messages of the server on which the client acts, with its answer and its next state.\<close>

definition client_answer :: "pw_connection_state \<Rightarrow> pw_frame \<Rightarrow> byte list \<times> pw_connection_state" where
  "client_answer s f =
     (if s = PW_STATE_AUTHENTICATING \<and> fr_opcode f = opcode_byte PW_OPCODE_AUTH_OK
      then (frame_header_bytes client_data_frame @ client_msg, PW_STATE_READY)
      else if s = PW_STATE_READY \<and> fr_opcode f = opcode_byte PW_OPCODE_DATA_TEXT
      then (frame_header_bytes (frame_init PW_VERSION_1 PW_FLAG_FIN PW_OPCODE_PING 0 0), s)
      else if s = PW_STATE_READY \<and> fr_opcode f = opcode_byte PW_OPCODE_PONG
      then (frame_header_bytes (frame_init PW_VERSION_1 PW_FLAG_FIN PW_OPCODE_CLOSE 0 0), PW_STATE_CLOSING)
      else if s = PW_STATE_READY \<and> fr_opcode f = opcode_byte PW_OPCODE_CLOSE
      then ([], PW_STATE_CLOSING)
      else ([], s))"

lemma length_client_answer: "length (fst (client_answer s f)) \<le> 33"
  using length_frame_header_bytes [of client_data_frame]
    length_frame_header_bytes [of "frame_init PW_VERSION_1 PW_FLAG_FIN PW_OPCODE_PING 0 0"]
    length_frame_header_bytes [of "frame_init PW_VERSION_1 PW_FLAG_FIN PW_OPCODE_CLOSE 0 0"]
  by (simp add: client_answer_def client_msg_def)

lemma client_auth_act:
  assumes "state_of se = PW_STATE_AUTHENTICATING" and "writable (se_tr se) 33"
  shows "client_auth_frame n (frame_received f junk) se =
    Some \<lparr>se_conn = (se_conn se)\<lparr>conn_state := snd (client_answer (state_of se) f)\<rparr>,
          se_tr = queue_out (fst (client_answer (state_of se) f)) (se_tr se)\<rparr>"
proof (cases "fr_opcode f = opcode_byte PW_OPCODE_AUTH_OK")
  case True
  let ?h = "frame_header_bytes client_data_frame"
  have w: "writable (se_tr se) (length ?h + length client_msg)"
    using writable_mono [OF assms(2)] length_frame_header_bytes [of client_data_frame]
    by (simp add: client_msg_def)
  have h: "send_header client_data_frame (se_tr se) = Some (queue_out ?h (se_tr se))"
    by (rule send_header_queue [OF writable_mono [OF w le_add1]])
  have b: "send_bytes client_msg 0 (length client_msg) (queue_out ?h (se_tr se)) =
      Some (queue_out (?h @ client_msg) (se_tr se))"
    using send_bytes_queue [OF queue_out_writable(1) [OF w], of 0 client_msg] queue_out_append [OF w] by simp
  from True assms(1) h b show ?thesis
    by (simp add: client_auth_frame_def client_answer_def goto_state_eq lifecycle.simps)
next
  case False
  with assms(1) show ?thesis
    by (cases se) (simp add: client_auth_frame_def client_answer_def)
qed

lemma client_ready_act:
  assumes "state_of se = PW_STATE_READY" and "writable (se_tr se) (length (fst (client_answer PW_STATE_READY f)))"
    and "unread (se_tr se) = frame_header_bytes f @ pl @ rest" and "is_message f pl"
    and "fr_opcode f = opcode_byte PW_OPCODE_DATA_TEXT \<Longrightarrow> length pl < 128"
  shows "client_ready_frame (length (frame_header_bytes f)) (frame_received f junk) se =
    Some \<lparr>se_conn = (se_conn se)\<lparr>conn_state := snd (client_answer (state_of se) f)\<rparr>,
          se_tr = queue_out (fst (client_answer (state_of se) f)) (se_tr se)\<rparr>"
proof -
  from assms(2) have ok: "transport_ok (se_tr se)" by (simp add: writable_def)
  note pay = payload_at [OF ok assms(3)]
  have send: "send_header g (se_tr se) = Some (queue_out (frame_header_bytes g) (se_tr se))"
    if "fst (client_answer PW_STATE_READY f) = frame_header_bytes g" for g
    using assms(2) that by (intro send_header_queue) simp
  have len: "unat (fr_length f) = length pl" using assms(4) by (simp add: is_message_def)
  consider (dat) "fr_opcode f = opcode_byte PW_OPCODE_DATA_TEXT" | (pong) "fr_opcode f = opcode_byte PW_OPCODE_PONG"
    | (close) "fr_opcode f = opcode_byte PW_OPCODE_CLOSE"
    | (other) "fr_opcode f \<noteq> opcode_byte PW_OPCODE_DATA_TEXT" "fr_opcode f \<noteq> opcode_byte PW_OPCODE_PONG"
        "fr_opcode f \<noteq> opcode_byte PW_OPCODE_CLOSE" by blast
  then show ?thesis
  proof cases
    case dat
    with print_payload_ok [OF pay(2) assms(5)] obtain k where
      "print_payload (tr_read_buffer (se_tr se)) (tr_read_pos (se_tr se) + length (frame_header_bytes f)) (length pl) = Some k"
      by blast
    with dat send len assms(1) show ?thesis
      by (cases se) (simp add: client_ready_frame_def client_answer_def Let_def)
  next
    case pong
    with send assms(1) show ?thesis
      by (simp add: client_ready_frame_def client_answer_def goto_state_eq to_closing Let_def)
  next
    case close
    with assms(1) show ?thesis
      by (cases se) (simp add: client_ready_frame_def client_answer_def goto_state_eq to_closing Let_def)
  next
    case other
    with assms(1) show ?thesis
      by (cases se) (simp add: client_ready_frame_def client_answer_def Let_def)
  qed
qed

lemma client_frame_step:
  assumes "state_of se = PW_STATE_AUTHENTICATING \<or> state_of se = PW_STATE_READY" and "writable (se_tr se) 33"
    and "unread (se_tr se) = frame_header_bytes f @ pl @ rest" and "is_message f pl"
    and "fr_opcode f = opcode_byte PW_OPCODE_DATA_TEXT \<Longrightarrow> length pl < 128"
  shows "client_step ev se = Some (True,
    \<lparr>se_conn = (se_conn se)\<lparr>conn_state := snd (client_answer (state_of se) f)\<rparr>,
     se_tr = queue_out (fst (client_answer (state_of se) f))
       (transport_consume (se_tr se) (length (frame_header_bytes f) + length pl))\<rparr>)"
proof -
  from assms(2) have ok: "transport_ok (se_tr se)" by (simp add: writable_def)
  show ?thesis
  proof (cases "state_of se = PW_STATE_READY")
    case True
    have w: "writable (se_tr se) (length (fst (client_answer PW_STATE_READY f)))"
      by (rule writable_mono [OF assms(2)]) (simp add: length_client_answer)
    note frame_branch_message [OF ok assms(3,4), where act = client_ready_frame,
        OF client_ready_act [OF True w assms(3-5)]]
    with True show ?thesis by (simp add: client_step_def Let_def consume_queue_out)
  next
    case False
    with assms(1) have st: "state_of se = PW_STATE_AUTHENTICATING" by simp
    note frame_branch_message [OF ok assms(3,4), where act = client_auth_frame,
        OF client_auth_act [OF st assms(2)]]
    with st show ?thesis by (simp add: client_step_def Let_def consume_queue_out)
  qed
qed

lemma client_loop_step:
  assumes "client_step ev se = Some (True, se')" and "tr_read_len (se_tr se') < tr_read_len (se_tr se)"
  shows "client_read_loop ev se = client_read_loop ev se'"
  using assms by (simp add: client_read_loop.simps [of ev se])

lemma client_loop_stop:
  assumes "client_step ev se = Some (False, se')"
  shows "client_read_loop ev se = Some (if tr_read_len (se_tr se) = 0 then se else se')"
  using assms by (simp add: client_read_loop.simps [of ev se])

text \<open>What a ready client says to a stream of frames none of which ends the session.\<close>

definition client_serves :: "pw_frame \<times> byte list \<Rightarrow> bool" where
  "client_serves m \<longleftrightarrow> is_message (fst m) (snd m) \<and> fr_opcode (fst m) \<noteq> opcode_byte PW_OPCODE_PONG \<and>
     fr_opcode (fst m) \<noteq> opcode_byte PW_OPCODE_CLOSE \<and>
     (fr_opcode (fst m) = opcode_byte PW_OPCODE_DATA_TEXT \<longrightarrow> length (snd m) < 128)"

definition client_reply :: "pw_frame \<times> byte list \<Rightarrow> byte list" where
  "client_reply m = fst (client_answer PW_STATE_READY (fst m))"

interpretation client_pipe: pipeline client_step client_read_loop client_serves client_reply
proof unfold_locales
  fix se :: session and f :: pw_frame and pl rest :: "byte list" and ev :: poll_event
  assume a: "state_of se = PW_STATE_READY" "writable (se_tr se) (length (client_reply (f, pl)))"
    "unread (se_tr se) = frame_header_bytes f @ pl @ rest" "client_serves (f, pl)"
  then have ok: "transport_ok (se_tr se)" and m: "is_message f pl"
    and t: "fr_opcode f = opcode_byte PW_OPCODE_DATA_TEXT \<Longrightarrow> length pl < 128"
    by (simp_all add: writable_def client_serves_def)
  have "snd (client_answer PW_STATE_READY f) = PW_STATE_READY"
    using a(4) by (auto simp: client_serves_def client_answer_def)
  then have same: "(se_conn se)\<lparr>conn_state := snd (client_answer (state_of se) f)\<rparr> = se_conn se"
    using a(1) [symmetric] by simp
  from a(2) have w: "writable (se_tr se) (length (fst (client_answer PW_STATE_READY f)))" by (simp add: client_reply_def)
  note frame_branch_message [OF ok a(3) m, where act = client_ready_frame, OF client_ready_act [OF a(1) w a(3) m t]]
  with a(1) same show "client_step ev se = Some (True, se\<lparr>se_tr := queue_out (client_reply (f, pl))
      (transport_consume (se_tr se) (length (frame_header_bytes f) + length pl))\<rparr>)"
    by (cases se) (simp add: client_step_def Let_def consume_queue_out client_reply_def)
next
  fix se :: session and f :: pw_frame and pl :: "byte list" and k :: nat and ev :: poll_event
  assume "state_of se = PW_STATE_READY" and "transport_ok (se_tr se)" and "unread (se_tr se) = take k (frame_header_bytes f @ pl)"
    and "is_message f pl" and "k < length (frame_header_bytes f @ pl)"
  then show "client_step ev se = Some (False, se)"
    using frame_branch_partial [of se k f pl] by (simp add: client_step_def Let_def)
qed (rule client_loop_step client_loop_stop; assumption)+

lemma client_start_ok:
  assumes "length (tr_read_buffer jt) = 4096" and "length (tr_write_buffer jt) = 4096" and "0 \<le> sock"
  shows "\<exists>c. client_start fcntl jt jc sock w = Some c \<and> state_of c = PW_STATE_HANDSHAKING \<and>
    transport_ok (se_tr c) \<and> tr_read_len (se_tr c) = 0 \<and> 0 \<le> tr_fd (se_tr c) \<and>
    unsent (se_tr c) = client_hello_bytes client_hello_sent \<and> tr_write_pos (se_tr c) = 0"
proof -
  have wf: "client_hello_wf client_hello_sent" and l: "length (client_hello_bytes client_hello_sent) = 24"
    by (simp_all add: client_hello_wf_def client_hello_sent_def client_hello_bytes_def)
  have ser: "pw_handshake_serialize_client_hello client_hello_sent (tr_write_buffer jt) 0 4096 =
      Some (24, put_bytes (tr_write_buffer jt) 0 (client_hello_bytes client_hello_sent))"
    using serialize_client_hello_bytes [of 0 4096 "tr_write_buffer jt", OF _ wf] l assms(2) by simp
  show ?thesis
    using ser l assms bytes_at_put_bytes_same [of 0 "client_hello_bytes client_hello_sent" "tr_write_buffer jt"]
    by (simp add: client_start_def pw_transport_init_def pw_connection_init_def goto_state_eq lifecycle.simps
        transport_ok_def unsent_def length_put_bytes Let_def)
qed

section \<open>Properties\<close>

text \<open>C23: The client takes any server hello for an acceptance: whatever its magic, version and status, also
  the one that rejects the protocol version, the client goes on to AUTHENTICATING and sends the AUTH
  frame with the secret token, in a form the server accepts.\<close>

theorem client_sends_token_on_any_hello:
  assumes "state_of se = PW_STATE_HANDSHAKING" and "server_hello_wf h" and "writable (se_tr se) 32"
    and "server_hello_wf (pe_server_hello ev (tr_read_len (se_tr se)))"
    and "unread (se_tr se) = server_hello_bytes h @ rest"
  shows "\<exists>se'. client_step ev se = Some (True, se') \<and> state_of se' = PW_STATE_AUTHENTICATING \<and>
    unread (se_tr se') = rest \<and> transport_ok (se_tr se') \<and>
    unsent (se_tr se') = unsent (se_tr se)
      @ frame_header_bytes (frame_init PW_VERSION_1 PW_FLAG_FIN PW_OPCODE_AUTH 0 17)
      @ auth_bytes (PW_AUTH_METHOD_BEARER, secret_token)"
proof -
  from assms(3) have ok: "transport_ok (se_tr se)" by (simp add: writable_def)
  have n: "42 \<le> tr_read_len (se_tr se)"
    using length_unread [OF ok] assms(5) length_server_hello_bytes [OF assms(2)] by simp
  have "writable (transport_consume (se_tr se) 42) (length client_auth_message + 0)"
    using writable_mono [OF writable_consume [OF assms(3) n]] length_client_auth_message by simp
  from queue_out_writable [OF this] client_handshake_step [OF assms] consume_ok(2,5) [OF ok n] assms(5)
  show ?thesis
    by (simp add: client_auth_message_def writable_def length_server_hello_bytes [OF assms(2)])
qed

theorem client_sends_token_on_any_hello_witness:
  "let h = server_hello_zero\<lparr>sh_status := 1002\<rparr>;
       se = \<lparr>se_conn = \<lparr>conn_state = PW_STATE_HANDSHAKING\<rparr>, se_tr = transport_with (server_hello_bytes h)\<rparr>
   in \<exists>se'. client_step quiet_poll se = Some (True, se') \<and> state_of se' = PW_STATE_AUTHENTICATING"
proof -
  define h where "h = server_hello_zero\<lparr>sh_status := 1002\<rparr>"
  define se where "se = \<lparr>se_conn = \<lparr>conn_state = PW_STATE_HANDSHAKING\<rparr>, se_tr = transport_with (server_hello_bytes h)\<rparr>"
  have wf: "server_hello_wf h" by (simp add: h_def server_hello_wf_def server_hello_zero_def)
  then have "writable (se_tr se) 32" "server_hello_wf (pe_server_hello quiet_poll (tr_read_len (se_tr se)))"
    by (simp_all add: se_def quiet_poll_def length_server_hello_bytes)
  from client_sends_token_on_any_hello [of se h quiet_poll "[]", OF _ wf this] show ?thesis
    unfolding h_def [symmetric] se_def [symmetric] Let_def by (auto simp: se_def)
qed

end
