(* ===== verification/PW_Dialogue.thy ===== *)
theory PW_Dialogue
  imports PW_Server PW_Client
begin

text \<open>
  The two programs talking to each other. In a turn a program receives what the other one has sent, in
  one round of \<open>poll\<close>, and sends all that it has to send in the next one. What a turn needs to know of
  a program is the locale \<open>speaker\<close>; the server and the client are its interpretations.
\<close>

section \<open>Turns\<close>

definition bring :: "byte list \<Rightarrow> poll_event \<Rightarrow> poll_event" where
  "bring bs ev =
     ev\<lparr>pe_result := 1, pe_in := True, pe_out := True, pe_recv := (\<lambda>fd n. Received (take n bs) 0),
        pe_send := (\<lambda>fd bs. Sent (length bs) 0)\<rparr>"

definition flush :: "poll_event \<Rightarrow> poll_event" where
  "flush ev = ev\<lparr>pe_result := 1, pe_in := False, pe_out := True, pe_send := (\<lambda>fd bs. Sent (length bs) 0)\<rparr>"

definition turn ::
  "(poll_event list \<Rightarrow> session \<Rightarrow> session option) \<Rightarrow> poll_event \<Rightarrow> byte list \<Rightarrow> session \<Rightarrow> (byte list \<times> session) option" where
  "turn run ev bs se = do {
     se1 \<leftarrow> run [bring bs ev] se;
     se2 \<leftarrow> run [flush ev] se1;
     Some (unsent (se_tr se1), se2)
   }"

text \<open>A transport with nothing to read and nothing to write, and one that has just received some bytes.\<close>

definition idle :: "pw_transport \<Rightarrow> bool" where
  "idle tr \<longleftrightarrow> transport_ok tr \<and> 0 \<le> tr_fd tr \<and> tr_read_len tr = 0 \<and> tr_write_len tr = 0 \<and> tr_write_pos tr = 0"

definition arrived :: "byte list \<Rightarrow> pw_transport \<Rightarrow> bool" where
  "arrived bs tr \<longleftrightarrow> writable tr 4096 \<and> 0 \<le> tr_fd tr \<and> unread tr = bs \<and> unsent tr = []"

definition open_session :: "session \<Rightarrow> bool" where
  "open_session se \<longleftrightarrow> state_of se \<noteq> PW_STATE_CLOSED \<and> state_of se \<noteq> PW_STATE_DISCONNECTED"

text \<open>A session that is closing is closed once everything is written.\<close>

definition closing_done :: "pw_connection \<Rightarrow> pw_connection" where
  "closing_done c = (if conn_state c = PW_STATE_CLOSING then c\<lparr>conn_state := PW_STATE_CLOSED\<rparr> else c)"

lemma read_arrives:
  assumes "idle tr" and "length bs \<le> 4096"
  shows "\<exists>tr'. arrived bs tr' \<and>
    pw_transport_read (\<lambda>fd n. Received (take n bs) 0) errno (Some tr) = Some (int (length bs), 0, Some tr')"
proof -
  from assms(1) have i: "transport_ok tr" "0 \<le> tr_fd tr" "tr_read_len tr = 0" "tr_write_len tr = 0" "tr_write_pos tr = 0"
    by (simp_all add: idle_def)
  then have e: "unread tr = []" "unsent tr = []" by (simp_all add: unread_def unsent_def)
  have "recv_fits (\<lambda>fd n. Received (take n bs) 0) tr" using assms(2) i(3) by (simp add: recv_fits_def)
  then show ?thesis
    by (rule read_cases [OF i(1,2), of _ errno]) (use i e assms(2) in \<open>auto simp: arrived_def writable_def\<close>)
qed

lemma poll_write_flush:
  assumes "transport_ok (se_tr se)" and "0 \<le> tr_fd (se_tr se)" and "0 < tr_write_len (se_tr se)"
    and "tr_read_len (se_tr se) = 0"
  shows "\<exists>tr'. idle tr' \<and> poll_write (flush ev) se = Some \<lparr>se_conn = closing_done (se_conn se), se_tr = tr'\<rparr>"
proof -
  have "send_ok (pe_send (flush ev))" by (simp add: flush_def send_ok_def)
  then show ?thesis
  proof (rule write_cases [OF assms(1,2), of "pe_send (flush ev)" "pe_errno (flush ev)"])
    assume "tr_write_len (se_tr se) = 0"
    with assms(3) show ?thesis by simp
  next
    fix n e tr'
    assume w: "pe_send (flush ev) (tr_fd (se_tr se)) (unsent (se_tr se)) = Sent n e"
      "pw_transport_write (pe_send (flush ev)) (pe_errno (flush ev)) (Some (se_tr se)) = Some (int n, e, Some tr')"
      "transport_ok tr'" "tr_fd tr' = tr_fd (se_tr se)" "tr_write_len tr' = tr_write_len (se_tr se) - n"
      "n = tr_write_len (se_tr se) \<Longrightarrow> tr_write_pos tr' = 0" "tr_read_len tr' = tr_read_len (se_tr se)"
    then have "n = tr_write_len (se_tr se)" using assms(1) by (simp add: flush_def)
    with w assms(2,4) show ?thesis
      by (intro exI [of _ tr'])
        (cases se, simp add: idle_def closing_done_def poll_write_def Let_def goto_state_eq to_closed)
  next
    fix e assume "pe_send (flush ev) (tr_fd (se_tr se)) (unsent (se_tr se)) = SendFailed e"
    then show ?thesis by (simp add: flush_def)
  qed
qed

text \<open>A program answers what has arrived: it consumes all of it in one turn of its loop, queues an answer
  and goes to a connection that is not yet at its end.\<close>

definition answers ::
  "(poll_event \<Rightarrow> session \<Rightarrow> (bool \<times> session) option) \<Rightarrow> poll_event \<Rightarrow> session \<Rightarrow> byte list \<Rightarrow> byte list \<Rightarrow>
   pw_connection \<Rightarrow> bool" where
  "answers step ev se bs out c' \<longleftrightarrow>
     bs \<noteq> [] \<and> length bs \<le> 4096 \<and> out \<noteq> [] \<and> length out \<le> 4096 \<and>
     conn_state c' \<noteq> PW_STATE_CLOSED \<and> conn_state c' \<noteq> PW_STATE_DISCONNECTED \<and>
     (\<forall>tr. arrived bs tr \<longrightarrow> step (bring bs ev) (se\<lparr>se_tr := tr\<rparr>) =
       Some (True, \<lparr>se_conn = c', se_tr = queue_out out (transport_consume tr (length bs))\<rparr>))"

lemma answersD:
  assumes "answers step ev se bs out c'"
  shows "bs \<noteq> []" "length bs \<le> 4096" "out \<noteq> []" "length out \<le> 4096"
    "conn_state c' \<noteq> PW_STATE_CLOSED" "conn_state c' \<noteq> PW_STATE_DISCONNECTED"
    "arrived bs tr \<Longrightarrow> step (bring bs ev) (se\<lparr>se_tr := tr\<rparr>) =
      Some (True, \<lparr>se_conn = c', se_tr = queue_out out (transport_consume tr (length bs))\<rparr>)"
  using assms by (simp_all add: answers_def)

locale speaker =
  fixes step :: "poll_event \<Rightarrow> session \<Rightarrow> (bool \<times> session) option"
    and run :: "poll_event list \<Rightarrow> session \<Rightarrow> session option"
  assumes run_bring: "open_session se \<Longrightarrow> idle (se_tr se) \<Longrightarrow> bs \<noteq> [] \<Longrightarrow> length bs \<le> 4096 \<Longrightarrow>
      \<exists>tr. arrived bs tr \<and> (\<forall>se'. step (bring bs ev) (se\<lparr>se_tr := tr\<rparr>) = Some (True, se') \<longrightarrow>
        tr_read_len (se_tr se') = 0 \<longrightarrow> run [bring bs ev] se = Some se')"
    and run_flush: "open_session se \<Longrightarrow> 0 < tr_write_len (se_tr se) \<Longrightarrow> run [flush ev] se = poll_write (flush ev) se"
begin

lemma turn_answers:
  assumes "open_session se" and "idle (se_tr se)" and "answers step ev se bs out c'"
  shows "\<exists>tr'. idle tr' \<and> turn run ev bs se = Some (out, \<lparr>se_conn = closing_done c', se_tr = tr'\<rparr>)"
proof -
  note a = answersD [OF assms(3)]
  from run_bring [OF assms(1,2) a(1,2), of ev] obtain tr where tr: "arrived bs tr"
    and runs: "\<And>se'. step (bring bs ev) (se\<lparr>se_tr := tr\<rparr>) = Some (True, se') \<Longrightarrow>
      tr_read_len (se_tr se') = 0 \<Longrightarrow> run [bring bs ev] se = Some se'" by auto
  define tr1 where "tr1 = transport_consume tr (length bs)"
  define se1 where "se1 = \<lparr>se_conn = c', se_tr = queue_out out tr1\<rparr>"
  from tr have ok: "transport_ok tr" and w: "writable tr 4096" and fd: "0 \<le> tr_fd tr"
    and u: "unread tr = bs" "unsent tr = []" by (simp_all add: arrived_def writable_def)
  have len: "tr_read_len tr = length bs" using length_unread [OF ok] u by simp
  note c = consume_ok [OF ok eq_refl [OF len [symmetric]]]
  have w1: "writable tr1 (length out + 0)"
    using writable_mono [OF writable_consume [OF w], of "length bs"] len a(4)
    by (auto simp: tr1_def intro: writable_mono)
  note q = queue_out_writable [OF w1]
  have fd1: "0 \<le> tr_fd (se_tr se1)" using fd by (simp add: se1_def tr1_def transport_consume_def)
  have r1: "tr_read_len (se_tr se1) = 0" using c(3) len by (simp add: se1_def tr1_def)
  have ok1: "transport_ok (se_tr se1)" using q(1) by (simp add: se1_def writable_def)
  have u1: "unsent (se_tr se1) = out" using q(2) c(5) u by (simp add: se1_def tr1_def)
  have l1: "0 < tr_write_len (se_tr se1)" using a(3) by (simp add: se1_def)
  have o1: "open_session se1" using a(5,6) by (simp add: open_session_def se1_def)
  from runs [of se1] a(7) [OF tr] r1 have "run [bring bs ev] se = Some se1"
    by (simp add: se1_def tr1_def)
  moreover have "run [flush ev] se1 = poll_write (flush ev) se1" by (rule run_flush [OF o1 l1])
  moreover from poll_write_flush [OF ok1 fd1 l1 r1, of ev] obtain tr' where "idle tr'"
    "poll_write (flush ev) se1 = Some \<lparr>se_conn = closing_done (se_conn se1), se_tr = tr'\<rparr>"
    by blast
  ultimately show ?thesis
    using u1 by (intro exI [of _ tr']) (simp add: turn_def se1_def)
qed

end

section \<open>The programs as speakers\<close>

lemma server_run_bring:
  assumes "open_session se" and "idle (se_tr se)" and "bs \<noteq> []" and "length bs \<le> 4096"
  shows "\<exists>tr. arrived bs tr \<and> server_session [bring bs ev] se = server_read_loop (bring bs ev) (se\<lparr>se_tr := tr\<rparr>)"
proof -
  from read_arrives [OF assms(2,4)] obtain tr where
    "arrived bs tr" "pw_transport_read (\<lambda>fd n. Received (take n bs) 0) (pe_errno ev) (Some (se_tr se)) = Some (int (length bs), 0, Some tr)"
    by blast
  then show ?thesis
    using assms by (intro exI [of _ tr])
      (auto simp: server_round_def bring_def Let_def idle_def open_session_def split: bind_split option.splits)
qed

lemma client_run_bring:
  assumes "open_session se" and "idle (se_tr se)" and "bs \<noteq> []" and "length bs \<le> 4096"
  shows "\<exists>tr. arrived bs tr \<and> client_session [bring bs ev] se = client_read_loop (bring bs ev) (se\<lparr>se_tr := tr\<rparr>)"
proof -
  from read_arrives [OF assms(2,4)] obtain tr where
    "arrived bs tr" "pw_transport_read (\<lambda>fd n. Received (take n bs) 0) (pe_errno ev) (Some (se_tr se)) = Some (int (length bs), 0, Some tr)"
    by blast
  then show ?thesis
    using assms by (intro exI [of _ tr])
      (auto simp: client_round_def bring_def Let_def idle_def open_session_def split: bind_split option.splits)
qed

lemma arrived_read_len: "arrived bs tr \<Longrightarrow> tr_read_len tr = length bs"
  using length_unread [of tr] by (auto simp: arrived_def writable_def)

interpretation server: speaker server_step server_session
proof unfold_locales
  fix se :: session and bs :: "byte list" and ev :: poll_event
  assume a: "open_session se" "idle (se_tr se)" "bs \<noteq> []" "length bs \<le> 4096"
  from server_run_bring [OF a, of ev] obtain tr where
    tr: "arrived bs tr" "server_session [bring bs ev] se = server_read_loop (bring bs ev) (se\<lparr>se_tr := tr\<rparr>)" by blast
  have "server_session [bring bs ev] se = Some se'"
    if "server_step (bring bs ev) (se\<lparr>se_tr := tr\<rparr>) = Some (True, se')" "tr_read_len (se_tr se') = 0" for se'
    using that tr(2) arrived_read_len [OF tr(1)] a(3)
    by (simp add: server_read_loop.simps [of _ "se\<lparr>se_tr := tr\<rparr>"] server_read_loop.simps [of _ se'])
  with tr(1) show "\<exists>tr. arrived bs tr \<and> (\<forall>se'. server_step (bring bs ev) (se\<lparr>se_tr := tr\<rparr>) = Some (True, se') \<longrightarrow>
      tr_read_len (se_tr se') = 0 \<longrightarrow> server_session [bring bs ev] se = Some se')" by blast
next
  fix se :: session and ev :: poll_event
  assume "open_session se" and "0 < tr_write_len (se_tr se)"
  then show "server_session [flush ev] se = poll_write (flush ev) se"
    by (cases "poll_write (flush ev) se") (simp_all add: open_session_def server_round_def flush_def)
qed

interpretation client: speaker client_step client_session
proof unfold_locales
  fix se :: session and bs :: "byte list" and ev :: poll_event
  assume a: "open_session se" "idle (se_tr se)" "bs \<noteq> []" "length bs \<le> 4096"
  from client_run_bring [OF a, of ev] obtain tr where
    tr: "arrived bs tr" "client_session [bring bs ev] se = client_read_loop (bring bs ev) (se\<lparr>se_tr := tr\<rparr>)" by blast
  have "client_session [bring bs ev] se = Some se'"
    if "client_step (bring bs ev) (se\<lparr>se_tr := tr\<rparr>) = Some (True, se')" "tr_read_len (se_tr se') = 0" for se'
    using that tr(2) arrived_read_len [OF tr(1)] a(3)
    by (simp add: client_read_loop.simps [of _ "se\<lparr>se_tr := tr\<rparr>"] client_read_loop.simps [of _ se'])
  with tr(1) show "\<exists>tr. arrived bs tr \<and> (\<forall>se'. client_step (bring bs ev) (se\<lparr>se_tr := tr\<rparr>) = Some (True, se') \<longrightarrow>
      tr_read_len (se_tr se') = 0 \<longrightarrow> client_session [bring bs ev] se = Some se')" by blast
next
  fix se :: session and ev :: poll_event
  assume "open_session se" and "0 < tr_write_len (se_tr se)"
  then show "client_session [flush ev] se = poll_write (flush ev) se"
    by (cases "poll_write (flush ev) se") (simp_all add: open_session_def client_round_def flush_def)
qed

section \<open>The turns of the dialogue\<close>

definition hello_junk :: "poll_event \<Rightarrow> bool" where
  "hello_junk ev \<longleftrightarrow> (\<forall>k. client_hello_wf (pe_client_hello ev k) \<and> server_hello_wf (pe_server_hello ev k))"

lemma bring_simps [simp]:
  "pe_client_hello (bring bs ev) = pe_client_hello ev" "pe_server_hello (bring bs ev) = pe_server_hello ev"
  by (simp_all add: bring_def)

lemma arrivedD:
  assumes "arrived bs tr"
  shows "n \<le> 4096 \<Longrightarrow> writable tr n" and "unread tr = bs" and "tr_read_len tr = length bs"
  using assms arrived_read_len [OF assms] by (auto simp: arrived_def intro: writable_mono)

lemma server_answers_hello:
  assumes "state_of se = PW_STATE_HANDSHAKING" and "hello_junk ev" and "client_hello_wf h" and "ch_version h = 1"
  shows "answers server_step ev se (client_hello_bytes h) (server_hello_bytes (hello_answer h))
    ((se_conn se)\<lparr>conn_state := PW_STATE_AUTHENTICATING\<rparr>)"
proof -
  have l: "length (client_hello_bytes h) \<in> {24, 40}" "length (server_hello_bytes (hello_answer h)) = 42"
    using length_client_hello_bytes [OF assms(3)] length_server_hello_bytes [OF hello_answer_wf] by simp_all
  then have "client_hello_bytes h \<noteq> []" "server_hello_bytes (hello_answer h) \<noteq> []" by auto
  moreover have "server_step (bring (client_hello_bytes h) ev) (se\<lparr>se_tr := tr\<rparr>) = Some (True,
      \<lparr>se_conn = (se_conn se)\<lparr>conn_state := PW_STATE_AUTHENTICATING\<rparr>,
       se_tr = queue_out (server_hello_bytes (hello_answer h)) (transport_consume tr (length (client_hello_bytes h)))\<rparr>)"
    if "arrived (client_hello_bytes h) tr" for tr
    using server_handshake_step [of "se\<lparr>se_tr := tr\<rparr>" h "bring (client_hello_bytes h) ev" "[]"] assms
      arrivedD [OF that] by (simp add: hello_junk_def)
  ultimately show ?thesis using l by (auto simp: answers_def)
qed

text \<open>The client's authentication as a message.\<close>

lemma client_auth_message_ok:
  "client_auth_message = frame_header_bytes (frame_init PW_VERSION_1 PW_FLAG_FIN PW_OPCODE_AUTH 0 17) @
     auth_bytes (PW_AUTH_METHOD_BEARER, secret_token)"
  "is_message (frame_init PW_VERSION_1 PW_FLAG_FIN PW_OPCODE_AUTH 0 17) (auth_bytes (PW_AUTH_METHOD_BEARER, secret_token))"
  "fr_opcode (frame_init PW_VERSION_1 PW_FLAG_FIN PW_OPCODE_AUTH 0 17) = opcode_byte PW_OPCODE_AUTH"
  "grants secret_token (auth_bytes (PW_AUTH_METHOD_BEARER, secret_token))"
  "client_auth_message \<noteq> []"
  by (simp_all add: client_auth_message_def is_message_def frame_init_def grants_def length_auth_bytes length_secret_token)

lemma server_answers_auth:
  assumes "state_of se = PW_STATE_AUTHENTICATING"
  shows "answers server_step ev se client_auth_message (frame_header_bytes (server_reply PW_OPCODE_AUTH_OK 0))
    ((se_conn se)\<lparr>conn_state := PW_STATE_READY\<rparr>)"
proof -
  note a = client_auth_message_ok
  have "server_step (bring client_auth_message ev) (se\<lparr>se_tr := tr\<rparr>) = Some (True,
      \<lparr>se_conn = (se_conn se)\<lparr>conn_state := PW_STATE_READY\<rparr>,
       se_tr = queue_out (frame_header_bytes (server_reply PW_OPCODE_AUTH_OK 0)) (transport_consume tr (length client_auth_message))\<rparr>)"
    if "arrived client_auth_message tr" for tr
    using server_auth_step [OF _ _ _ a(2,3), of "se\<lparr>se_tr := tr\<rparr>" "[]" "bring client_auth_message ev"] assms a(4)
      arrivedD [OF that] by (simp add: Let_def a(1))
  then show ?thesis
    using length_client_auth_message length_frame_header_bytes [of "server_reply PW_OPCODE_AUTH_OK 0"] a(5)
    by (auto simp: answers_def)
qed

lemma server_answers_frame:
  assumes "state_of se = PW_STATE_READY" and "served (f, pl)" and "server_answer (f, pl) \<noteq> []" and "length pl \<le> 128"
  shows "answers server_step ev se (frame_header_bytes f @ pl) (server_answer (f, pl)) (se_conn se)"
proof -
  let ?bs = "frame_header_bytes f @ pl" and ?out = "server_answer (f, pl)"
  have l: "length ?bs \<le> 4096" "length ?out \<le> 4096"
    using assms(4) length_frame_header_bytes [of f]
      length_frame_header_bytes [of "server_reply PW_OPCODE_PONG (fr_stream_id f)"]
    by (simp_all add: server_answer_def)
  have "server_step (bring ?bs ev) (se\<lparr>se_tr := tr\<rparr>) = Some (True, \<lparr>se_conn = se_conn se,
      se_tr = queue_out ?out (transport_consume tr (length ?bs))\<rparr>)"
    if "arrived ?bs tr" for tr
    using server_ready_step [of "se\<lparr>se_tr := tr\<rparr>" f pl "[]" "bring ?bs ev"] assms(1,2) l(2)
      arrivedD [OF that] by simp
  then show ?thesis using l assms(1,3) by (simp add: answers_def)
qed

lemma server_answers_close:
  assumes "state_of se = PW_STATE_READY" and "is_message f []" and "fr_opcode f = opcode_byte PW_OPCODE_CLOSE"
  shows "answers server_step ev se (frame_header_bytes f) (frame_header_bytes (server_reply PW_OPCODE_CLOSE 0))
    ((se_conn se)\<lparr>conn_state := PW_STATE_CLOSING\<rparr>)"
proof -
  let ?bs = "frame_header_bytes f"
  have "server_step (bring ?bs ev) (se\<lparr>se_tr := tr\<rparr>) = Some (True, \<lparr>se_conn = (se_conn se)\<lparr>conn_state := PW_STATE_CLOSING\<rparr>,
      se_tr = queue_out (frame_header_bytes (server_reply PW_OPCODE_CLOSE 0)) (transport_consume tr (length ?bs))\<rparr>)"
    if "arrived ?bs tr" for tr
    using server_close_step [of "se\<lparr>se_tr := tr\<rparr>" f "[]" "[]" "bring ?bs ev"] assms
      arrivedD [OF that] by simp
  then show ?thesis
    using length_frame_header_bytes [of f] length_frame_header_bytes [of "server_reply PW_OPCODE_CLOSE 0"]
    by (simp add: answers_def)
qed

lemma client_answers_hello:
  assumes "state_of se = PW_STATE_HANDSHAKING" and "hello_junk ev" and "server_hello_wf h"
  shows "answers client_step ev se (server_hello_bytes h) client_auth_message
    ((se_conn se)\<lparr>conn_state := PW_STATE_AUTHENTICATING\<rparr>)"
proof -
  let ?bs = "server_hello_bytes h"
  have l: "length ?bs = 42" using assms(3) by (rule length_server_hello_bytes)
  then have "?bs \<noteq> []" by auto
  moreover have "client_step (bring ?bs ev) (se\<lparr>se_tr := tr\<rparr>) = Some (True,
      \<lparr>se_conn = (se_conn se)\<lparr>conn_state := PW_STATE_AUTHENTICATING\<rparr>,
       se_tr = queue_out client_auth_message (transport_consume tr (length ?bs))\<rparr>)"
    if "arrived ?bs tr" for tr
    using client_handshake_step [of "se\<lparr>se_tr := tr\<rparr>" h "bring ?bs ev" "[]"] assms l
      arrivedD [OF that] by (simp add: hello_junk_def)
  ultimately show ?thesis using l length_client_auth_message client_auth_message_ok(5) by (simp add: answers_def)
qed

lemma client_answers_frame:
  assumes "state_of se = PW_STATE_AUTHENTICATING \<or> state_of se = PW_STATE_READY"
    and "is_message f pl" and "length pl < 128" and "client_answer (state_of se) f = (out, s)" and "out \<noteq> []"
  shows "answers client_step ev se (frame_header_bytes f @ pl) out ((se_conn se)\<lparr>conn_state := s\<rparr>)"
proof -
  let ?bs = "frame_header_bytes f @ pl"
  have l: "length ?bs \<le> 4096" using assms(3) length_frame_header_bytes [of f] by simp
  have "length (frame_header_bytes g) \<le> 4078" "length (frame_header_bytes g) \<le> 4096" for g
    using length_frame_header_bytes [of g] by simp_all
  then have lo: "length out \<le> 4096"
    using assms(4) by (auto simp: client_answer_def client_msg_def split: if_splits)
  have "s \<noteq> PW_STATE_CLOSED \<and> s \<noteq> PW_STATE_DISCONNECTED"
    using assms(1,4) by (auto simp: client_answer_def split: if_splits)
  moreover have "client_step (bring ?bs ev) (se\<lparr>se_tr := tr\<rparr>) = Some (True, \<lparr>se_conn = (se_conn se)\<lparr>conn_state := s\<rparr>,
      se_tr = queue_out out (transport_consume tr (length ?bs))\<rparr>)"
    if "arrived ?bs tr" for tr
    using client_frame_step [of "se\<lparr>se_tr := tr\<rparr>" f pl "[]" "bring ?bs ev"] assms(1-4)
      arrivedD [OF that] by simp
  ultimately show ?thesis using l lo assms(5) by (simp add: answers_def)
qed

lemma server_turn_hello:
  assumes "state_of se = PW_STATE_HANDSHAKING" and "idle (se_tr se)" and "hello_junk ev"
    and "client_hello_wf h" and "ch_version h = 1"
  shows "\<exists>tr'. idle tr' \<and> turn server_session ev (client_hello_bytes h) se =
    Some (server_hello_bytes (hello_answer h), \<lparr>se_conn = (se_conn se)\<lparr>conn_state := PW_STATE_AUTHENTICATING\<rparr>, se_tr = tr'\<rparr>)"
  using server.turn_answers [OF _ assms(2) server_answers_hello [OF assms(1,3-5)]] assms(1)
  by (simp add: open_session_def closing_done_def)

lemma server_turn_auth:
  assumes "state_of se = PW_STATE_AUTHENTICATING" and "idle (se_tr se)"
  shows "\<exists>tr'. idle tr' \<and> turn server_session ev client_auth_message se =
    Some (frame_header_bytes (server_reply PW_OPCODE_AUTH_OK 0), \<lparr>se_conn = (se_conn se)\<lparr>conn_state := PW_STATE_READY\<rparr>, se_tr = tr'\<rparr>)"
  using server.turn_answers [OF _ assms(2) server_answers_auth [OF assms(1)]] assms(1)
  by (simp add: open_session_def closing_done_def)

lemma server_turn_ready:
  assumes "state_of se = PW_STATE_READY" and "idle (se_tr se)" and "served (f, pl)"
    and "server_answer (f, pl) \<noteq> []" and "length pl \<le> 128"
  shows "\<exists>tr'. idle tr' \<and> turn server_session ev (frame_header_bytes f @ pl) se =
    Some (server_answer (f, pl), \<lparr>se_conn = se_conn se, se_tr = tr'\<rparr>)"
  using server.turn_answers [OF _ assms(2) server_answers_frame [OF assms(1,3-5)]] assms(1)
  by (simp add: open_session_def closing_done_def)

lemma server_turn_close:
  assumes "state_of se = PW_STATE_READY" and "idle (se_tr se)" and "is_message f []"
    and "fr_opcode f = opcode_byte PW_OPCODE_CLOSE"
  shows "\<exists>tr'. idle tr' \<and> turn server_session ev (frame_header_bytes f) se =
    Some (frame_header_bytes (server_reply PW_OPCODE_CLOSE 0), \<lparr>se_conn = (se_conn se)\<lparr>conn_state := PW_STATE_CLOSED\<rparr>, se_tr = tr'\<rparr>)"
  using server.turn_answers [OF _ assms(2) server_answers_close [OF assms(1,3,4)]] assms(1)
  by (simp add: open_session_def closing_done_def)

lemma client_turn_hello:
  assumes "state_of se = PW_STATE_HANDSHAKING" and "idle (se_tr se)" and "hello_junk ev" and "server_hello_wf h"
  shows "\<exists>tr'. idle tr' \<and> turn client_session ev (server_hello_bytes h) se =
    Some (client_auth_message, \<lparr>se_conn = (se_conn se)\<lparr>conn_state := PW_STATE_AUTHENTICATING\<rparr>, se_tr = tr'\<rparr>)"
  using client.turn_answers [OF _ assms(2) client_answers_hello [OF assms(1,3,4)]] assms(1)
  by (simp add: open_session_def closing_done_def)

lemma client_turn_frame:
  assumes "state_of se = PW_STATE_AUTHENTICATING \<or> state_of se = PW_STATE_READY" and "idle (se_tr se)"
    and "is_message f pl" and "length pl < 128" and "client_answer (state_of se) f = (out, s)" and "out \<noteq> []"
  shows "\<exists>tr'. idle tr' \<and> turn client_session ev (frame_header_bytes f @ pl) se =
    Some (out, \<lparr>se_conn = closing_done ((se_conn se)\<lparr>conn_state := s\<rparr>), se_tr = tr'\<rparr>)"
  using client.turn_answers [OF _ assms(2) client_answers_frame [OF assms(1,3-6)]] assms(1)
  by (auto simp: open_session_def)

section \<open>The dialogue\<close>

text \<open>The bytes are given to the server, its answer to the client, and so on, \<open>n\<close> times; the result is
  the log of what went over the wire, the last answer of the client and both sessions.\<close>

fun dialogue ::
  "nat \<Rightarrow> poll_event \<Rightarrow> byte list \<Rightarrow> session \<Rightarrow> session \<Rightarrow>
   ((byte list \<times> byte list) list \<times> byte list \<times> session \<times> session) option" where
  "dialogue 0 ev bs c s = Some ([], bs, c, s)"
| "dialogue (Suc n) ev bs c s = do {
     (out, s) \<leftarrow> turn server_session ev bs s;
     (bs', c) \<leftarrow> turn client_session ev out c;
     (log, r) \<leftarrow> dialogue n ev bs' c s;
     Some ((bs, out) # log, r)
   }"

abbreviation frame_bytes :: "pw_opcode \<Rightarrow> byte list" where
  "frame_bytes opc \<equiv> frame_header_bytes (frame_init PW_VERSION_1 PW_FLAG_FIN opc 0 0)"

lemma dialogue_add:
  assumes "dialogue m ev bs c s = Some (log, bs', c', s')" and "dialogue n ev bs' c' s' = Some (log', r)"
  shows "dialogue (m + n) ev bs c s = Some (log @ log', r)"
  using assms by (induction m arbitrary: bs c s log) (auto split: bind_splits)

text \<open>Up to the authentication, and from there to the CLOSE of the client.\<close>

lemma dialogue_opens:
  assumes "state_of c = PW_STATE_HANDSHAKING" and "idle (se_tr c)" and "state_of s = PW_STATE_HANDSHAKING"
    and "idle (se_tr s)" and "hello_junk ev"
  shows "\<exists>c' s'. dialogue 2 ev (client_hello_bytes client_hello_sent) c s = Some (
      [(client_hello_bytes client_hello_sent, server_hello_bytes (hello_answer client_hello_sent)),
       (client_auth_message, frame_bytes PW_OPCODE_AUTH_OK)],
      frame_header_bytes client_data_frame @ client_msg, c', s') \<and>
    state_of c' = PW_STATE_READY \<and> idle (se_tr c') \<and> state_of s' = PW_STATE_READY \<and> idle (se_tr s')"
proof -
  let ?ok = "frame_init PW_VERSION_1 PW_FLAG_FIN PW_OPCODE_AUTH_OK 0 0"
  have wf: "client_hello_wf client_hello_sent" and v: "ch_version client_hello_sent = 1"
    by (simp_all add: client_hello_wf_def client_hello_sent_def)
  from server_turn_hello [OF assms(3-5) wf v] obtain s1 where
    S1: "state_of s1 = PW_STATE_AUTHENTICATING" "idle (se_tr s1)" "turn server_session ev (client_hello_bytes client_hello_sent) s =
      Some (server_hello_bytes (hello_answer client_hello_sent), s1)" by fastforce
  from client_turn_hello [OF assms(1,2,5) hello_answer_wf, of client_hello_sent] obtain c1 where
    C1: "state_of c1 = PW_STATE_AUTHENTICATING" "idle (se_tr c1)"
      "turn client_session ev (server_hello_bytes (hello_answer client_hello_sent)) c = Some (client_auth_message, c1)" by fastforce
  from server_turn_auth [OF S1(1,2), of ev] obtain s2 where
    S2: "state_of s2 = PW_STATE_READY" "idle (se_tr s2)"
      "turn server_session ev client_auth_message s1 = Some (frame_bytes PW_OPCODE_AUTH_OK, s2)"
    by (fastforce simp: server_reply_def)
  have "client_answer (state_of c1) ?ok = (frame_header_bytes client_data_frame @ client_msg, PW_STATE_READY)"
    using C1(1) by (simp add: client_answer_def frame_init_def)
  from client_turn_frame [OF disjI1 [OF C1(1)] C1(2) _ _ this, of "[]" ev] obtain c2 where
    C2: "state_of c2 = PW_STATE_READY" "idle (se_tr c2)" "turn client_session ev (frame_bytes PW_OPCODE_AUTH_OK) c1 =
      Some (frame_header_bytes client_data_frame @ client_msg, c2)"
    by (fastforce simp: closing_done_def is_message_def frame_init_def)
  have "dialogue (Suc (Suc 0)) ev (client_hello_bytes client_hello_sent) c s = Some (
      [(client_hello_bytes client_hello_sent, server_hello_bytes (hello_answer client_hello_sent)),
       (client_auth_message, frame_bytes PW_OPCODE_AUTH_OK)],
      frame_header_bytes client_data_frame @ client_msg, c2, s2)"
    by (simp only: dialogue.simps Option.bind.bind_lunit prod.case S1(3) C1(3) S2(3) C2(3))
  with S2 C2 show ?thesis by (auto simp: numeral_2_eq_2)
qed

lemma dialogue_closes:
  assumes "state_of c = PW_STATE_READY" and "idle (se_tr c)" and "state_of s = PW_STATE_READY" and "idle (se_tr s)"
  shows "\<exists>c' s'. dialogue 2 ev (frame_header_bytes client_data_frame @ client_msg) c s = Some (
      [(frame_header_bytes client_data_frame @ client_msg, frame_header_bytes client_data_frame @ client_msg),
       (frame_bytes PW_OPCODE_PING, frame_bytes PW_OPCODE_PONG)],
      frame_bytes PW_OPCODE_CLOSE, c', s') \<and>
    state_of c' = PW_STATE_CLOSED \<and> state_of s' = PW_STATE_READY \<and> idle (se_tr s')"
proof -
  let ?fr = "\<lambda>opc. frame_init PW_VERSION_1 PW_FLAG_FIN opc 0 0" and ?data = "frame_header_bytes client_data_frame @ client_msg"
  have d: "is_message client_data_frame client_msg" "length client_msg < 128" "is_data client_data_frame"
    "fr_opcode client_data_frame = opcode_byte PW_OPCODE_DATA_TEXT"
    by (simp_all add: is_message_def client_data_frame_def client_msg_def frame_init_def is_data_def)
  have m: "is_message (?fr opc) []" "fr_opcode (?fr opc) = opcode_byte opc" "fr_stream_id (?fr opc) = 0" for opc
    by (simp_all add: is_message_def frame_init_def)
  from server_turn_ready [OF assms(3,4), of client_data_frame client_msg ev] d obtain s1 where
    S1: "state_of s1 = PW_STATE_READY" "idle (se_tr s1)" "turn server_session ev ?data s = Some (?data, s1)"
    using assms(3) by (fastforce simp: served_def server_answer_def)
  have "client_answer (state_of c) client_data_frame = (frame_bytes PW_OPCODE_PING, PW_STATE_READY)"
    using assms(1) d(4) by (simp add: client_answer_def)
  from client_turn_frame [OF disjI2 [OF assms(1)] assms(2) d(1,2) this, of ev] obtain c1 where
    C1: "state_of c1 = PW_STATE_READY" "idle (se_tr c1)" "turn client_session ev ?data c = Some (frame_bytes PW_OPCODE_PING, c1)"
    by (fastforce simp: closing_done_def)
  from server_turn_ready [OF S1(1,2), of "?fr PW_OPCODE_PING" "[]" ev] m obtain s2 where
    S2: "state_of s2 = PW_STATE_READY" "idle (se_tr s2)"
      "turn server_session ev (frame_bytes PW_OPCODE_PING) s1 = Some (frame_bytes PW_OPCODE_PONG, s2)"
    using S1(1) by (fastforce simp: served_def server_answer_def is_data_def server_reply_def)
  have "client_answer (state_of c1) (?fr PW_OPCODE_PONG) = (frame_bytes PW_OPCODE_CLOSE, PW_STATE_CLOSING)"
    using C1(1) m(2) by (simp add: client_answer_def)
  from client_turn_frame [OF disjI2 [OF C1(1)] C1(2) m(1) _ this, of ev] obtain c2 where
    C2: "state_of c2 = PW_STATE_CLOSED" "turn client_session ev (frame_bytes PW_OPCODE_PONG) c1 = Some (frame_bytes PW_OPCODE_CLOSE, c2)"
    by (fastforce simp: closing_done_def)
  have "dialogue (Suc (Suc 0)) ev ?data c s = Some (
      [(?data, ?data), (frame_bytes PW_OPCODE_PING, frame_bytes PW_OPCODE_PONG)], frame_bytes PW_OPCODE_CLOSE, c2, s2)"
    by (simp only: dialogue.simps Option.bind.bind_lunit prod.case S1(3) C1(3) S2(3) C2(2))
  with S2 C2 show ?thesis by (auto simp: numeral_2_eq_2)
qed

lemma dialogue_script:
  assumes "state_of c = PW_STATE_HANDSHAKING" and "idle (se_tr c)" and "state_of s = PW_STATE_HANDSHAKING"
    and "idle (se_tr s)" and "hello_junk ev"
  shows "\<exists>c' s'. dialogue 4 ev (client_hello_bytes client_hello_sent) c s = Some (
      [(client_hello_bytes client_hello_sent, server_hello_bytes (hello_answer client_hello_sent)),
       (client_auth_message, frame_bytes PW_OPCODE_AUTH_OK),
       (frame_header_bytes client_data_frame @ client_msg, frame_header_bytes client_data_frame @ client_msg),
       (frame_bytes PW_OPCODE_PING, frame_bytes PW_OPCODE_PONG)],
      frame_bytes PW_OPCODE_CLOSE, c', s') \<and>
    state_of c' = PW_STATE_CLOSED \<and> state_of s' = PW_STATE_READY \<and> idle (se_tr s')"
proof -
  from dialogue_opens [OF assms] obtain c1 s1 where
    o: "dialogue 2 ev (client_hello_bytes client_hello_sent) c s = Some (
      [(client_hello_bytes client_hello_sent, server_hello_bytes (hello_answer client_hello_sent)),
       (client_auth_message, frame_bytes PW_OPCODE_AUTH_OK)],
      frame_header_bytes client_data_frame @ client_msg, c1, s1)"
    "state_of c1 = PW_STATE_READY" "idle (se_tr c1)" "state_of s1 = PW_STATE_READY" "idle (se_tr s1)" by blast
  from dialogue_closes [OF o(2-5), of ev] dialogue_add [OF o(1), of 2] show ?thesis by fastforce
qed

end
