(* ===== verification/PW_Stream.thy ===== *)
theory PW_Stream
  imports PW_Dialogue
begin

text \<open>
  A stream of frames that reaches a ready program in pieces of any size, one round of \<open>poll\<close> each, with
  all that the program has to say written in the round after it. What it answers depends on the stream
  only and not on the way it is cut. The locale \<open>stream_program\<close> extends \<open>pipeline\<close> to the contract of a program of which
  this holds; the server and the client are its interpretations.
\<close>

section \<open>Pieces\<close>

text \<open>The turns of a program over the pieces, with what it sends in all of them.\<close>

fun turns ::
  "(poll_event list \<Rightarrow> session \<Rightarrow> session option) \<Rightarrow> (poll_event \<times> byte list) list \<Rightarrow> session \<Rightarrow> (byte list \<times> session) option" where
  "turns run [] se = Some ([], se)"
| "turns run ((ev, c) # cs) se = do {
     (out, se1) \<leftarrow> turn run ev c se;
     (outs, se2) \<leftarrow> turns run cs se1;
     Some (out @ outs, se2)
   }"

text \<open>Everything said, and the start of a message perhaps not yet understood.\<close>

definition settled :: "pw_transport \<Rightarrow> bool" where
  "settled tr \<longleftrightarrow> transport_ok tr \<and> 0 \<le> tr_fd tr \<and> tr_write_len tr = 0 \<and> tr_write_pos tr = 0"

lemma read_piece:
  assumes "settled tr" and "length (unread tr) + length c \<le> 4096" and "c \<noteq> []"
  shows "\<exists>tr'. pw_transport_read (pe_recv (bring c ev)) errno (Some tr) = Some (int (length c), 0, Some tr') \<and>
    settled tr' \<and> unread tr' = unread tr @ c"
proof -
  from assms(1) have s: "transport_ok tr" "0 \<le> tr_fd tr" "tr_write_len tr = 0" "tr_write_pos tr = 0"
    by (simp_all add: settled_def)
  have fits: "recv_fits (pe_recv (bring c ev)) tr" by (simp add: recv_fits_def bring_def)
  have len: "tr_read_len tr + length c \<le> 4096" "0 < length c" using assms(2,3) s(1) by simp_all
  then show ?thesis
    by (rule_tac read_cases [OF s(1,2) fits, of errno])
      (use s len in \<open>auto simp: settled_def bring_def min_def\<close>)
qed

lemma poll_write_settles:
  assumes "transport_ok (se_tr se)" and "0 \<le> tr_fd (se_tr se)" and "tr_write_pos (se_tr se) = 0"
    and "state_of se = PW_STATE_READY" and "tr_write_len (se_tr se) \<noteq> 0"
  shows "\<exists>tr'. poll_write (flush ev) se = Some (se\<lparr>se_tr := tr'\<rparr>) \<and> settled tr' \<and> unread tr' = unread (se_tr se)"
proof -
  have ok: "send_ok (pe_send (flush ev))" by (simp add: flush_def send_ok_def)
  show ?thesis
    by (rule write_cases [OF assms(1,2) ok, of "pe_errno (flush ev)"])
      (use assms in \<open>auto simp: poll_write_def flush_def settled_def Let_def goto_state_eq\<close>)
qed

section \<open>A ready program and a stream in pieces\<close>

text \<open>A program with a pipeline, whose answers are no longer than what they answer; a round with something to read gives
  it to the inner loop, and one without writes what there is to write.\<close>

locale stream_program = pipeline step loop serves answer
  for step :: "poll_event \<Rightarrow> session \<Rightarrow> (bool \<times> session) option"
    and loop :: "poll_event \<Rightarrow> session \<Rightarrow> session option"
    and serves :: "pw_frame \<times> byte list \<Rightarrow> bool"
    and answer :: "pw_frame \<times> byte list \<Rightarrow> byte list" +
  fixes run :: "poll_event list \<Rightarrow> session \<Rightarrow> session option"
  assumes serves_message: "serves m \<Longrightarrow> is_message (fst m) (snd m)"
    and answer_short: "serves m \<Longrightarrow> length (answer m) \<le> length (msg_enc frame_header_bytes m)"
    and brings_piece: "state_of se = PW_STATE_READY \<Longrightarrow> tr_write_len (se_tr se) = 0 \<Longrightarrow> 0 < n \<Longrightarrow>
      pw_transport_read (pe_recv (bring c ev)) (pe_errno ev) (Some (se_tr se)) = Some (int n, 0, Some tr) \<Longrightarrow>
      loop (bring c ev) (se\<lparr>se_tr := tr\<rparr>) = Some se' \<Longrightarrow> run [bring c ev] se = Some se'"
    and writes_all: "state_of se = PW_STATE_READY \<Longrightarrow>
      run [flush ev] se = (if tr_write_len (se_tr se) = 0 then Some se else poll_write (flush ev) se)"
begin

lemma answers_short:
  "\<forall>m \<in> set ms. serves m \<Longrightarrow>
     length (concat (map answer ms)) \<le> length (concat (map (msg_enc frame_header_bytes) ms))"
  by (induction ms) (auto intro: add_mono answer_short)

lemma turn_piece:
  assumes "state_of se = PW_STATE_READY" and "settled (se_tr se)" and "c \<noteq> []"
    and "length (unread (se_tr se)) + length c \<le> 4096"
    and "unread (se_tr se) @ c = concat (map (msg_enc frame_header_bytes) ms) @ take k (msg_enc frame_header_bytes m)"
    and "\<forall>m \<in> set ms. serves m" and "is_message (fst m) (snd m)" and "k < length (msg_enc frame_header_bytes m)"
  shows "\<exists>tr'. turn run ev c se = Some (concat (map answer ms), se\<lparr>se_tr := tr'\<rparr>) \<and>
    settled tr' \<and> unread tr' = take k (msg_enc frame_header_bytes m)"
proof -
  from read_piece [OF assms(2,4,3), of ev "pe_errno ev"] obtain tr1 where
    r: "pw_transport_read (pe_recv (bring c ev)) (pe_errno ev) (Some (se_tr se)) = Some (int (length c), 0, Some tr1)"
    and tr1: "settled tr1" "unread tr1 = unread (se_tr se) @ c" by blast
  have "length (unread (se_tr se) @ c) \<le> 4096" using assms(4) by simp
  then have "length (concat (map (msg_enc frame_header_bytes) ms)) \<le> 4096" unfolding assms(5) by simp
  with answers_short [OF assms(6)] have "length (concat (map answer ms)) \<le> 4096" by linarith
  with tr1(1) have w: "writable tr1 (length (concat (map answer ms)))"
    by (simp add: writable_def settled_def)
  have e: "unsent tr1 = []" using tr1(1) by (simp add: settled_def unsent_def)
  have u: "unread tr1 = concat (map (msg_enc frame_header_bytes) ms) @ take k (msg_enc frame_header_bytes m)"
    using tr1(2) assms(5) by simp
  from ready_loop [of "se\<lparr>se_tr := tr1\<rparr>" ms k m "bring c ev"] assms(1,6-8) w u e obtain tr2 where
    l: "loop (bring c ev) (se\<lparr>se_tr := tr1\<rparr>) = Some (se\<lparr>se_tr := tr2\<rparr>)"
    and tr2: "transport_ok tr2" "unread tr2 = take k (msg_enc frame_header_bytes m)"
      "unsent tr2 = concat (map answer ms)" "tr_fd tr2 = tr_fd tr1" "tr_write_pos tr2 = 0"
    by auto
  from assms(2) have "tr_write_len (se_tr se) = 0" by (simp add: settled_def)
  from brings_piece [OF assms(1) this _ r l] assms(3) have b: "run [bring c ev] se = Some (se\<lparr>se_tr := tr2\<rparr>)" by simp
  have fd: "0 \<le> tr_fd tr2" using tr1(1) tr2(4) by (simp add: settled_def)
  have "\<exists>tr3. run [flush ev] (se\<lparr>se_tr := tr2\<rparr>) = Some (se\<lparr>se_tr := tr3\<rparr>) \<and> settled tr3 \<and> unread tr3 = unread tr2"
  proof (cases "tr_write_len tr2 = 0")
    case True
    with writes_all [of "se\<lparr>se_tr := tr2\<rparr>" ev] assms(1) tr2 fd show ?thesis
      by (intro exI [of _ tr2]) (simp add: settled_def)
  next
    case False
    with writes_all [of "se\<lparr>se_tr := tr2\<rparr>" ev] poll_write_settles [of "se\<lparr>se_tr := tr2\<rparr>" ev] assms(1) tr2 fd
    show ?thesis by simp
  qed
  with b tr2 show ?thesis by (auto simp: turn_def)
qed

lemma turns_pieces:
  assumes "state_of se = PW_STATE_READY" and "settled (se_tr se)"
    and "unread (se_tr se) @ concat (map snd cs) =
      concat (map (msg_enc frame_header_bytes) ms) @ take k (msg_enc frame_header_bytes m)"
    and "\<forall>m \<in> set ms. serves m" and "is_message (fst m) (snd m)" and "k < length (msg_enc frame_header_bytes m)"
    and "\<forall>c \<in> set cs. snd c \<noteq> [] \<and> B + length (snd c) \<le> 4096" and "length (unread (se_tr se)) \<le> B"
    and "\<forall>m' \<in> set (m # ms). length (msg_enc frame_header_bytes m') \<le> B"
    and "cs = [] \<Longrightarrow> ms = [] \<and> unread (se_tr se) = take k (msg_enc frame_header_bytes m)"
  shows "\<exists>tr'. turns run cs se = Some (concat (map answer ms), se\<lparr>se_tr := tr'\<rparr>) \<and>
    settled tr' \<and> unread tr' = take k (msg_enc frame_header_bytes m)"
  using assms
proof (induction cs arbitrary: se ms)
  case Nil
  then show ?case by (intro exI [of _ "se_tr se"]) simp
next
  case (Cons ec cs)
  let ?enc = "msg_enc frame_header_bytes"
  obtain ev c where ec: "ec = (ev, c)" by (cases ec)
  show ?case
  proof (cases cs)
    case Nil
    with Cons.prems ec have "unread (se_tr se) @ c = concat (map ?enc ms) @ take k (?enc m)" by simp
    from turn_piece [OF Cons.prems(1,2) _ _ this Cons.prems(4-6), of ev] Cons.prems(7,8) ec Nil
    show ?thesis by auto
  next
    case (Cons ec' cs')
    have "(unread (se_tr se) @ c) @ concat (map snd cs) = concat (map ?enc ms) @ take k (?enc m)"
      using Cons.prems(3) ec by simp
    from cut_stream [OF this Cons.prems(6)] obtain ms1 ms2 m1 k1 where
      cut: "ms = ms1 @ ms2" "m1 \<in> set ms \<or> m1 = m" "k1 < length (?enc m1)"
        "unread (se_tr se) @ c = concat (map ?enc ms1) @ take k1 (?enc m1)"
        "take k1 (?enc m1) @ concat (map snd cs) = concat (map ?enc ms2) @ take k (?enc m)" by blast
    have s: "\<forall>m \<in> set ms1. serves m" "\<forall>m \<in> set ms2. serves m" using Cons.prems(4) cut(1) by simp_all
    have m1: "is_message (fst m1) (snd m1)"
      using cut(2) Cons.prems(4,5) serves_message by metis
    have c: "c \<noteq> []" "length (unread (se_tr se)) + length c \<le> 4096" using Cons.prems(7,8) ec by auto
    from turn_piece [OF Cons.prems(1,2) c cut(4) s(1) m1 cut(3), of ev] obtain tr1 where
      t1: "turn run ev c se = Some (concat (map answer ms1), se\<lparr>se_tr := tr1\<rparr>)"
        "settled tr1" "unread tr1 = take k1 (?enc m1)" by blast
    have B: "length (take k1 (?enc m1)) \<le> B"
      using cut(2) Cons.prems(9) by (auto simp: min_def intro: le_trans)
    have "\<exists>tr'. turns run cs (se\<lparr>se_tr := tr1\<rparr>) =
        Some (concat (map answer ms2), se\<lparr>se_tr := tr1\<rparr>\<lparr>se_tr := tr'\<rparr>) \<and>
        settled tr' \<and> unread tr' = take k (?enc m)"
      by (rule Cons.IH) (use Cons.prems t1 cut s B \<open>cs = ec' # cs'\<close> in \<open>simp_all del: length_take\<close>)
    with t1(1) ec cut(1) show ?thesis by auto
  qed
qed

text \<open>All pieces together: what is said is the answers in order.\<close>

lemma serves_pieces:
  assumes "state_of se = PW_STATE_READY" and "idle (se_tr se)"
    and "concat (map snd cs) = concat (map (msg_enc frame_header_bytes) ms) @ take k (msg_enc frame_header_bytes m)"
    and "\<forall>m \<in> set ms. serves m" and "is_message (fst m) (snd m)" and "k < length (msg_enc frame_header_bytes m)"
    and "\<forall>m' \<in> set (m # ms). \<forall>c \<in> set cs. snd c \<noteq> [] \<and> length (msg_enc frame_header_bytes m') + length (snd c) \<le> 4096"
  shows "\<exists>tr'. turns run cs se = Some (concat (map answer ms), se\<lparr>se_tr := tr'\<rparr>) \<and>
    transport_ok tr' \<and> unread tr' = take k (msg_enc frame_header_bytes m) \<and> unsent tr' = []"
proof -
  from assms(2) have i: "settled (se_tr se)" "unread (se_tr se) = []"
    by (simp_all add: idle_def settled_def unread_def)
  define B where "B = Max ((\<lambda>m. length (msg_enc frame_header_bytes m)) ` set (m # ms))"
  have B: "\<forall>m' \<in> set (m # ms). length (msg_enc frame_header_bytes m') \<le> B" by (simp add: B_def)
  have "B \<in> (\<lambda>m. length (msg_enc frame_header_bytes m)) ` set (m # ms)"
    unfolding B_def by (rule Max_in) simp_all
  with assms(7) have c: "\<forall>c \<in> set cs. snd c \<noteq> [] \<and> B + length (snd c) \<le> 4096" by auto
  have "ms = [] \<and> unread (se_tr se) = take k (msg_enc frame_header_bytes m)" if "cs = []"
    using that assms(3) i(2) by (cases ms) (simp_all add: msg_enc_def)
  with turns_pieces [OF assms(1) i(1) _ assms(4-6) c _ B] i(2) assms(3) obtain tr' where
    "turns run cs se = Some (concat (map answer ms), se\<lparr>se_tr := tr'\<rparr>)"
    "settled tr'" "unread tr' = take k (msg_enc frame_header_bytes m)" by auto
  then show ?thesis by (auto simp: settled_def unsent_def)
qed

end

section \<open>The programs\<close>

lemma length_server_answer:
  assumes "served m"
  shows "length (server_answer m) \<le> length (msg_enc frame_header_bytes m)"
proof -
  have "frame_header_bytes (server_reply PW_OPCODE_PONG (fr_stream_id (fst m))) =
      frame_header_bytes (fst m\<lparr>fr_version := 1, fr_flags := 0x10, fr_opcode := opcode_byte PW_OPCODE_PONG, fr_length := 0\<rparr>)"
    by (simp add: server_reply_def frame_header_bytes_def frame_init_def)
  also have "length \<dots> \<le> length (frame_header_bytes (fst m))"
    by (simp add: frame_header_bytes_def varint_bytes.simps [of 0] Suc_le_eq)
  finally show ?thesis by (simp add: server_answer_def msg_enc_def)
qed

interpretation server_stream: stream_program server_step server_read_loop served server_answer server_session
proof unfold_locales
  fix se se' :: session and tr :: pw_transport and n :: nat and c :: "byte list" and ev :: poll_event
  assume a: "state_of se = PW_STATE_READY" "tr_write_len (se_tr se) = 0" "0 < n"
    "pw_transport_read (pe_recv (bring c ev)) (pe_errno ev) (Some (se_tr se)) = Some (int n, 0, Some tr)"
    "server_read_loop (bring c ev) (se\<lparr>se_tr := tr\<rparr>) = Some se'"
  have "pe_result (bring c ev) = 1" "pe_in (bring c ev)" "pe_errno (bring c ev) = pe_errno ev"
    by (simp_all add: bring_def)
  with a show "server_session [bring c ev] se = Some se'" by (simp add: server_round_def)
next
  fix se :: session and ev :: poll_event
  assume "state_of se = PW_STATE_READY"
  then show "server_session [flush ev] se = (if tr_write_len (se_tr se) = 0 then Some se else poll_write (flush ev) se)"
    by (cases "poll_write (flush ev) se") (simp_all add: server_round_def flush_def)
qed (simp_all add: served_def length_server_answer)

lemma length_client_reply:
  assumes "client_serves m"
  shows "length (client_reply m) \<le> length (msg_enc frame_header_bytes m)"
proof -
  have "length (frame_header_bytes (frame_init PW_VERSION_1 PW_FLAG_FIN PW_OPCODE_PING 0 0)) = 7"
    by (simp add: frame_header_bytes_def frame_init_def varint_bytes.simps [of 0])
  then have "length (frame_header_bytes (frame_init PW_VERSION_1 PW_FLAG_FIN PW_OPCODE_PING 0 0)) \<le> length (frame_header_bytes (fst m))"
    using length_frame_header_bytes [of "fst m"] by simp
  with assms show ?thesis by (simp add: client_reply_def client_serves_def client_answer_def msg_enc_def)
qed

interpretation client_stream: stream_program client_step client_read_loop client_serves client_reply client_session
proof unfold_locales
  fix se se' :: session and tr :: pw_transport and n :: nat and c :: "byte list" and ev :: poll_event
  assume a: "state_of se = PW_STATE_READY" "tr_write_len (se_tr se) = 0" "0 < n"
    "pw_transport_read (pe_recv (bring c ev)) (pe_errno ev) (Some (se_tr se)) = Some (int n, 0, Some tr)"
    "client_read_loop (bring c ev) (se\<lparr>se_tr := tr\<rparr>) = Some se'"
  have "pe_result (bring c ev) = 1" "pe_in (bring c ev)" "pe_errno (bring c ev) = pe_errno ev"
    by (simp_all add: bring_def)
  with a show "client_session [bring c ev] se = Some se'" by (simp add: client_round_def)
next
  fix se :: session and ev :: poll_event
  assume "state_of se = PW_STATE_READY"
  then show "client_session [flush ev] se = (if tr_write_len (se_tr se) = 0 then Some se else poll_write (flush ev) se)"
    by (cases "poll_write (flush ev) se") (simp_all add: client_round_def flush_def)
qed (simp_all add: client_serves_def length_client_reply)

section \<open>The answers as messages\<close>

text \<open>The frame that a header stands for on the wire, and the messages a ready server replies with.\<close>

definition on_wire :: "pw_frame \<Rightarrow> pw_frame" where
  "on_wire f = f\<lparr>fr_magic := (PW_MAGIC_BYTE_1, PW_MAGIC_BYTE_2), fr_header_crc := 0, fr_payload := None\<rparr>"

definition server_replies :: "pw_frame \<times> byte list \<Rightarrow> (pw_frame \<times> byte list) list" where
  "server_replies m =
     (if is_data (fst m) then [(on_wire (fst m), snd m)]
      else if fr_opcode (fst m) = opcode_byte PW_OPCODE_PING
      then [(on_wire (frame_init PW_VERSION_1 PW_FLAG_FIN PW_OPCODE_PONG (fr_stream_id (fst m)) 0), [])]
      else [])"

lemma on_wire_simps [simp]:
  "frame_header_bytes (on_wire f) = frame_header_bytes f" "frame_wire_ok (on_wire f)" "fr_length (on_wire f) = fr_length f"
  by (simp_all add: on_wire_def frame_header_bytes_def frame_wire_ok_def)

lemma server_answer_replies:
  "server_answer m = concat (map (msg_enc frame_header_bytes) (server_replies m))"
  by (simp add: server_answer_def server_replies_def server_reply_def msg_enc_def)

lemma server_answers_replies:
  "concat (map server_answer ms) = concat (map (msg_enc frame_header_bytes) (concat (map server_replies ms)))"
  by (induction ms) (simp_all add: server_answer_replies)

lemma server_replies_ok:
  assumes "served m" and "r \<in> set (server_replies m)"
  shows "msg_ok frame_wire_ok (\<lambda>f. unat (fr_length f)) r"
  using assms
  by (auto simp: server_replies_def served_def is_message_def msg_ok_def frame_init_def split: if_splits)

lemma server_answers_decode:
  assumes "\<forall>m \<in> set ms. served m"
  shows "decode_all (msg_dec frame_header_read (\<lambda>f. unat (fr_length f))) (concat (map server_answer ms)) =
    (concat (map server_replies ms), [])"
proof -
  have "msg_dec frame_header_read (\<lambda>f. unat (fr_length f)) [] = None"
    by (simp add: msg_dec_def frame_header_read_dec frame_dec_def)
  moreover have "\<forall>r \<in> set (concat (map server_replies ms)). msg_ok frame_wire_ok (\<lambda>f. unat (fr_length f)) r"
    using assms server_replies_ok by auto
  ultimately show ?thesis
    using fh.msg.decode_stream [of "concat (map server_replies ms)" "[]"] unfolding server_answers_replies by simp
qed

text \<open>A ready client on such a stream: one PING for every text frame and nothing else, until a PONG or a CLOSE.\<close>

lemma client_serves_pieces:
  assumes "state_of se = PW_STATE_READY" and "idle (se_tr se)"
    and "concat (map snd cs) = concat (map (msg_enc frame_header_bytes) ms) @ take k (msg_enc frame_header_bytes m)"
    and "\<forall>m \<in> set ms. client_serves m" and "is_message (fst m) (snd m)" and "k < length (msg_enc frame_header_bytes m)"
    and "\<forall>m' \<in> set (m # ms). \<forall>c \<in> set cs. snd c \<noteq> [] \<and> length (msg_enc frame_header_bytes m') + length (snd c) \<le> 4096"
  shows "\<exists>tr'. turns client_session cs se = Some (concat (map client_reply ms), se\<lparr>se_tr := tr'\<rparr>) \<and>
    transport_ok tr' \<and> unread tr' = take k (msg_enc frame_header_bytes m) \<and> unsent tr' = [] \<and>
    concat (map client_reply ms) = concat (replicate (length (filter (\<lambda>m. fr_opcode (fst m) = opcode_byte PW_OPCODE_DATA_TEXT) ms))
      (frame_bytes PW_OPCODE_PING))"
proof -
  have "\<forall>m \<in> set ms. client_serves m \<Longrightarrow> concat (map client_reply ms) =
      concat (replicate (length (filter (\<lambda>m. fr_opcode (fst m) = opcode_byte PW_OPCODE_DATA_TEXT) ms)) (frame_bytes PW_OPCODE_PING))" for ms
    by (induction ms) (simp_all add: client_reply_def client_answer_def client_serves_def)
  with client_stream.serves_pieces [OF assms] assms(4) show ?thesis by auto
qed

section \<open>Properties\<close>

text \<open>C8: A ready server serves a stream of frames however it is cut into pieces: complete messages, none of
  them a CLOSE and data of fewer than 128 bytes, arrive in pieces of any size, each with another content
  of the stack. All that the server sends, taken together, decodes into the replies to the messages in
  order, data frames with an echo of the same header and payload, pings with a pong on the same stream, and
  nothing else; a started message at the end is left unread. The pieces must fit behind the longest
  message.\<close>

theorem server_serves_pieces:
  assumes "state_of se = PW_STATE_READY" and "idle (se_tr se)"
    and "concat (map snd cs) = concat (map (msg_enc frame_header_bytes) ms) @ take k (msg_enc frame_header_bytes m)"
    and "\<forall>m \<in> set ms. served m" and "is_message (fst m) (snd m)" and "k < length (msg_enc frame_header_bytes m)"
    and "\<forall>m' \<in> set (m # ms). \<forall>c \<in> set cs. snd c \<noteq> [] \<and> length (msg_enc frame_header_bytes m') + length (snd c) \<le> 4096"
  shows "\<exists>out tr'. turns server_session cs se = Some (out, se\<lparr>se_tr := tr'\<rparr>) \<and>
    out = concat (map server_answer ms) \<and>
    decode_all (msg_dec frame_header_read (\<lambda>f. unat (fr_length f))) out = (concat (map server_replies ms), []) \<and>
    transport_ok tr' \<and> unread tr' = take k (msg_enc frame_header_bytes m) \<and> unsent tr' = []"
proof -
  from server_stream.serves_pieces [OF assms] server_answers_decode [OF assms(4)] show ?thesis by auto
qed

theorem server_serves_pieces_witness:
  "let ping = (frame_init 1 0x10 PW_OPCODE_PING 5 0, []);
       dat = (frame_init 1 0x10 PW_OPCODE_DATA_TEXT 1 2, [0x68, 0x69]);
       bs = concat (map (msg_enc frame_header_bytes) [ping, dat]) @ take 3 (msg_enc frame_header_bytes ping);
       se = \<lparr>se_conn = \<lparr>conn_state = PW_STATE_READY\<rparr>, se_tr = transport_with []\<rparr>
   in \<exists>tr'. turns server_session [(quiet_poll, take 4 bs), (quiet_poll, drop 4 bs)] se =
        Some ([0x50, 0x57, 1, 0x10, 4, 5, 0, 0x50, 0x57, 1, 0x10, 2, 1, 2, 0x68, 0x69], se\<lparr>se_tr := tr'\<rparr>) \<and>
      unread tr' = [0x50, 0x57, 1]"
proof -
  define ping where "ping = (frame_init 1 0x10 PW_OPCODE_PING 5 0, [] :: byte list)"
  define dat where "dat = (frame_init 1 0x10 PW_OPCODE_DATA_TEXT 1 2, [0x68, 0x69 :: byte])"
  define bs where "bs = concat (map (msg_enc frame_header_bytes) [ping, dat]) @ take 3 (msg_enc frame_header_bytes ping)"
  define se where "se = \<lparr>se_conn = \<lparr>conn_state = PW_STATE_READY\<rparr>, se_tr = transport_with []\<rparr>"
  define cs where "cs = [(quiet_poll, take 4 bs), (quiet_poll, drop 4 bs)]"
  have e: "msg_enc frame_header_bytes ping = [0x50, 0x57, 1, 0x10, 3, 5, 0]"
    "msg_enc frame_header_bytes dat = [0x50, 0x57, 1, 0x10, 2, 1, 2, 0x68, 0x69]"
    by (simp_all add: ping_def dat_def msg_enc_def frame_header_bytes_def frame_init_def varint_bytes.simps
        word_le_nat_alt)
  have a: "server_answer ping = [0x50, 0x57, 1, 0x10, 4, 5, 0]" "server_answer dat = msg_enc frame_header_bytes dat"
    by (simp_all add: ping_def dat_def server_answer_def is_data_def server_reply_def msg_enc_def
        frame_header_bytes_def frame_init_def varint_bytes.simps word_le_nat_alt)
  have m: "served ping" "served dat" "is_message (fst ping) (snd ping)"
    by (simp_all add: ping_def dat_def served_def is_message_def is_data_def frame_init_def)
  have i: "state_of se = PW_STATE_READY" "idle (se_tr se)" by (simp_all add: se_def idle_def)
  have c: "concat (map snd cs) = concat (map (msg_enc frame_header_bytes) [ping, dat]) @ take 3 (msg_enc frame_header_bytes ping)"
    unfolding bs_def [symmetric] by (simp add: cs_def)
  have l: "length bs = 19" by (simp add: bs_def e)
  have "snd ec \<noteq> [] \<and> length (msg_enc frame_header_bytes m') + length (snd ec) \<le> 4096"
    if "m' \<in> set [ping, ping, dat]" "ec \<in> set cs" for m' ec
    using that l by (auto simp: cs_def e)
  then have "\<exists>out tr'. turns server_session cs se = Some (out, se\<lparr>se_tr := tr'\<rparr>) \<and>
    out = concat (map server_answer [ping, dat]) \<and>
    decode_all (msg_dec frame_header_read (\<lambda>f. unat (fr_length f))) out = (concat (map server_replies [ping, dat]), []) \<and>
    transport_ok tr' \<and> unread tr' = take 3 (msg_enc frame_header_bytes ping) \<and> unsent tr' = []"
    using m e(1) by (intro server_serves_pieces [OF i c]) auto
  then show ?thesis
    unfolding ping_def [symmetric] dat_def [symmetric] Let_def bs_def [symmetric] se_def [symmetric] cs_def [symmetric]
    by (auto simp: e a)
qed

end
