(* ===== verification/PW_StreamClient.thy ===== *)
theory PW_StreamClient
  imports PW_Server
begin

text \<open>
  The client written in PHP, \<open>php/src/PhoenixWire/StreamClient.php\<close>, which is used where the extension
  cannot be: its own encoding and decoding of frames and its own handshake over a stream of PHP.
  Exceptions are values. A stream holds the packets that are still to come; an empty packet is a
  moment in which nothing is there, which a blocking read waits over and another one reports. What
  the system takes of a write is a parameter. PHP's integers are words of 64 bits where they can overflow.
\<close>

section \<open>The code\<close>

datatype php_exception = PhpException string

type_synonym ('a, 's) php = "'s \<Rightarrow> (php_exception + 'a) \<times> 's"

definition and_then :: "(php_exception + 'a) \<times> 's \<Rightarrow> ('a \<Rightarrow> ('b, 's) php) \<Rightarrow> (php_exception + 'b) \<times> 's" where
  "and_then m f = (case m of (Inl e, s) \<Rightarrow> (Inl e, s) | (Inr a, s) \<Rightarrow> f a s)"

text \<open>The constants of the class.\<close>

definition STREAM_PW_MAGIC_BYTE_1 :: byte where "STREAM_PW_MAGIC_BYTE_1 = 0x50"
definition STREAM_PW_MAGIC_BYTE_2 :: byte where "STREAM_PW_MAGIC_BYTE_2 = 0x57"
definition STREAM_PW_VERSION_1 :: byte where "STREAM_PW_VERSION_1 = 1"
definition STREAM_DATA_BINARY :: byte where "STREAM_DATA_BINARY = 0x01"
definition STREAM_DATA_TEXT :: byte where "STREAM_DATA_TEXT = 0x02"
definition STREAM_PING :: byte where "STREAM_PING = 0x09"
definition STREAM_PONG :: byte where "STREAM_PONG = 0x0A"
definition STREAM_CLOSE :: byte where "STREAM_CLOSE = 0x08"
definition STREAM_AUTH :: byte where "STREAM_AUTH = 0x0F"
definition STREAM_AUTH_OK :: byte where "STREAM_AUTH_OK = 0x10"
definition STREAM_FLAG_FIN :: byte where "STREAM_FLAG_FIN = 0x80"
definition STREAM_CAP_AUTH_BEARER :: u32 where "STREAM_CAP_AUTH_BEARER = 0x04"

lemmas stream_consts = STREAM_PW_MAGIC_BYTE_1_def STREAM_PW_MAGIC_BYTE_2_def STREAM_PW_VERSION_1_def
  STREAM_DATA_BINARY_def STREAM_DATA_TEXT_def STREAM_PING_def STREAM_PONG_def STREAM_CLOSE_def STREAM_AUTH_def
  STREAM_AUTH_OK_def STREAM_FLAG_FIN_def STREAM_CAP_AUTH_BEARER_def

text \<open>The stream and the object. \<open>sk_wire\<close> is not a field of the class: it records what the system has
  taken over the connection, which outlives the stream.\<close>

record php_stream =
  ps_in :: "byte list list"
  ps_blocking :: bool
  ps_takes :: "byte list \<Rightarrow> nat"

record stream_client =
  sk_stream :: "php_stream option"
  sk_state :: int
  sk_token :: "byte list option"
  sk_wire :: "byte list"

text \<open>\<open>fread\<close> on a socket gives at most what one packet holds, and an empty string at the end of the stream or
  when it may not wait. What is left of a packet stays in the buffer of the stream.\<close>

fun php_fread :: "bool \<Rightarrow> nat \<Rightarrow> byte list list \<Rightarrow> byte list \<times> byte list list" where
  "php_fread blocking n [] = ([], [])"
| "php_fread blocking n (c # cs) =
     (if c = [] then (if blocking then php_fread blocking n cs else ([], cs))
      else (take n c, if length c \<le> n then cs else drop n c # cs))"

function readExact_loop :: "bool \<Rightarrow> nat \<Rightarrow> byte list \<Rightarrow> (byte list, byte list list) php" where
  "readExact_loop blocking n data cs =
     (if length data < n
      then case php_fread blocking (n - length data) cs of
        (chunk, cs) \<Rightarrow>
          if chunk = [] then (Inl (PhpException ''Connection closed unexpectedly''), cs)
          else readExact_loop blocking n (data @ chunk) cs
      else (Inr data, cs))"
  by pat_completeness auto
termination
  by (relation "measure (\<lambda>(b, n, data, cs). n - length data)") (auto simp: diff_less_mono2)

declare readExact_loop.simps [simp del]

definition readExact :: "bool \<Rightarrow> nat \<Rightarrow> (byte list, byte list list) php" where
  "readExact blocking n cs = readExact_loop blocking n [] cs"

text \<open>Reading takes a first part of what the packets hold.\<close>

lemma php_fread_takes:
  "php_fread blocking n cs = (chunk, cs') \<Longrightarrow> concat cs = chunk @ concat cs' \<and> length chunk \<le> n"
  by (induction cs) (auto split: if_splits)

lemma readExact_loop_takes:
  "readExact_loop blocking n data cs = (r, cs') \<Longrightarrow>
     \<exists>bs. concat cs = bs @ concat cs' \<and>
       (case r of Inr data' \<Rightarrow> data' = data @ bs \<and> (length data \<le> n \<longrightarrow> length data' = n) | Inl e \<Rightarrow> True)"
proof (induction blocking n data cs rule: readExact_loop.induct)
  case (1 blocking n data cs)
  obtain chunk cs1 where f: "php_fread blocking (n - length data) cs = (chunk, cs1)" by fastforce
  note t = php_fread_takes [OF f]
  show ?case
  proof (cases "length data < n \<and> chunk \<noteq> []")
    case True
    with 1(2) f have "readExact_loop blocking n (data @ chunk) cs1 = (r, cs')"
      by (simp add: readExact_loop.simps [of blocking n data])
    from 1(1) [OF _ f [symmetric] _ this] True obtain bs where
      "concat cs1 = bs @ concat cs'" "case r of Inr data' \<Rightarrow> data' = (data @ chunk) @ bs \<and>
        (length (data @ chunk) \<le> n \<longrightarrow> length data' = n) | Inl e \<Rightarrow> True" by auto
    with t True show ?thesis by (intro exI [of _ "chunk @ bs"]) (auto split: sum.splits)
  next
    case False
    with 1(2) f t show ?thesis by (auto simp: readExact_loop.simps [of blocking n data] split: if_splits)
  qed
qed

lemma readExact_takes:
  "readExact blocking n cs = (Inr bs, cs') \<Longrightarrow> concat cs = bs @ concat cs' \<and> length bs = n"
  using readExact_loop_takes [of blocking n "[]" cs "Inr bs" cs'] by (auto simp: readExact_def)

text \<open>\<open>unpack\<close> and \<open>ord\<close> read single bytes; a shift of 64 places or more gives 0.\<close>

function readVarint_loop :: "bool \<Rightarrow> 64 word \<Rightarrow> nat \<Rightarrow> (64 word, byte list list) php" where
  "readVarint_loop blocking value shift cs =
     (case readExact blocking 1 cs of
        (Inl e, cs) \<Rightarrow> (Inl e, cs)
      | (Inr bRaw, cs) \<Rightarrow>
          let byte = hd bRaw; value = value OR push_bit shift (ucast (byte AND 0x7F))
          in if byte AND 0x80 = 0 then (Inr value, cs) else readVarint_loop blocking value (shift + 7) cs)"
  by pat_completeness auto
termination
  by (relation "measure (\<lambda>(b, v, k, cs). length (concat cs))") (auto dest!: readExact_takes [OF sym])

declare readVarint_loop.simps [simp del]

definition readVarint :: "bool \<Rightarrow> (64 word, byte list list) php" where
  "readVarint blocking cs = readVarint_loop blocking 0 0 cs"

definition readFrame :: "bool \<Rightarrow> (byte \<times> byte list, byte list list) php" where
  "readFrame blocking cs =
     and_then (readExact blocking 5 cs) (\<lambda>hdr cs.
       if hdr ! 0 \<noteq> STREAM_PW_MAGIC_BYTE_1 \<or> hdr ! 1 \<noteq> STREAM_PW_MAGIC_BYTE_2
       then (Inl (PhpException ''Invalid frame magic''), cs)
       else and_then (readVarint blocking cs) (\<lambda>streamId cs.
         and_then (readVarint blocking cs) (\<lambda>len cs.
           and_then (if 0 < sint len then readExact blocking (nat (sint len)) cs else (Inr [], cs))
             (\<lambda>payload cs. (Inr (hdr ! 4, payload), cs)))))"

text \<open>The bytes of a frame. The loop runs over a length that is not 0.\<close>

function length_varint :: "nat \<Rightarrow> byte list" where
  "length_varint v =
     (let byte = of_nat (v AND 0x7F) :: byte; v = drop_bit 7 v
      in if 0 < v then (byte OR 0x80) # length_varint v else [byte])"
  by pat_completeness auto
termination
  by (relation "measure id") (auto simp: drop_bit_eq_div div_eq_0_iff)

declare length_varint.simps [simp del]

definition stream_frame :: "byte \<Rightarrow> byte list \<Rightarrow> byte list" where
  "stream_frame opcode payload =
     [STREAM_PW_MAGIC_BYTE_1, STREAM_PW_MAGIC_BYTE_2, STREAM_PW_VERSION_1, STREAM_FLAG_FIN, opcode] @ [0] @
     (if length payload = 0 then [0] else length_varint (length payload)) @ payload"

definition php_fwrite :: "byte list \<Rightarrow> stream_client \<Rightarrow> stream_client" where
  "php_fwrite bs c =
     (case sk_stream c of None \<Rightarrow> c | Some s \<Rightarrow> c\<lparr>sk_wire := sk_wire c @ take (ps_takes s bs) bs\<rparr>)"

definition sendFrame :: "byte \<Rightarrow> byte list \<Rightarrow> stream_client \<Rightarrow> stream_client" where
  "sendFrame opcode payload c =
     (if sk_stream c = None then c else php_fwrite (stream_frame opcode payload) c)"

definition stream_construct :: "byte list option \<Rightarrow> stream_client" where
  "stream_construct token = \<lparr>sk_stream = None, sk_state = 0, sk_token = token, sk_wire = []\<rparr>"

text \<open>A reading operation on the stream of the object. Without a stream PHP raises a \<open>TypeError\<close>, but no
  method of the class reads without one.\<close>

definition on_stream :: "(bool \<Rightarrow> ('a, byte list list) php) \<Rightarrow> ('a, stream_client) php" where
  "on_stream f c =
     (case sk_stream c of
        None \<Rightarrow> (Inl (PhpException ''TypeError''), c)
      | Some s \<Rightarrow> (case f (ps_blocking s) (ps_in s) of (r, cs) \<Rightarrow> (r, c\<lparr>sk_stream := Some (s\<lparr>ps_in := cs\<rparr>)\<rparr>)))"

definition set_blocking :: "bool \<Rightarrow> stream_client \<Rightarrow> stream_client" where
  "set_blocking b c = c\<lparr>sk_stream := map_option (\<lambda>s. s\<lparr>ps_blocking := b\<rparr>) (sk_stream c)\<rparr>"

definition stream_hello :: "byte list \<Rightarrow> byte list" where
  "stream_hello nonce =
     [STREAM_PW_MAGIC_BYTE_1, STREAM_PW_MAGIC_BYTE_2] @ u32_be (ucast STREAM_PW_VERSION_1) @
     u32_be STREAM_CAP_AUTH_BEARER @ nonce @ [0]"

definition stream_auth_payload :: "byte list \<Rightarrow> byte list" where
  "stream_auth_payload token = [1] @ u32_be (of_nat (length token)) @ token"

text \<open>\<open>connect\<close>: what \<open>stream_socket_client\<close> gives, its error, and the random bytes are parameters; the
  settings of TLS are left to it.\<close>

definition stream_connect ::
  "php_stream option \<Rightarrow> string \<Rightarrow> int \<Rightarrow> byte list \<Rightarrow> (bool, stream_client) php" where
  "stream_connect sock errstr errno nonce c =
     (let c = c\<lparr>sk_stream := sock\<rparr>
      in if sock = None
      then (Inl (PhpException (''Connection failed: '' @ errstr @ '' ('' @ signed_decimal errno @ '')'')), c)
      else
        let c = php_fwrite (stream_hello nonce) (set_blocking True c)
        in and_then (on_stream (\<lambda>b. readExact b 42) c) (\<lambda>raw c.
          let status = u16_of_be (bytes_at raw 39 2)
          in if raw ! 0 \<noteq> STREAM_PW_MAGIC_BYTE_1 \<or> raw ! 1 \<noteq> STREAM_PW_MAGIC_BYTE_2
          then (Inl (PhpException ''Invalid protocol magic bytes''), c)
          else if status \<noteq> 0
          then (Inl (PhpException (''Server rejected handshake, status: '' @ decimal (unat status))), c)
          else
            let token = (case sk_token c of None \<Rightarrow> secret_token | Some t \<Rightarrow> t);
                c = sendFrame STREAM_AUTH (stream_auth_payload token) c
            in and_then (on_stream readFrame c) (\<lambda>(opcode, payload) c.
              if opcode \<noteq> STREAM_AUTH_OK
              then (Inl (PhpException (''Authentication failed, got opcode: '' @ decimal (unat opcode))), c)
              else (Inr True, (set_blocking False c)\<lparr>sk_state := 4\<rparr>))))"

definition stream_send :: "byte list \<Rightarrow> stream_client \<Rightarrow> stream_client" where
  "stream_send data c = sendFrame STREAM_DATA_TEXT data c"

definition stream_disconnect :: "stream_client \<Rightarrow> stream_client" where
  "stream_disconnect c =
     (if sk_stream c = None then c
      else (sendFrame STREAM_CLOSE [] c)\<lparr>sk_stream := None, sk_state := 0\<rparr>)"

text \<open>\<open>receive\<close>, with the answer of \<open>stream_select\<close>; every exception of the reading is caught.\<close>

definition stream_receive :: "int \<Rightarrow> stream_client \<Rightarrow> byte list option \<times> stream_client" where
  "stream_receive selected c =
     (if sk_stream c = None then (None, c)
      else if 0 < selected
      then case on_stream readFrame c of
          (Inl e, c) \<Rightarrow> (None, stream_disconnect c)
        | (Inr (opcode, payload), c) \<Rightarrow>
            if opcode = STREAM_DATA_TEXT \<or> opcode = STREAM_DATA_BINARY then (Some payload, c)
            else if opcode = STREAM_PING then (None, sendFrame STREAM_PONG [] c)
            else if opcode = STREAM_CLOSE then (None, stream_disconnect c)
            else (None, c)
      else (None, c))"

end
