(* ===== verification/PW_StreamWire.thy ===== *)
theory PW_StreamWire
  imports PW_StreamClient
begin

text \<open>
  The PHP client against the native core. The three reading operations of the class are readers of three
  forms of byte strings (the locale \<open>php_reader\<close>): however the bytes are cut into packets, they take exactly
  one string of the form, and succeed on nothing else. The form of \<open>readFrame\<close> contains the frames of the
  native codec, and the frames that the class sends are such frames. The handshake and the opcodes do not agree.
\<close>

section \<open>Reading\<close>

text \<open>What an operation can see of the packets: all of them when it may wait, else those before the next gap.\<close>

definition visible :: "bool \<Rightarrow> byte list list \<Rightarrow> byte list" where
  "visible blocking cs = concat (if blocking then cs else takeWhile (\<lambda>c. c \<noteq> []) cs)"

text \<open>The contract of an operation that reads strings of a form: it takes such a string, whatever follows and
  however it is cut into packets, and it succeeds in no other way.\<close>

locale php_reader =
  fixes f :: "bool \<Rightarrow> ('a, byte list list) php" and form :: "byte list \<Rightarrow> 'a \<Rightarrow> bool"
  assumes complete: "form bs r \<Longrightarrow> visible b cs = bs @ tail \<Longrightarrow> \<exists>cs'. f b cs = (Inr r, cs') \<and> visible b cs' = tail"
    and sound: "f b cs = (Inr r, cs') \<Longrightarrow> \<exists>bs. form bs r \<and> visible b cs = bs @ visible b cs'"
begin

lemma takes:
  assumes "form bs r" and "visible b cs = bs @ tail"
  obtains cs' where "f b cs = (Inr r, cs')" and "visible b cs' = tail"
  using complete [OF assms] by blast

lemma took:
  assumes "f b cs = (Inr r, cs')"
  obtains bs where "form bs r" and "visible b cs = bs @ visible b cs'"
  using sound [OF assms] by blast

text \<open>No string of the form begins another one, so a beginning of one cannot be read.\<close>

lemma unique: "form bs r \<Longrightarrow> form (bs @ tail) r' \<Longrightarrow> tail = [] \<and> r' = r"
  using complete [of bs r True "[bs @ tail]" tail] complete [of "bs @ tail" r' True "[bs @ tail]" "[]"]
  by (auto simp: visible_def)

lemma short:
  assumes "form (visible b cs @ tail) r" and "tail \<noteq> []"
  shows "\<exists>e cs'. f b cs = (Inl e, cs')"
proof (cases "f b cs")
  case (Pair r' cs')
  show ?thesis
  proof (cases r')
    case (Inr x)
    with Pair sound [of b cs x cs'] obtain bs where "form bs x" "visible b cs = bs @ visible b cs'" by auto
    with unique [of bs x "visible b cs' @ tail" r] assms show ?thesis by simp
  qed (use Pair in simp)
qed

end

text \<open>Blocks of bytes.\<close>

lemma php_fread_visible:
  assumes "php_fread b n cs = (chunk, cs')" and "0 < n"
  shows "visible b cs \<noteq> [] \<Longrightarrow> chunk \<noteq> []" and "chunk \<noteq> [] \<Longrightarrow> visible b cs = chunk @ visible b cs'"
    and "length chunk \<le> n"
  using assms by (induction cs) (auto simp: visible_def split: if_splits)

lemma readExact_loop_visible:
  "length data \<le> n \<Longrightarrow> n - length data \<le> length (visible b cs) \<Longrightarrow>
   \<exists>cs'. readExact_loop b n data cs = (Inr (data @ take (n - length data) (visible b cs)), cs') \<and>
     visible b cs' = drop (n - length data) (visible b cs)"
proof (induction b n data cs rule: readExact_loop.induct)
  case (1 b n data cs)
  obtain chunk cs1 where f: "php_fread b (n - length data) cs = (chunk, cs1)" by fastforce
  show ?case
  proof (cases "length data < n")
    case True
    then have pos: "0 < n - length data" by simp
    with 1(3) have "visible b cs \<noteq> []" by auto
    from php_fread_visible(1) [OF f pos this] have c: "chunk \<noteq> []" .
    note t = php_fread_visible(2) [OF f pos c] php_fread_visible(3) [OF f pos]
    have "n - length (data @ chunk) \<le> length (visible b cs1)" "length (data @ chunk) \<le> n"
      using t 1(3) True by auto
    from 1(1) [OF True f [symmetric] c this(2,1)] obtain cs' where
      "readExact_loop b n (data @ chunk) cs1 = (Inr ((data @ chunk) @ take (n - length (data @ chunk)) (visible b cs1)), cs')"
      "visible b cs' = drop (n - length (data @ chunk)) (visible b cs1)" by auto
    with True c f t show ?thesis
      by (intro exI [of _ cs']) (simp add: readExact_loop.simps [of b n data])
  qed (use 1(2) in \<open>simp add: readExact_loop.simps [of b n data]\<close>)
qed

lemma readExact_loop_success:
  "length data \<le> n \<Longrightarrow> readExact_loop b n data cs = (Inr r, cs') \<Longrightarrow> n - length data \<le> length (visible b cs)"
proof (induction b n data cs rule: readExact_loop.induct)
  case (1 b n data cs)
  obtain chunk cs1 where f: "php_fread b (n - length data) cs = (chunk, cs1)" by fastforce
  show ?case
  proof (cases "length data < n")
    case True
    then have pos: "0 < n - length data" by simp
    with 1(3) True f have c: "chunk \<noteq> []" "readExact_loop b n (data @ chunk) cs1 = (Inr r, cs')"
      by (simp_all add: readExact_loop.simps [of b n data] split: if_splits)
    note t = php_fread_visible(2) [OF f pos c(1)] php_fread_visible(3) [OF f pos]
    then have "length (data @ chunk) \<le> n" using True by simp
    with 1(1) [OF True f [symmetric] c(1) this c(2)] t show ?thesis by simp
  qed simp
qed

lemma readExact_success:
  "readExact b n cs = (Inr r, cs') \<Longrightarrow> length r = n \<and> visible b cs = r @ visible b cs'"
  using readExact_loop_success [of "[]" n b cs r cs'] readExact_loop_visible [of "[]" n b cs]
  by (auto simp: readExact_def)

lemma readExact_loop_error:
  "readExact_loop b n data cs = (Inl e, cs') \<Longrightarrow> e = PhpException ''Connection closed unexpectedly''"
proof (induction b n data cs rule: readExact_loop.induct)
  case (1 b n data cs)
  then show ?case by (auto simp: readExact_loop.simps [of b n data] split: if_splits prod.splits)
qed

lemma readExact_short:
  assumes "length (visible b cs) < n"
  shows "\<exists>cs'. readExact b n cs = (Inl (PhpException ''Connection closed unexpectedly''), cs')"
proof (cases "readExact b n cs")
  case (Pair r cs')
  with readExact_success [of b n cs _ cs'] readExact_loop_error [of b n "[]" cs _ cs'] assms
  show ?thesis by (cases r) (fastforce simp: readExact_def)+
qed

definition exact_form :: "nat \<Rightarrow> byte list \<Rightarrow> byte list \<Rightarrow> bool" where
  "exact_form n bs r \<longleftrightarrow> r = bs \<and> length bs = n"

interpretation exact: php_reader "\<lambda>b. readExact b n" "exact_form n" for n
proof
  fix bs r b cs tail
  assume "exact_form n bs r" "visible b cs = bs @ tail"
  with readExact_loop_visible [of "[]" n b cs]
  show "\<exists>cs'. readExact b n cs = (Inr r, cs') \<and> visible b cs' = tail" by (simp add: readExact_def exact_form_def)
qed (auto simp: exact_form_def dest!: readExact_success)

lemma readExact_take:
  assumes "length bs = n" and "visible b cs = bs @ tail"
  obtains cs' where "readExact b n cs = (Inr bs, cs')" and "visible b cs' = tail"
  using exact.complete [of n bs bs b cs tail] assms that by (auto simp: exact_form_def)

text \<open>A number as its bytes: all but the last have their high bit, and there may be any number of them.\<close>

definition terminated :: "byte list \<Rightarrow> bool" where
  "terminated bs \<longleftrightarrow> bs \<noteq> [] \<and> (\<forall>b \<in> set (butlast bs). 128 \<le> unat b) \<and> unat (last bs) < 128"

lemma terminated_Cons: "terminated (b # bs) \<longleftrightarrow> (if bs = [] then unat b < 128 else 128 \<le> unat b \<and> terminated bs)"
  by (auto simp: terminated_def)

lemma varint_word:
  "word_of_nat (varint_val (b # bs)) = (ucast (b AND 0x7F) OR push_bit 7 (word_of_nat (varint_val bs)) :: u64)"
proof -
  let ?b = "ucast (b AND 0x7F) :: u64" and ?w = "word_of_nat (varint_val bs) :: u64"
  have b: "?b = word_of_nat (unat b mod 128)"
    by (simp add: word_unat_eq_iff unat_ucast_small unat_and_127 unsigned_of_nat take_bit_nat_eq_self)
  have "b AND 0x7F = take_bit 7 b" by (simp add: take_bit_eq_mask mask_eq_exp_minus_1)
  then have "\<not> bit ?b n \<or> \<not> bit (push_bit 7 ?w) n" for n
    by (auto simp: bit_simps)
  then have "?b + push_bit 7 ?w = ?b OR push_bit 7 ?w"
    by (intro disjunctive_add_eq_or bit_eqI) (simp only: bit_and_iff bit_0_eq, auto)
  moreover have "word_of_nat (varint_val (b # bs)) = ?b + push_bit 7 ?w"
    by (simp add: b push_bit_eq_mult mult.commute)
  ultimately show ?thesis by simp
qed

lemma readVarint_loop_step:
  assumes "visible b cs = x # tail"
  obtains cs1 where "visible b cs1 = tail" and "readVarint_loop b v s cs =
    (let v' = v OR push_bit s (ucast (x AND 0x7F))
     in if unat x < 128 then (Inr v', cs1) else readVarint_loop b v' (s + 7) cs1)"
proof -
  from readExact_take [of "[x]" 1 b cs tail] assms obtain cs1 where
    "readExact b 1 cs = (Inr [x], cs1)" "visible b cs1 = tail" by auto
  then show thesis by (intro that [of cs1]) (simp_all add: readVarint_loop.simps [of b v s] and_80_0_iff Let_def)
qed

lemma readVarint_loop_complete:
  "terminated bs \<Longrightarrow> visible b cs = bs @ tail \<Longrightarrow>
   \<exists>cs'. readVarint_loop b v s cs = (Inr (v OR push_bit s (word_of_nat (varint_val bs))), cs') \<and> visible b cs' = tail"
proof (induction bs arbitrary: v s cs)
  case (Cons x bs)
  from Cons.prems(2) have "visible b cs = x # (bs @ tail)" by simp
  then obtain cs1 where cs1: "visible b cs1 = bs @ tail" and loop: "readVarint_loop b v s cs =
      (let v' = v OR push_bit s (ucast (x AND 0x7F))
       in if unat x < 128 then (Inr v', cs1) else readVarint_loop b v' (s + 7) cs1)"
    by (rule readVarint_loop_step)
  show ?case
  proof (cases "bs = []")
    case True
    with Cons.prems loop cs1 show ?thesis
      by (simp add: terminated_Cons varint_word Let_def del: varint_val.simps(2))
  next
    case False
    with Cons.prems have t: "\<not> unat x < 128" "terminated bs" by (simp_all add: terminated_Cons)
    from Cons.IH [OF t(2) cs1, of "v OR push_bit s (ucast (x AND 0x7F))" "s + 7"] loop t(1) show ?thesis
      by (simp add: varint_word push_bit_or or.assoc Let_def del: varint_val.simps(2))
  qed
qed (simp add: terminated_def)

lemma readVarint_loop_success:
  "readVarint_loop b v s cs = (Inr r, cs') \<Longrightarrow> \<exists>bs. terminated bs \<and> visible b cs = bs @ visible b cs'"
proof (induction b v s cs rule: readVarint_loop.induct)
  case (1 b v s cs)
  then obtain h cs1 where h: "readExact b 1 cs = (Inr h, cs1)"
    by (auto simp: readVarint_loop.simps [of b v s] split: sum.splits prod.splits)
  with readExact_success [OF h] obtain x where x: "h = [x]" "visible b cs = x # visible b cs1"
    by (cases h) auto
  show ?case
  proof (cases "x AND 0x80 = 0")
    case True
    with 1(2) h x show ?thesis
      by (intro exI [of _ "[x]"])
        (simp add: readVarint_loop.simps [of b v s] terminated_Cons and_80_0_iff Let_def)
  next
    case False
    with 1(2) h x have "readVarint_loop b (v OR push_bit s (ucast (x AND 0x7F))) (s + 7) cs1 = (Inr r, cs')"
      by (simp add: readVarint_loop.simps [of b v s] Let_def)
    with 1(1) [OF h [symmetric] refl refl refl] False x obtain bs where "terminated bs" "visible b cs1 = bs @ visible b cs'" by auto
    with False x show ?thesis
      by (intro exI [of _ "x # bs"]) (auto simp: terminated_Cons and_80_0_iff terminated_def)
  qed
qed

definition number_form :: "byte list \<Rightarrow> u64 \<Rightarrow> bool" where
  "number_form bs v \<longleftrightarrow> terminated bs \<and> v = word_of_nat (varint_val bs)"

interpretation number: php_reader readVarint number_form
proof
  fix bs v b cs tail
  assume "number_form bs v" "visible b cs = bs @ tail"
  with readVarint_loop_complete [of bs b cs tail 0 0]
  show "\<exists>cs'. readVarint b cs = (Inr v, cs') \<and> visible b cs' = tail"
    by (simp add: number_form_def readVarint_def)
next
  fix b cs v cs'
  assume v: "readVarint b cs = (Inr v, cs')"
  with readVarint_loop_success [of b 0 0 cs v cs'] obtain bs where
    bs: "terminated bs" "visible b cs = bs @ visible b cs'" by (auto simp: readVarint_def)
  with readVarint_loop_complete [OF this, of 0 0] v show "\<exists>bs. number_form bs v \<and> visible b cs = bs @ visible b cs'"
    by (auto simp: readVarint_def number_form_def)
qed

lemma terminated_varint_bytes: "terminated (varint_bytes v)"
proof (induction v rule: varint_bytes.induct)
  case (1 v)
  then show ?case
    by (subst varint_bytes.simps) (auto simp: terminated_Cons unat_cont_byte unat_last_byte)
qed

lemma sint_small: "n < 2 ^ 32 \<Longrightarrow> sint (word_of_nat n :: u64) = int n"
  by (simp add: signed_of_nat signed_take_bit_int_eq_self)

text \<open>A whole frame: five bytes, two numbers of any length, and a payload.\<close>

definition frame_form :: "byte list \<Rightarrow> byte \<times> byte list \<Rightarrow> bool" where
  "frame_form bs r \<longleftrightarrow> (\<exists>h a sid l len p. bs = h @ a @ l @ p \<and> length h = 5 \<and> h ! 0 = 0x50 \<and> h ! 1 = 0x57 \<and>
     number_form a sid \<and> number_form l len \<and> length p = nat (sint len) \<and> r = (h ! 4, p))"

interpretation frame: php_reader readFrame frame_form
proof
  fix bs r b cs tail
  assume "frame_form bs r" and v: "visible b cs = bs @ tail"
  then obtain h a sid l len p where bs: "bs = h @ a @ l @ p" and h: "length h = 5" "h ! 0 = 0x50" "h ! 1 = 0x57"
    and a: "number_form a sid" and l: "number_form l len" and p: "length p = nat (sint len)" and r: "r = (h ! 4, p)"
    by (auto simp: frame_form_def)
  from v bs have "visible b cs = h @ (a @ l @ p @ tail)" by simp
  from readExact_take [OF h(1) this] obtain cs1 where
    1: "readExact b 5 cs = (Inr h, cs1)" "visible b cs1 = a @ (l @ p @ tail)" .
  from number.takes [OF a 1(2)] obtain cs2 where 2: "readVarint b cs1 = (Inr sid, cs2)" "visible b cs2 = l @ (p @ tail)" .
  from number.takes [OF l 2(2)] obtain cs3 where 3: "readVarint b cs2 = (Inr len, cs3)" "visible b cs3 = p @ tail" .
  from readExact_take [OF p 3(2)] obtain cs4 where
    4: "readExact b (nat (sint len)) cs3 = (Inr p, cs4)" "visible b cs4 = tail" .
  have "p = []" if "\<not> 0 < sint len" using that p by simp
  with h 1(1) 2(1) 3 4 r show "\<exists>cs'. readFrame b cs = (Inr r, cs') \<and> visible b cs' = tail"
    by (cases "0 < sint len") (simp_all add: readFrame_def and_then_def stream_consts)
next
  fix b cs r cs'
  assume "readFrame b cs = (Inr r, cs')"
  then obtain h cs1 sid cs2 len cs3 where
    1: "readExact b 5 cs = (Inr h, cs1)" and h: "h ! 0 = 0x50" "h ! 1 = 0x57" and
    2: "readVarint b cs1 = (Inr sid, cs2)" and 3: "readVarint b cs2 = (Inr len, cs3)" and
    4: "and_then (if 0 < sint len then readExact b (nat (sint len)) cs3 else (Inr [], cs3))
          (\<lambda>payload cs. (Inr (h ! 4, payload), cs)) = (Inr r, cs')"
    by (auto simp: readFrame_def and_then_def stream_consts split: sum.splits prod.splits if_splits)
  obtain a where a: "number_form a sid" "visible b cs1 = a @ visible b cs2" using number.took [OF 2] .
  obtain l where l: "number_form l len" "visible b cs2 = l @ visible b cs3" using number.took [OF 3] .
  obtain p where p: "r = (h ! 4, p)" "length p = nat (sint len)" "visible b cs3 = p @ visible b cs'"
    using 4 readExact_success [of b "nat (sint len)" cs3] that
    by (auto simp: and_then_def split: if_splits sum.splits prod.splits)
  have "frame_form (h @ a @ l @ p) r"
    unfolding frame_form_def using readExact_success [OF 1] h a(1) l(1) p(1,2) by blast
  with readExact_success [OF 1] a(2) l(2) p(3) show "\<exists>bs. frame_form bs r \<and> visible b cs = bs @ visible b cs'"
    by (intro exI [of _ "h @ a @ l @ p"]) simp
qed

text \<open>The frames of the native codec are of this form.\<close>

lemma native_frame_form:
  assumes "is_message f pl"
  shows "frame_form (frame_header_bytes f @ pl) (fr_opcode f, pl)"
proof -
  let ?h = "take 5 (frame_header_bytes f)"
  have n: "number_form (varint_bytes v) (word_of_nat (unat v))" for v
    by (simp add: number_form_def terminated_varint_bytes varint_val_bytes)
  have "length pl = nat (sint (word_of_nat (unat (fr_length f)) :: u64))"
    using assms unat_u32_bound [of "fr_length f"] by (simp only: is_message_def sint_small nat_int)
  moreover have "frame_header_bytes f @ pl = ?h @ varint_bytes (fr_stream_id f) @ varint_bytes (fr_length f) @ pl"
    "length ?h = 5" "?h ! 0 = 0x50" "?h ! 1 = 0x57" "(fr_opcode f, pl) = (?h ! 4, pl)"
    by (simp_all add: frame_header_bytes_def)
  ultimately show ?thesis unfolding frame_form_def using n by blast
qed

section \<open>Framing agrees with the native codec\<close>

lemma length_varint_native: "n < 2 ^ 32 \<Longrightarrow> length_varint n = varint_bytes (word_of_nat n)"
proof (induction n rule: length_varint.induct)
  case (1 n)
  have u: "unat (word_of_nat n :: u32) = n" using 1(2) by (simp add: unsigned_of_nat take_bit_nat_eq_self)
  have d: "drop_bit 7 (word_of_nat n :: u32) = word_of_nat (drop_bit 7 n)"
    using 1(2) unfolding word_unat_eq_iff unat_drop_bit u
    by (simp add: unsigned_of_nat take_bit_nat_eq_self drop_bit_eq_div)
  show ?case
  proof (cases "0 < drop_bit 7 n")
    case True
    then have big: "0x80 \<le> (word_of_nat n :: u32)" by (simp add: word_le_nat_alt u drop_bit_eq_div div_greater_zero_iff)
    have "(of_nat (n AND 0x7F) OR 0x80 :: byte) = ucast ((word_of_nat n AND 0x7F :: u32) OR 0x80)"
      using u 1(2)
      by (simp add: of_nat_and_eq unsigned_or_eq unsigned_and_eq unsigned_of_nat take_bit_nat_eq_self)
    with True big 1 d show ?thesis
      by (simp add: length_varint.simps [of n] varint_bytes.simps [of "word_of_nat n"] Let_def drop_bit_eq_div)
  next
    case False
    then have small: "n < 128" by (simp add: drop_bit_eq_div div_eq_0_iff)
    then have "\<not> 0x80 \<le> (word_of_nat n :: u32)" "n AND 0x7F = n"
      using take_bit_nat_eq_self [of n 7] by (simp_all add: word_le_nat_alt u take_bit_eq_mask mask_eq_exp_minus_1)
    with False small 1(2) show ?thesis
      by (simp add: length_varint.simps [of n] varint_bytes.simps [of "word_of_nat n"] Let_def unsigned_of_nat
          take_bit_nat_eq_self)
  qed
qed

text \<open>The frame it sends is the header of the native codec and the payload.\<close>

definition stream_message :: "byte \<Rightarrow> byte list \<Rightarrow> pw_frame" where
  "stream_message opcode payload =
     frame_zero\<lparr>fr_version := 1, fr_flags := 0x80, fr_opcode := opcode, fr_length := word_of_nat (length payload)\<rparr>"

lemma stream_frame_native:
  "length payload < 2 ^ 32 \<Longrightarrow>
   stream_frame opcode payload = frame_header_bytes (stream_message opcode payload) @ payload \<and>
   is_message (stream_message opcode payload) payload"
  by (simp add: stream_frame_def frame_zero_def frame_init_def frame_header_bytes_def stream_message_def is_message_def length_varint_native
      stream_consts varint_bytes.simps [of 0] unsigned_of_nat take_bit_nat_eq_self)


section \<open>Receiving\<close>

lemma stream_receive_frame:
  assumes "sk_stream c = Some s" and "frame_form bs (op, pl)" and "visible (ps_blocking s) (ps_in s) = bs @ tail"
    and "op = STREAM_DATA_TEXT \<or> op = STREAM_DATA_BINARY"
  shows "\<exists>cs'. stream_receive 1 c = (Some pl, c\<lparr>sk_stream := Some (s\<lparr>ps_in := cs'\<rparr>)\<rparr>) \<and> visible (ps_blocking s) cs' = tail"
proof -
  from frame.takes [OF assms(2,3)] obtain cs' where
    "readFrame (ps_blocking s) (ps_in s) = (Inr (op, pl), cs')" "visible (ps_blocking s) cs' = tail" .
  with assms(1,4) show ?thesis by (auto simp: stream_receive_def on_stream_def)
qed

lemma stream_receive_error:
  assumes "sk_stream c = Some s" and "readFrame (ps_blocking s) (ps_in s) = (Inl e, cs')"
  shows "stream_receive 1 c = (None, c\<lparr>sk_stream := None, sk_state := 0,
    sk_wire := sk_wire c @ take (ps_takes s (stream_frame STREAM_CLOSE [])) (stream_frame STREAM_CLOSE [])\<rparr>)"
  using assms
  by (simp add: stream_receive_def on_stream_def stream_disconnect_def sendFrame_def php_fwrite_def)

section \<open>The handshake\<close>

lemma set_blocking_Some: "sk_stream c = Some s \<Longrightarrow> set_blocking b c = c\<lparr>sk_stream := Some (s\<lparr>ps_blocking := b\<rparr>)\<rparr>"
  by (simp add: set_blocking_def)

text \<open>What the connection of the class has sent of its hello, and what it reads then.\<close>

definition greeted :: "php_stream \<Rightarrow> byte list \<Rightarrow> byte list list \<Rightarrow> stream_client \<Rightarrow> stream_client" where
  "greeted s nonce cs c = 
     c\<lparr>sk_wire := sk_wire c @ take (ps_takes s (stream_hello nonce)) (stream_hello nonce),
       sk_stream := Some (s\<lparr>ps_blocking := True, ps_in := cs\<rparr>)\<rparr>"

lemma sk_wire_greeted [simp]:
  "sk_wire (greeted s nonce cs c) = sk_wire c @ take (ps_takes s (stream_hello nonce)) (stream_hello nonce)"
  by (simp add: greeted_def)

lemma stream_connect_short:
  assumes "length (concat (ps_in s)) < 42"
  shows "\<exists>cs. stream_connect (Some s) errstr errno nonce c =
    (Inl (PhpException ''Connection closed unexpectedly''), greeted s nonce cs c)"
proof -
  have "length (visible True (ps_in s)) < 42" using assms by (simp add: visible_def)
  from readExact_short [OF this] obtain cs where
    "readExact True 42 (ps_in s) = (Inl (PhpException ''Connection closed unexpectedly''), cs)" by blast
  then show ?thesis
    by (intro exI [of _ cs])
      (simp add: stream_connect_def set_blocking_def php_fwrite_def on_stream_def and_then_def greeted_def Let_def)
qed

lemma stream_connect_rejected:
  assumes "concat (ps_in s) = h @ tail" and "length h = 42" and "h ! 0 = 0x50" and "h ! 1 = 0x57"
    and "u16_of_be (bytes_at h 39 2) \<noteq> 0"
  shows "\<exists>cs. stream_connect (Some s) errstr errno nonce c =
    (Inl (PhpException (''Server rejected handshake, status: '' @ decimal (unat (u16_of_be (bytes_at h 39 2))))),
     greeted s nonce cs c)"
proof -
  from assms(1) have "visible True (ps_in s) = h @ tail" by (simp add: visible_def)
  from readExact_take [OF assms(2) this] obtain cs where "readExact True 42 (ps_in s) = (Inr h, cs)" .
  with assms(3-5) show ?thesis
    by (intro exI [of _ cs]) (simp add: stream_connect_def set_blocking_def php_fwrite_def on_stream_def
        and_then_def greeted_def stream_consts Let_def)
qed


section \<open>Against the native server\<close>

lemma stream_hello_bytes: "stream_hello nonce = [0x50, 0x57, 0, 0, 0, 1, 0, 0, 0, 4] @ nonce @ [0]"
  by (simp add: stream_hello_def stream_consts u32_be_def)

lemma client_hello_dec_stream:
  assumes "length nonce = 16"
  shows "nonce ! 13 = 1 \<Longrightarrow> fst (client_hello_dec (stream_hello nonce) junk) = 0"
    and "nonce ! 13 \<noteq> 1 \<Longrightarrow> client_hello_dec (stream_hello nonce) junk = (24, junk
      \<lparr>ch_magic := (0x50, 0x57), ch_version := 0, ch_capabilities := 0x100, ch_client_nonce := [0, 0, 4] @ take 13 nonce,
       ch_has_resume_token := False\<rparr>)"
  using assms
  by (simp_all add: client_hello_dec_def stream_hello_bytes u32_of_be_def bytes_at_def nth_append Let_def
      take_Cons' drop_Cons' nth_Cons')

text \<open>The answer of the server to this hello.\<close>

definition stream_hello_answer :: pw_server_hello where
  "stream_hello_answer = \<lparr>sh_magic = (0x50, 0x57), sh_version = 1, sh_capabilities = 0x100,
     sh_server_nonce = replicate 16 0, sh_session_id = replicate 16 0, sh_status = 1002, sh_resume_accepted = False\<rparr>"

lemma stream_hello_answer_wf: "server_hello_wf stream_hello_answer"
  by (simp add: stream_hello_answer_def server_hello_wf_def)

lemma server_refuses_stream_hello:
  assumes "state_of se = PW_STATE_HANDSHAKING" and "writable (se_tr se) 42"
    and "\<And>k. client_hello_wf (pe_client_hello ev k)"
    and "unread (se_tr se) = stream_hello nonce" and "length nonce = 16"
  shows "nonce ! 13 = 1 \<Longrightarrow> server_read_loop ev se = Some se"
    and "nonce ! 13 \<noteq> 1 \<Longrightarrow> \<exists>se'. server_read_loop ev se = Some se' \<and> state_of se' = PW_STATE_HANDSHAKING \<and>
      unread (se_tr se') = drop 14 nonce @ [0] \<and> unsent (se_tr se') = unsent (se_tr se) @ server_hello_bytes stream_hello_answer"
proof -
  from assms(2) have ok: "transport_ok (se_tr se)" by (simp add: writable_def)
  have len: "length (stream_hello nonce) = 27" using assms(5) by (simp add: stream_hello_def)
  have rl: "tr_read_len (se_tr se) = 27" using length_unread [OF ok] assms(4) len by simp
  {
    assume "nonce ! 13 = 1"
    from client_hello_dec_stream(1) [OF assms(5) this] server_handshake_waits [OF assms(1) ok assms(3)] assms(4) rl
    show "server_read_loop ev se = Some se" by (simp add: read_loop_stop)
  }
  {
    assume "nonce ! 13 \<noteq> 1"
    note d = client_hello_dec_stream(2) [OF assms(5) this, of "pe_client_hello ev 27"]
    let ?se = "\<lparr>se_conn = (se_conn se)\<lparr>conn_state := PW_STATE_HANDSHAKING\<rparr>,
      se_tr = queue_out (server_hello_bytes stream_hello_answer) (transport_consume (se_tr se) 24)\<rparr>"
    have step: "server_step ev se = Some (True, ?se)"
      using server_handshake_parsed [OF assms(1,2,3) d [folded assms(4) rl] _ _ _ stream_hello_answer_wf,
          of "stream_hello_answer\<lparr>sh_status := 0\<rparr>"]
      by (simp add: server_hello_for_def stream_hello_answer_def)
    have n: "24 \<le> tr_read_len (se_tr se)" using rl by simp
    note c = consume_ok [OF ok n]
    have "writable (transport_consume (se_tr se) 24) (length (server_hello_bytes stream_hello_answer) + 0)"
      using writable_consume [OF assms(2) n] by (simp add: length_server_hello_bytes stream_hello_answer_wf)
    note q = queue_out_writable [OF this]
    have u: "unread (se_tr ?se) = drop 14 nonce @ [0]"
      using c(2) assms(4,5) by (simp add: stream_hello_def)
    have "fst (client_hello_dec (unread (se_tr ?se)) (pe_client_hello ev (tr_read_len (se_tr ?se)))) = 0"
      unfolding u using assms(5) by (simp add: client_hello_dec_def)
    with server_handshake_waits [of ?se ev] assms(3) q(1) have "server_step ev ?se = Some (False, ?se)"
      by (simp add: writable_def)
    from read_loop_stop [OF this] read_loop_step [OF step] c(3) rl have "server_read_loop ev se = Some ?se" by simp
    with u q(2) c(5) show "\<exists>se'. server_read_loop ev se = Some se' \<and> state_of se' = PW_STATE_HANDSHAKING \<and>
        unread (se_tr se') = drop 14 nonce @ [0] \<and>
        unsent (se_tr se') = unsent (se_tr se) @ server_hello_bytes stream_hello_answer" by auto
  }
qed


text \<open>A session that is authenticated in another way: which frames of the class the server knows.\<close>

lemma stream_frame_served:
  assumes "op \<in> {STREAM_DATA_BINARY, STREAM_DATA_TEXT, STREAM_PING, STREAM_PONG, STREAM_CLOSE, STREAM_AUTH}"
    and "length pl < 128"
  shows "served (stream_message op pl, pl)"
    and "server_answer (stream_message op pl, pl) =
      (if op = STREAM_DATA_BINARY \<or> op = STREAM_DATA_TEXT then stream_frame op pl else [])"
  using assms stream_frame_native [of pl op]
  by (auto simp: served_def server_answer_def is_data_def stream_message_def stream_consts)

lemma server_drops_frame:
  assumes "state_of se = PW_STATE_AUTHENTICATING" and "transport_ok (se_tr se)"
    and "unread (se_tr se) = frame_header_bytes f @ pl @ rest" and "is_message f pl"
    and "fr_opcode f \<noteq> opcode_byte PW_OPCODE_AUTH"
  shows "server_step ev se = Some (True, se\<lparr>se_tr := transport_consume (se_tr se) (length (frame_header_bytes f) + length pl)\<rparr>)"
  using frame_branch_message [OF assms(2-4), of "server_auth_frame (pe_request ev (tr_read_len (se_tr se)))" _ se] assms(1,5)
  by (simp add: server_step_def Let_def server_auth_frame_def)

lemma server_ignores_frame:
  assumes "state_of se = PW_STATE_READY" and "transport_ok (se_tr se)"
    and "unread (se_tr se) = frame_header_bytes f @ pl @ rest" and "is_message f pl"
    and "fr_opcode f \<notin> opcode_byte ` {PW_OPCODE_DATA_TEXT, PW_OPCODE_DATA_BINARY, PW_OPCODE_PING, PW_OPCODE_CLOSE}"
  shows "server_step ev se = Some (True, se\<lparr>se_tr := transport_consume (se_tr se) (length (frame_header_bytes f) + length pl)\<rparr>)"
proof -
  have "server_ready_frame (length (frame_header_bytes f)) (frame_received f junk) se = Some se" for junk
    using assms(5) by (simp add: server_ready_frame_def Let_def)
  from frame_branch_message [OF assms(2-4), where act = server_ready_frame, OF this] assms(1)
  show ?thesis by (simp add: server_step_def Let_def)
qed

lemma length_stream_frame: "length pl \<le> length (stream_frame op pl)"
  by (simp add: stream_frame_def)

section \<open>Properties\<close>

text \<open>C19: The framing of the class is that of the native codec. A frame that it sends is, byte for byte, what
  the native serialiser writes for the header with version 1, flags 0x80, stream 0 and the length of the
  payload, and then the payload. And it reads every frame that the native serialiser can have written,
  whatever its stream and flags, with its opcode and payload, and leaves what follows, however the bytes are
  cut into packets.\<close>

theorem stream_framing_native:
  assumes "length payload < 2 ^ 32" and "unat (fr_length f) = length pl"
    and "concat (ps_in s) = frame_header_bytes f @ pl @ rest"
  shows "\<exists>n buf. pw_frame_serialize_header (frame_zero\<lparr>fr_version := PW_VERSION_1, fr_flags := STREAM_FLAG_FIN,
        fr_opcode := opcode, fr_length := word_of_nat (length payload)\<rparr>) (replicate 15 0) 0 15 = Some (n, buf) \<and>
      stream_frame opcode payload = take n buf @ payload \<and>
    (\<exists>cs. readFrame True (ps_in s) = (Inr (fr_opcode f, pl), cs) \<and> concat cs = rest)"
proof -
  let ?h = "frame_header_bytes (stream_message opcode payload)"
  have "length ?h \<le> 15" using length_frame_header_bytes by blast
  moreover have "is_message f pl" "visible True (ps_in s) = (frame_header_bytes f @ pl) @ rest"
    using assms(2,3) by (simp_all add: is_message_def visible_def)
  from frame.takes [OF native_frame_form [OF this(1)] this(2)] obtain cs where
    "readFrame True (ps_in s) = (Inr (fr_opcode f, pl), cs)" "concat cs = rest" by (auto simp: visible_def)
  ultimately show ?thesis
    using stream_frame_native [OF assms(1), of opcode]
    by (intro exI [of _ "length ?h"] exI [of _ "put_bytes (replicate 15 0) 0 ?h"])
      (auto simp: pw_frame_serialize_header_bytes stream_message_def put_bytes_def stream_consts)
qed

theorem stream_framing_native_witness:
  "(\<exists>n buf. pw_frame_serialize_header (frame_zero\<lparr>fr_version := PW_VERSION_1, fr_flags := STREAM_FLAG_FIN,
       fr_opcode := STREAM_PING, fr_length := 0\<rparr>) (replicate 15 0) 0 15 = Some (n, buf) \<and> stream_frame STREAM_PING [] = take n buf) \<and>
   (\<exists>cs. readFrame True [[0x50], [], [0x57, 1, 0x10, 2, 0, 1], [0x41, 0x42]] = (Inr (2, [0x41]), cs) \<and> concat cs = [0x42])"
proof -
  let ?f = "frame_init 1 0x10 PW_OPCODE_DATA_TEXT 0 1"
  let ?s = "\<lparr>ps_in = [[0x50], [], [0x57, 1, 0x10, 2, 0, 1], [0x41, 0x42]], ps_blocking = True, ps_takes = length\<rparr>"
  have "unat (fr_length ?f) = length [0x41 :: byte]" "concat (ps_in ?s) = frame_header_bytes ?f @ [0x41] @ [0x42]"
    by (simp_all add: frame_init_def frame_header_bytes_def varint_bytes.simps word_le_nat_alt)
  from stream_framing_native [of "[]" ?f "[0x41]" ?s "[0x42]" STREAM_PING, OF _ this] show ?thesis
    by (auto simp: frame_init_def)
qed

text \<open>C25: A client that is ready, its stream no longer blocking, drops its connection when a frame has not
  arrived as a whole. If some beginning of a frame is there, even all of it but one byte of the payload, and
  the rest is not yet, then the next call of \<open>receive\<close> loses what was there, sends a CLOSE and ends in the
  state of a new object. A whole frame of data is received and what follows it kept.\<close>

theorem stream_receive_cut_frame:
  assumes "sk_stream c = Some s" and "\<not> ps_blocking s" and "unat (fr_length f) = length pl"
    and "concat (takeWhile (\<lambda>p. p \<noteq> []) (ps_in s)) = bs"
  shows "(bs @ tail = frame_header_bytes f @ pl \<and> tail \<noteq> [] \<longrightarrow>
      stream_receive 1 c = (None, c\<lparr>sk_stream := None, sk_state := 0,
        sk_wire := sk_wire c @ take (ps_takes s (stream_frame STREAM_CLOSE [])) (stream_frame STREAM_CLOSE [])\<rparr>)) \<and>
    (bs = frame_header_bytes f @ pl @ tail \<and> (fr_opcode f = STREAM_DATA_TEXT \<or> fr_opcode f = STREAM_DATA_BINARY) \<longrightarrow>
      (\<exists>cs. stream_receive 1 c = (Some pl, c\<lparr>sk_stream := Some (s\<lparr>ps_in := cs\<rparr>)\<rparr>) \<and>
        concat (takeWhile (\<lambda>p. p \<noteq> []) cs) = tail))"
proof -
  from assms(3) have r: "frame_form (frame_header_bytes f @ pl) (fr_opcode f, pl)"
    by (intro native_frame_form) (simp add: is_message_def)
  have v: "visible (ps_blocking s) cs = concat (takeWhile (\<lambda>p. p \<noteq> []) cs)" for cs
    using assms(2) by (simp add: visible_def)
  show ?thesis
  proof (intro conjI impI; elim conjE)
    assume "bs @ tail = frame_header_bytes f @ pl" "tail \<noteq> []"
    with frame.short [of "ps_blocking s" "ps_in s" tail] r assms(4) obtain e cs where
      "readFrame (ps_blocking s) (ps_in s) = (Inl e, cs)" unfolding v by metis
    from stream_receive_error [OF assms(1) this]
    show "stream_receive 1 c = (None, c\<lparr>sk_stream := None, sk_state := 0,
        sk_wire := sk_wire c @ take (ps_takes s (stream_frame STREAM_CLOSE [])) (stream_frame STREAM_CLOSE [])\<rparr>)" .
  next
    assume "bs = frame_header_bytes f @ pl @ tail" "fr_opcode f = STREAM_DATA_TEXT \<or> fr_opcode f = STREAM_DATA_BINARY"
    with stream_receive_frame [OF assms(1) r, of tail] assms(4)
    show "\<exists>cs. stream_receive 1 c = (Some pl, c\<lparr>sk_stream := Some (s\<lparr>ps_in := cs\<rparr>)\<rparr>) \<and>
        concat (takeWhile (\<lambda>p. p \<noteq> []) cs) = tail" unfolding v by simp
  qed
qed

theorem stream_receive_cut_frame_witness:
  "let s = \<lparr>ps_in = [[0x50, 0x57, 1, 0x10, 2, 0], [1], [], [0x41]], ps_blocking = False, ps_takes = length\<rparr>;
       c = \<lparr>sk_stream = Some s, sk_state = 4, sk_token = None, sk_wire = []\<rparr>
   in stream_receive 1 c = (None, \<lparr>sk_stream = None, sk_state = 0, sk_token = None,
        sk_wire = [0x50, 0x57, 1, 0x80, 8, 0, 0]\<rparr>)"
proof -
  let ?f = "frame_init 1 0x10 PW_OPCODE_DATA_TEXT 0 1"
  let ?s = "\<lparr>ps_in = [[0x50, 0x57, 1, 0x10, 2, 0], [1], [], [0x41]], ps_blocking = False, ps_takes = length\<rparr>"
  let ?c = "\<lparr>sk_stream = Some ?s, sk_state = 4, sk_token = None, sk_wire = []\<rparr>"
  let ?b = "[0x50, 0x57, 1, 0x10, 2, 0, 1] :: byte list"
  have f: "unat (fr_length ?f) = length [0x41 :: byte]" "?b @ [0x41] = frame_header_bytes ?f @ [0x41]"
    by (simp_all add: frame_init_def frame_header_bytes_def varint_bytes.simps word_le_nat_alt)
  have "sk_stream ?c = Some ?s" "\<not> ps_blocking ?s" "concat (takeWhile (\<lambda>p. p \<noteq> []) (ps_in ?s)) = ?b" by simp_all
  from stream_receive_cut_frame [OF this(1,2) f(1) this(3), of "[0x41]"] f(2) show ?thesis
    by (simp add: stream_frame_def stream_consts Let_def)
qed

text \<open>C18: The class cannot connect to the native server. Its hello packs the version in four bytes instead of
  one, so the server reads the version 0: it answers that it does not support it and stays in
  HANDSHAKING with three bytes of the hello unread, or, when the fourteenth random byte is 1, takes this
  byte for a session to resume, of which it waits for more. Whatever then reaches the class of these
  answers, in any packets, \<open>connect\<close> fails, and the token is not sent.\<close>

theorem stream_hello_refused:
  assumes "state_of se = PW_STATE_HANDSHAKING" and "writable (se_tr se) 42"
    and "\<And>k. client_hello_wf (pe_client_hello ev k)"
    and "unread (se_tr se) = stream_hello nonce" and "length nonce = 16"
  shows "\<exists>se' answer. server_read_loop ev se = Some se' \<and> state_of se' = PW_STATE_HANDSHAKING \<and>
    unread (se_tr se') = (if nonce ! 13 = 1 then stream_hello nonce else drop 14 nonce @ [0]) \<and>
    unsent (se_tr se') = unsent (se_tr se) @ answer \<and>
    (\<forall>s errstr errno c. concat (ps_in s) = answer \<longrightarrow>
      (\<exists>c'. stream_connect (Some s) errstr errno nonce c =
          (Inl (PhpException (if nonce ! 13 = 1 then ''Connection closed unexpectedly''
            else ''Server rejected handshake, status: '' @ decimal 1002)), c') \<and>
        sk_wire c' = sk_wire c @ take (ps_takes s (stream_hello nonce)) (stream_hello nonce)))"
proof (cases "nonce ! 13 = 1")
  case True
  have "\<exists>c'. stream_connect (Some s) errstr errno nonce c = (Inl (PhpException ''Connection closed unexpectedly''), c') \<and>
      sk_wire c' = sk_wire c @ take (ps_takes s (stream_hello nonce)) (stream_hello nonce)"
    if "concat (ps_in s) = []" for s errstr errno c
    using stream_connect_short [of s errstr errno nonce c] that by auto
  with server_refuses_stream_hello(1) [OF assms True] assms(1,4) True show ?thesis
    by (intro exI [of _ se] exI [of _ "[]"]) simp
next
  case False
  let ?a = "server_hello_bytes stream_hello_answer"
  note l = server_hello_layout [OF stream_hello_answer_wf, of "[]", simplified]
  have "u16_of_be (bytes_at ?a 39 2) = 1002" "?a ! 0 = 0x50" "?a ! 1 = 0x57"
    using u16_of_be_be [of 1002 "[]"] l(1,2,7) by (simp_all add: stream_hello_answer_def)
  then have "\<exists>c'. stream_connect (Some s) errstr errno nonce c =
      (Inl (PhpException (''Server rejected handshake, status: '' @ decimal 1002)), c') \<and>
      sk_wire c' = sk_wire c @ take (ps_takes s (stream_hello nonce)) (stream_hello nonce)"
    if "concat (ps_in s) = ?a" for s errstr errno c
    using stream_connect_rejected [of s ?a "[]" errstr errno nonce c] 
      length_server_hello_bytes [OF stream_hello_answer_wf] that by auto
  moreover obtain se' where "server_read_loop ev se = Some se'" "state_of se' = PW_STATE_HANDSHAKING"
    "unread (se_tr se') = drop 14 nonce @ [0]" "unsent (se_tr se') = unsent (se_tr se) @ ?a"
    using server_refuses_stream_hello(2) [OF assms False] by blast
  ultimately show ?thesis using False by (intro exI [of _ se'] exI [of _ ?a]) simp
qed

theorem stream_hello_refused_witness:
  "let se = \<lparr>se_conn = \<lparr>conn_state = PW_STATE_HANDSHAKING\<rparr>, se_tr = transport_with (stream_hello (replicate 16 7))\<rparr>
   in \<exists>se'. server_read_loop quiet_poll se = Some se' \<and> state_of se' = PW_STATE_HANDSHAKING \<and> unread (se_tr se') = [7, 7, 0]"
proof -
  let ?n = "replicate 16 7 :: byte list"
  let ?se = "\<lparr>se_conn = \<lparr>conn_state = PW_STATE_HANDSHAKING\<rparr>, se_tr = transport_with (stream_hello ?n)\<rparr>"
  have "length (stream_hello ?n) \<le> 4096" by (simp add: stream_hello_bytes)
  then have w: "writable (se_tr ?se) 42" "unread (se_tr ?se) = stream_hello ?n" "\<And>k. client_hello_wf (pe_client_hello quiet_poll k)"
    by (simp_all add: quiet_poll_def)
  from stream_hello_refused [of ?se quiet_poll ?n, OF _ w(1,3,2)] obtain se' where
    "server_read_loop quiet_poll ?se = Some se'" "state_of se' = PW_STATE_HANDSHAKING"
    "unread (se_tr se') = (if ?n ! 13 = 1 then stream_hello ?n else drop 14 ?n @ [0])" by auto
  moreover have "?n ! 13 \<noteq> 1" by simp
  moreover have "drop 14 ?n = [7, 7]" by (simp add: numeral_2_eq_2)
  ultimately show ?thesis by (simp del: nth_replicate drop_replicate)
qed

text \<open>C26: Beyond the handshake the two differ in the opcodes: they share only those of data. In
  AUTHENTICATING the native server drops the authentication of the class, and every other frame of it, of any
  length, without an answer. When it is ready it takes neither PING nor CLOSE nor any other frame of the class but
  those of data for one that it knows: it answers nothing and stays ready. Of the frames of data it echoes those with
  fewer than 128 bytes, when there is room for them behind what is queued and no partial write is pending; one with more than 128 bytes leaves the
  buffer into which the server copies it before it prints it. (With 128 bytes exactly it depends on whether there is a zero among
  them, which is left out here.)\<close>

theorem stream_opcodes_disagree:
  assumes "op \<in> {STREAM_DATA_BINARY, STREAM_DATA_TEXT, STREAM_PING, STREAM_PONG, STREAM_CLOSE, STREAM_AUTH}"
    and "transport_ok (se_tr se)" and "unread (se_tr se) = stream_frame op pl @ rest"
    and "state_of se = PW_STATE_AUTHENTICATING \<or> state_of se = PW_STATE_READY"
  shows "if state_of se = PW_STATE_READY \<and> (op = STREAM_DATA_BINARY \<or> op = STREAM_DATA_TEXT)
    then (length pl < 128 \<and> writable (se_tr se) (length (stream_frame op pl)) \<longrightarrow>
        (\<exists>tr. server_step ev se = Some (True, se\<lparr>se_tr := tr\<rparr>) \<and> unread tr = rest \<and>
          unsent tr = unsent (se_tr se) @ stream_frame op pl)) \<and>
      (128 < length pl \<longrightarrow> server_step ev se = None)
    else \<exists>tr. server_step ev se = Some (True, se\<lparr>se_tr := tr\<rparr>) \<and> unread tr = rest \<and> unsent tr = unsent (se_tr se)"
proof -
  let ?f = "stream_message op pl"
  have "length (stream_frame op pl) \<le> tr_read_len (se_tr se)"
    using length_unread [OF assms(2)] assms(3) by simp
  then have "length pl < 2 ^ 32" using transport_okD(3) [OF assms(2)] length_stream_frame [of pl op] by simp
  with stream_frame_native [of pl op] have n: "stream_frame op pl = frame_header_bytes ?f @ pl" "is_message ?f pl" by simp_all
  with assms(3) have u: "unread (se_tr se) = frame_header_bytes ?f @ pl @ rest" by simp
  note pay = payload_at [OF assms(2) u]
  let ?tr = "transport_consume (se_tr se) (length (frame_header_bytes ?f) + length pl)"
  have dropped: "\<exists>tr. server_step ev se = Some (True, se\<lparr>se_tr := tr\<rparr>) \<and> unread tr = rest \<and> unsent tr = unsent (se_tr se)"
    if "server_step ev se = Some (True, se\<lparr>se_tr := ?tr\<rparr>)"
    using that pay(4) consume_ok(5) [OF assms(2) pay(3)] by blast
  show ?thesis
  proof (cases "state_of se = PW_STATE_READY")
    case ready: True
    show ?thesis
    proof (cases "op = STREAM_DATA_BINARY \<or> op = STREAM_DATA_TEXT")
      case data: True
      have "\<exists>tr. server_step ev se = Some (True, se\<lparr>se_tr := tr\<rparr>) \<and> unread tr = rest \<and>
          unsent tr = unsent (se_tr se) @ stream_frame op pl"
        if len: "length pl < 128" and w: "writable (se_tr se) (length (stream_frame op pl))"
      proof -
        have a: "server_answer (?f, pl) = stream_frame op pl" using stream_frame_served(2) [OF assms(1) len] data by auto
        have "writable ?tr (length (stream_frame op pl) + 0)" using writable_consume [OF w pay(3)] by simp
        note q = queue_out_writable [OF this]
        from server_ready_step [OF ready _ u stream_frame_served(1) [OF assms(1) len]] w
        have "server_step ev se = Some (True, se\<lparr>se_tr := queue_out (stream_frame op pl) ?tr\<rparr>)" unfolding a by simp
        then show ?thesis using consume_ok(5) [OF assms(2) pay(3)] pay(4) q(2) by auto
      qed
      moreover have "server_step ev se = None" if "128 < length pl"
      proof -
        have "fr_opcode ?f = opcode_byte PW_OPCODE_DATA_TEXT \<or> fr_opcode ?f = opcode_byte PW_OPCODE_DATA_BINARY"
          using data by (auto simp: stream_message_def stream_consts)
        from server_step_overflow [OF ready assms(2) u n(2) this that] show ?thesis .
      qed
      ultimately show ?thesis using ready data by simp
    next
      case False
      with assms(1) have "fr_opcode ?f \<notin> opcode_byte ` {PW_OPCODE_DATA_TEXT, PW_OPCODE_DATA_BINARY, PW_OPCODE_PING, PW_OPCODE_CLOSE}"
        by (auto simp: stream_message_def stream_consts)
      from dropped [OF server_ignores_frame [OF ready assms(2) u n(2) this]] False show ?thesis by simp
    qed
  next
    case False
    with assms(4) have st: "state_of se = PW_STATE_AUTHENTICATING" by simp
    have "fr_opcode ?f \<noteq> opcode_byte PW_OPCODE_AUTH"
      using assms(1) by (auto simp: stream_message_def stream_consts)
    from dropped [OF server_drops_frame [OF st assms(2) u n(2) this]] False show ?thesis by simp
  qed
qed

theorem stream_opcodes_disagree_witness:
  "let se = (\<lambda>b. \<lparr>se_conn = \<lparr>conn_state = PW_STATE_READY\<rparr>, se_tr = transport_with b\<rparr>)
   in (\<exists>tr. server_step quiet_poll (se (stream_frame STREAM_PING [] @ [7])) =
        Some (True, (se (stream_frame STREAM_PING [] @ [7]))\<lparr>se_tr := tr\<rparr>) \<and> unread tr = [7] \<and> unsent tr = []) \<and>
      (\<exists>tr. server_step quiet_poll (se (stream_frame STREAM_DATA_TEXT [0x41])) =
        Some (True, (se (stream_frame STREAM_DATA_TEXT [0x41]))\<lparr>se_tr := tr\<rparr>) \<and> unsent tr = stream_frame STREAM_DATA_TEXT [0x41]) \<and>
      server_step quiet_poll (se (stream_frame STREAM_DATA_TEXT (replicate 200 0x41))) = None"
proof -
  define se where "se = (\<lambda>b. \<lparr>se_conn = \<lparr>conn_state = PW_STATE_READY\<rparr>, se_tr = transport_with b\<rparr>)"
  have l: "length (stream_frame op pl) \<le> 15 + length pl" if "length pl < 2 ^ 32" for op pl
    using stream_frame_native [OF that, of op] length_frame_header_bytes [of "stream_message op pl"] by simp
  have se: "transport_ok (se_tr (se b))" "unread (se_tr (se b)) = b" "unsent (se_tr (se b)) = []"
    "state_of (se b) = PW_STATE_READY" "writable (se_tr (se b)) n \<longleftrightarrow> n \<le> 4096" if "length b \<le> 4096" for b n
    using that by (simp_all add: se_def)
  note use = stream_opcodes_disagree [OF _ se(1), where ev = quiet_poll]
  have l1: "length (stream_frame STREAM_PING [] @ [7]) \<le> 4096" using l [of "[]" STREAM_PING] by simp
  have l2: "length (stream_frame STREAM_DATA_TEXT [0x41]) \<le> 4096" using l [of "[0x41]" STREAM_DATA_TEXT] by simp
  have l3: "length (stream_frame STREAM_DATA_TEXT (replicate 200 0x41)) \<le> 4096"
    using l [of "replicate 200 0x41" STREAM_DATA_TEXT] by simp
  have ping: "\<exists>tr. server_step quiet_poll (se (stream_frame STREAM_PING [] @ [7])) =
        Some (True, (se (stream_frame STREAM_PING [] @ [7]))\<lparr>se_tr := tr\<rparr>) \<and> unread tr = [7] \<and> unsent tr = []"
    using use [OF _ l1, of STREAM_PING "[]" "[7]"] se [OF l1] by (simp add: stream_consts)
  have data: "\<exists>tr. server_step quiet_poll (se (stream_frame STREAM_DATA_TEXT [0x41])) =
        Some (True, (se (stream_frame STREAM_DATA_TEXT [0x41]))\<lparr>se_tr := tr\<rparr>) \<and> unsent tr = stream_frame STREAM_DATA_TEXT [0x41]"
    using use [OF _ l2, of STREAM_DATA_TEXT "[0x41]" "[]"] se [OF l2] l2 by auto
  have long: "server_step quiet_poll (se (stream_frame STREAM_DATA_TEXT (replicate 200 0x41))) = None"
    using use [OF _ l3, of STREAM_DATA_TEXT "replicate 200 0x41" "[]"] se [OF l3] by simp
  from ping data long show ?thesis unfolding se_def [symmetric] Let_def by blast
qed

text \<open>C24: Data makes the way there and back, when it is short enough. What a client that is connected sends with
  \<open>send\<close>, in a write that the stream takes whole, a native server that is ready takes from the wire, where nothing else
  is, and, with fewer than 128 bytes of data, room for the answer and none partly sent before, answers with an echo. When the echo has reached the client, in any
  packets but with no gap between them, \<open>receive\<close> gives the data; with a gap the frame would be lost. More than 128 bytes of data
  come to no answer: the server writes behind the buffer from which it prints.\<close>

theorem stream_echo_roundtrip:
  assumes "sk_stream c = Some s" and "ps_takes s = length" and "state_of se = PW_STATE_READY"
    and "sk_wire (stream_send data c) = sk_wire c @ unread (se_tr se)"
    and "writable (se_tr se) (length (unread (se_tr se)))"
  shows "(length data < 128 \<longrightarrow> (\<exists>tr answer. server_read_loop ev se = Some (se\<lparr>se_tr := tr\<rparr>) \<and> unread tr = [] \<and>
      unsent tr = unsent (se_tr se) @ answer \<and>
      (\<forall>packets. concat packets = answer \<and> [] \<notin> set packets \<longrightarrow>
        (\<exists>c'. stream_receive 1 ((stream_send data c)\<lparr>sk_stream := Some (s\<lparr>ps_in := packets\<rparr>)\<rparr>) = (Some data, c'))))) \<and>
    (128 < length data \<longrightarrow> server_read_loop ev se = None)"
proof -
  let ?b = "stream_frame STREAM_DATA_TEXT data" and ?f = "stream_message STREAM_DATA_TEXT data"
  from assms(5) have ok: "transport_ok (se_tr se)" by (simp add: writable_def)
  have u: "unread (se_tr se) = ?b"
    using assms(1,2,4) by (simp add: stream_send_def sendFrame_def php_fwrite_def)
  then have "length data < 2 ^ 32"
    using length_unread [OF ok] transport_okD(3) [OF ok] length_stream_frame [of data STREAM_DATA_TEXT] by simp
  then have f: "?b = frame_header_bytes ?f @ data" "is_message ?f data" "fr_opcode ?f = STREAM_DATA_TEXT"
    using stream_frame_native [of data] by (simp_all add: stream_message_def)
  have echo: "\<exists>tr. server_read_loop ev se = Some (se\<lparr>se_tr := tr\<rparr>) \<and> unread tr = [] \<and> unsent tr = unsent (se_tr se) @ ?b"
    if "length data < 128"
  proof -
    have served: "served (?f, data)" "server_answer (?f, data) = ?b"
      using stream_frame_served [of STREAM_DATA_TEXT data] that by simp_all
    have "\<exists>tr. server_read_loop ev se = Some (se\<lparr>se_tr := tr\<rparr>) \<and> transport_ok tr \<and> unread tr = take 0 (msg_enc frame_header_bytes (?f, data)) \<and>
        unsent tr = unsent (se_tr se) @ concat (map server_answer [(?f, data)])"
      by (rule server_serves_stream [OF assms(3)])
        (use assms(5) u served f in \<open>simp_all add: msg_enc_def\<close>)
    then show ?thesis using served(2) by auto
  qed
  have returned: "\<exists>c'. stream_receive 1 ((stream_send data c)\<lparr>sk_stream := Some (s\<lparr>ps_in := packets\<rparr>)\<rparr>) = (Some data, c')"
    if "concat packets = ?b" "[] \<notin> set packets" for packets
  proof -
    from that(2) have "takeWhile (\<lambda>p. p \<noteq> []) packets = packets" by (auto simp: takeWhile_eq_all_conv)
    then have "visible (ps_blocking s) packets = concat packets" unfolding visible_def by (simp only: if_cancel)
    then have "visible (ps_blocking s) packets = (frame_header_bytes ?f @ data) @ []" using that(1) f(1) by simp
    with stream_receive_frame [of "(stream_send data c)\<lparr>sk_stream := Some (s\<lparr>ps_in := packets\<rparr>)\<rparr>" "s\<lparr>ps_in := packets\<rparr>"
        "frame_header_bytes ?f @ data" STREAM_DATA_TEXT data "[]"] native_frame_form [OF f(2)] f(3)
    show ?thesis by auto
  qed
  have over: "server_read_loop ev se = None" if "128 < length data"
    by (rule server_payload_overflow [OF assms(3) ok, of ?f data "[]"])
      (use u f that in \<open>simp_all add: stream_consts\<close>)
  show ?thesis
  proof (intro conjI impI)
    assume "length data < 128"
    from echo [OF this] returned show "\<exists>tr answer. server_read_loop ev se = Some (se\<lparr>se_tr := tr\<rparr>) \<and> unread tr = [] \<and>
      unsent tr = unsent (se_tr se) @ answer \<and>
      (\<forall>packets. concat packets = answer \<and> [] \<notin> set packets \<longrightarrow>
        (\<exists>c'. stream_receive 1 ((stream_send data c)\<lparr>sk_stream := Some (s\<lparr>ps_in := packets\<rparr>)\<rparr>) = (Some data, c')))"
      by blast
  qed (rule over)
qed

theorem stream_echo_roundtrip_witness:
  "let s = \<lparr>ps_in = [], ps_blocking = False, ps_takes = length\<rparr>;
       c = \<lparr>sk_stream = Some s, sk_state = 4, sk_token = None, sk_wire = []\<rparr>;
       se = \<lparr>se_conn = \<lparr>conn_state = PW_STATE_READY\<rparr>, se_tr = transport_with (stream_frame STREAM_DATA_TEXT [0x68, 0x69])\<rparr>
   in \<exists>tr. server_read_loop quiet_poll se = Some (se\<lparr>se_tr := tr\<rparr>) \<and>
        (\<exists>c'. stream_receive 1 ((stream_send [0x68, 0x69] c)\<lparr>sk_stream := Some (s\<lparr>ps_in := map (\<lambda>b. [b]) (unsent tr)\<rparr>)\<rparr>) =
          (Some [0x68, 0x69], c'))"
proof -
  let ?b = "stream_frame STREAM_DATA_TEXT [0x68, 0x69]"
  define s where "s = \<lparr>ps_in = [], ps_blocking = False, ps_takes = length\<rparr>"
  define c where "c = \<lparr>sk_stream = Some s, sk_state = 4, sk_token = None, sk_wire = []\<rparr>"
  define se where "se = \<lparr>se_conn = \<lparr>conn_state = PW_STATE_READY\<rparr>, se_tr = transport_with ?b\<rparr>"
  have "length ?b \<le> 15 + 2" by (simp add: stream_frame_native length_frame_header_bytes)
  then have "writable (se_tr se) (length (unread (se_tr se)))" by (simp add: se_def)
  moreover have "sk_wire (stream_send [0x68, 0x69] c) = sk_wire c @ unread (se_tr se)"
    by (simp add: stream_send_def sendFrame_def php_fwrite_def c_def s_def se_def)
  moreover have "unsent (se_tr se) = []" by (simp add: se_def)
  ultimately obtain tr where r: "server_read_loop quiet_poll se = Some (se\<lparr>se_tr := tr\<rparr>)"
    and all: "\<forall>packets. concat packets = unsent tr \<and> [] \<notin> set packets \<longrightarrow>
      (\<exists>c'. stream_receive 1 ((stream_send [0x68, 0x69] c)\<lparr>sk_stream := Some (s\<lparr>ps_in := packets\<rparr>)\<rparr>) = (Some [0x68, 0x69], c'))"
    using stream_echo_roundtrip [of c s se "[0x68, 0x69]" quiet_poll]
    by (auto simp: c_def s_def se_def)
  from all [THEN spec, of "map (\<lambda>b. [b]) (unsent tr)"] r show ?thesis
    unfolding s_def [symmetric] c_def [symmetric] se_def [symmetric] Let_def by (intro exI [of _ tr]) auto
qed

end
