(* ===== verification/PW_Extension.thy ===== *)
theory PW_Extension
  imports PW_Connection PW_Transport
begin

text \<open>
  The PHP extension \<open>extension/src/phoenixwire.c\<close>: the object behind \<open>PhoenixWire\Client\<close> and its
  methods. A method returns a value or throws, or the engine refuses its arguments (\<open>BadArguments\<close>); the
  descriptors that a call closes are part of its result. What the module tells the engine about the class
  is in PW_Module.
\<close>

section \<open>The code\<close>

record phoenixwire_client_obj =
  ob_conn :: pw_connection
  ob_tr :: pw_transport

datatype php_result = ReturnTrue | ReturnNull | ReturnLong nat | ReturnString string | Throw string | BadArguments

definition php_phoenixwire_version :: string where
  "php_phoenixwire_version = ''0.1.0''"

definition phoenixwire_version :: php_result where
  "phoenixwire_version = ReturnString php_phoenixwire_version"

text \<open>The class constants that the module registers.\<close>

definition state_constants :: "(string \<times> nat) list" where
  "state_constants =
     [(''STATE_DISCONNECTED'', state_code PW_STATE_DISCONNECTED),
      (''STATE_CONNECTING'', state_code PW_STATE_CONNECTING),
      (''STATE_HANDSHAKING'', state_code PW_STATE_HANDSHAKING),
      (''STATE_AUTHENTICATING'', state_code PW_STATE_AUTHENTICATING),
      (''STATE_READY'', state_code PW_STATE_READY),
      (''STATE_DRAINING'', state_code PW_STATE_DRAINING),
      (''STATE_CLOSING'', state_code PW_STATE_CLOSING),
      (''STATE_CLOSED'', state_code PW_STATE_CLOSED)]"

definition phoenixwire_client_create_object ::
  "(int \<Rightarrow> fcntl_cmd \<Rightarrow> 'w \<Rightarrow> int \<times> 'w) \<Rightarrow> phoenixwire_client_obj \<Rightarrow> 'w \<Rightarrow> phoenixwire_client_obj option" where
  "phoenixwire_client_create_object fcntl junk w = do {
     conn \<leftarrow> pw_connection_init (Some (ob_conn junk));
     tr \<leftarrow> fst (pw_transport_init fcntl (Some (ob_tr junk)) (-1) w);
     Some \<lparr>ob_conn = conn, ob_tr = tr\<rparr>
   }"

text \<open>Closing the descriptor of an object, when it has one.\<close>

definition close_fd :: "phoenixwire_client_obj \<Rightarrow> phoenixwire_client_obj \<times> int list" where
  "close_fd ob =
     (if 0 \<le> tr_fd (ob_tr ob)
      then (ob\<lparr>ob_tr := (ob_tr ob)\<lparr>tr_fd := -1\<rparr>\<rparr>, [tr_fd (ob_tr ob)]) else (ob, []))"

definition phoenixwire_client_free_object :: "phoenixwire_client_obj \<Rightarrow> phoenixwire_client_obj \<times> int list" where
  "phoenixwire_client_free_object ob =
     (let st = conn_state (ob_conn ob);
          ob = (if st \<noteq> PW_STATE_DISCONNECTED \<and> st \<noteq> PW_STATE_CLOSED
                then ob\<lparr>ob_conn := snd (transition (ob_conn ob) PW_STATE_CLOSED)\<rparr> else ob)
      in close_fd ob)"

definition client_connect :: "string \<Rightarrow> int \<Rightarrow> phoenixwire_client_obj \<Rightarrow> php_result \<times> phoenixwire_client_obj" where
  "client_connect host port ob =
     (if conn_state (ob_conn ob) \<noteq> PW_STATE_DISCONNECTED \<and> conn_state (ob_conn ob) \<noteq> PW_STATE_CLOSED
      then (Throw ''Client is already connected or connecting'', ob)
      else case transition (ob_conn ob) PW_STATE_CONNECTING of
          (False, conn) \<Rightarrow> (Throw ''Failed to transition to CONNECTING state'', ob\<lparr>ob_conn := conn\<rparr>)
        | (True, conn) \<Rightarrow> (ReturnTrue, ob\<lparr>ob_conn := conn\<rparr>))"

definition client_disconnect :: "phoenixwire_client_obj \<Rightarrow> php_result \<times> phoenixwire_client_obj \<times> int list" where
  "client_disconnect ob =
     (if conn_state (ob_conn ob) \<noteq> PW_STATE_CLOSED \<and> conn_state (ob_conn ob) \<noteq> PW_STATE_DISCONNECTED
      then (let conn = (case transition (ob_conn ob) PW_STATE_CLOSING of
                  (True, conn) \<Rightarrow> conn
                | (False, conn) \<Rightarrow> snd (transition conn PW_STATE_CLOSED))
            in (ReturnTrue, close_fd (ob\<lparr>ob_conn := conn\<rparr>)))
      else (ReturnTrue, ob, []))"

definition client_getState :: "phoenixwire_client_obj \<Rightarrow> php_result" where
  "client_getState ob = ReturnLong (state_code (conn_state (ob_conn ob)))"

section \<open>Scripts\<close>

text \<open>The calls that a script makes on an object, with their results and the descriptors closed.\<close>

datatype method_call = Connect string int | Disconnect | GetState

primrec call :: "method_call \<Rightarrow> phoenixwire_client_obj \<Rightarrow> php_result \<times> phoenixwire_client_obj \<times> int list" where
  "call (Connect host port) ob = (case client_connect host port ob of (r, ob) \<Rightarrow> (r, ob, []))"
| "call Disconnect ob = client_disconnect ob"
| "call GetState ob = (client_getState ob, ob, [])"

fun script :: "method_call list \<Rightarrow> phoenixwire_client_obj \<Rightarrow> php_result list \<times> phoenixwire_client_obj \<times> int list" where
  "script [] ob = ([], ob, [])"
| "script (m # ms) ob =
     (case call m ob of (r, ob, fds) \<Rightarrow> case script ms ob of (rs, ob, fds') \<Rightarrow> (r # rs, ob, fds @ fds'))"

text \<open>The specification: an object is fresh, dialing or spent, and what a call returns depends on that
  and nothing else.\<close>

datatype phase = Fresh | Dialing | Spent

primrec phase_state :: "phase \<Rightarrow> pw_connection_state" where
  "phase_state Fresh = PW_STATE_DISCONNECTED"
| "phase_state Dialing = PW_STATE_CONNECTING"
| "phase_state Spent = PW_STATE_CLOSED"

fun phase_call :: "method_call \<Rightarrow> phase \<Rightarrow> php_result \<times> phase" where
  "phase_call (Connect h p) Fresh = (ReturnTrue, Dialing)"
| "phase_call (Connect h p) Dialing = (Throw ''Client is already connected or connecting'', Dialing)"
| "phase_call (Connect h p) Spent = (Throw ''Failed to transition to CONNECTING state'', Spent)"
| "phase_call Disconnect Fresh = (ReturnTrue, Fresh)"
| "phase_call Disconnect Dialing = (ReturnTrue, Spent)"
| "phase_call Disconnect Spent = (ReturnTrue, Spent)"
| "phase_call GetState Fresh = (ReturnLong 0, Fresh)"
| "phase_call GetState Dialing = (ReturnLong 1, Dialing)"
| "phase_call GetState Spent = (ReturnLong 7, Spent)"

fun phase_script :: "method_call list \<Rightarrow> phase \<Rightarrow> php_result list \<times> phase" where
  "phase_script [] ph = ([], ph)"
| "phase_script (m # ms) ph =
     (case phase_call m ph of (r, ph) \<Rightarrow> case phase_script ms ph of (rs, ph) \<Rightarrow> (r # rs, ph))"

definition in_phase :: "phase \<Rightarrow> phoenixwire_client_obj \<Rightarrow> bool" where
  "in_phase ph ob \<longleftrightarrow> conn_state (ob_conn ob) = phase_state ph \<and> tr_fd (ob_tr ob) = -1"

lemma call_refines:
  assumes "in_phase ph ob" and "phase_call m ph = (r, ph')"
  shows "\<exists>ob'. call m ob = (r, ob', []) \<and> in_phase ph' ob'"
  using assms
  by (cases m; cases ph)
    (auto simp: in_phase_def client_connect_def client_disconnect_def client_getState_def close_fd_def
      transition_eq lifecycle.simps)

lemma script_refines:
  "in_phase ph ob \<Longrightarrow> phase_script ms ph = (rs, ph') \<Longrightarrow> \<exists>ob'. script ms ob = (rs, ob', []) \<and> in_phase ph' ob'"
proof (induction ms arbitrary: ph ob rs ph')
  case (Cons m ms)
  obtain r ph1 where p: "phase_call m ph = (r, ph1)" by (cases "phase_call m ph")
  with call_refines [OF Cons.prems(1) p] obtain ob1 where c: "call m ob = (r, ob1, [])" "in_phase ph1 ob1" by blast
  obtain rs' ph2 where "phase_script ms ph1 = (rs', ph2)" by (cases "phase_script ms ph1")
  with Cons.IH [OF c(2) this] Cons.prems(2) p c(1) show ?case by auto
qed simp

lemma phase_spent: "snd (phase_script ms Spent) = Spent"
proof (induction ms)
  case (Cons m ms)
  then show ?case by (cases m; cases "phase_script ms Spent") simp_all
qed simp

lemma create_in_phase:
  "\<exists>ob. phoenixwire_client_create_object fcntl junk w = Some ob \<and> in_phase Fresh ob"
  by (simp add: phoenixwire_client_create_object_def pw_connection_init_def pw_transport_init_def in_phase_def)

section \<open>Properties\<close>

text \<open>C36: What a script sees of a new object is the three-phase specification: the results of any sequence
  of calls of \<open>connect\<close>, \<open>disconnect\<close> and \<open>getState\<close> are those of an object that is fresh, dialing or
  spent. So \<open>connect\<close> only changes the state and never opens a socket, no call closes a descriptor, and
  no other state than 0, 1 and 7 is ever reported.\<close>

theorem extension_refines_phases:
  "\<exists>ob ob'. phoenixwire_client_create_object fcntl junk w = Some ob \<and>
    script ms ob = (fst (phase_script ms Fresh), ob', []) \<and> in_phase (snd (phase_script ms Fresh)) ob'"
proof -
  from create_in_phase [of fcntl junk w] obtain ob where
    "phoenixwire_client_create_object fcntl junk w = Some ob" "in_phase Fresh ob" by blast
  with script_refines [OF this(2), of ms "fst (phase_script ms Fresh)" "snd (phase_script ms Fresh)"]
  show ?thesis by auto
qed

text \<open>An object cannot be connected again once it was disconnected: whatever calls are made after
  \<open>connect\<close> and \<open>disconnect\<close>, every further \<open>connect\<close> throws, although the method lets an object in
  the state CLOSED pass its first check, and the object stays in that state until it is freed.\<close>

lemma extension_no_reconnect:
  assumes "phoenixwire_client_create_object fcntl junk w = Some ob"
    and "script (Connect h p # Disconnect # ms) ob = (rs, ob', fds)"
  shows "client_connect h' p' ob' = (Throw ''Failed to transition to CONNECTING state'', ob') \<and>
    conn_state (ob_conn (fst (phoenixwire_client_free_object ob'))) = PW_STATE_CLOSED"
proof -
  from create_in_phase [of fcntl junk w] assms(1) have fresh: "in_phase Fresh ob" by auto
  let ?ms = "Connect h p # Disconnect # ms"
  have "snd (phase_script ?ms Fresh) = Spent" using phase_spent [of ms] by (cases "phase_script ms Spent") simp
  then have "phase_script ?ms Fresh = (fst (phase_script ?ms Fresh), Spent)" by (metis prod.collapse)
  from script_refines [OF fresh this] assms(2) have "in_phase Spent ob'"
    by (auto simp del: script.simps phase_script.simps)
  then show ?thesis
    by (cases ob') (auto simp: in_phase_def client_connect_def phoenixwire_client_free_object_def close_fd_def
        transition_eq from_closed)
qed

end
