(* ===== verification/PW_Module.thy ===== *)
theory PW_Module
  imports PW_Extension
begin

text \<open>
  What the extension \<open>extension/src/phoenixwire.c\<close> tells the PHP engine: the argument descriptions and
  the table of the methods of \<open>PhoenixWire\Client\<close>, the classes with their constants, the module entry and
  its callbacks. The engine's conversions of arguments, \<open>Z_PARAM_STRING\<close> and \<open>Z_PARAM_LONG\<close>, are
  parameters: they answer the converted value or refuse. A call that they refuse, or one with a wrong number of
  arguments, is \<open>BadArguments\<close>.
\<close>

section \<open>The code\<close>

text \<open>The values of PHP as far as the methods distinguish them.\<close>

datatype zval = ZNull | ZBool bool | ZLong int | ZString string | ZArray "(string \<times> zval) list"

datatype zend_type = IS_STRING | IS_LONG

record zend_params =
  z_param_string :: "zval \<Rightarrow> string option"
  z_param_long :: "zval \<Rightarrow> int option"

record arg_info =
  ai_required :: nat
  ai_args :: "(string \<times> zend_type) list"

definition arginfo_client_construct :: arg_info where
  "arginfo_client_construct = \<lparr>ai_required = 0, ai_args = []\<rparr>"

definition arginfo_client_connect :: arg_info where
  "arginfo_client_connect = \<lparr>ai_required = 2, ai_args = [(''host'', IS_STRING), (''port'', IS_LONG)]\<rparr>"

definition arginfo_client_disconnect :: arg_info where
  "arginfo_client_disconnect = \<lparr>ai_required = 0, ai_args = []\<rparr>"

definition arginfo_client_getstate :: arg_info where
  "arginfo_client_getstate = \<lparr>ai_required = 0, ai_args = []\<rparr>"

text \<open>The methods as the engine calls them, with the parsing of their arguments.\<close>

type_synonym php_method =
  "zend_params \<Rightarrow> zval list \<Rightarrow> phoenixwire_client_obj \<Rightarrow> php_result \<times> phoenixwire_client_obj \<times> int list"

definition zim_construct :: php_method where
  "zim_construct zp args ob = (if args = [] then (ReturnNull, ob, []) else (BadArguments, ob, []))"

definition zim_connect :: php_method where
  "zim_connect zp args ob =
     (case args of
        [a, b] \<Rightarrow>
          (case z_param_string zp a of
             None \<Rightarrow> (BadArguments, ob, [])
           | Some host \<Rightarrow>
               (case z_param_long zp b of
                  None \<Rightarrow> (BadArguments, ob, [])
                | Some port \<Rightarrow> (case client_connect host port ob of (r, ob) \<Rightarrow> (r, ob, []))))
      | _ \<Rightarrow> (BadArguments, ob, []))"

definition zim_disconnect :: php_method where
  "zim_disconnect zp args ob = (if args = [] then client_disconnect ob else (BadArguments, ob, []))"

definition zim_getState :: php_method where
  "zim_getState zp args ob = (if args = [] then (client_getState ob, ob, []) else (BadArguments, ob, []))"

datatype zend_acc = ZEND_ACC_PUBLIC | ZEND_ACC_CTOR

record method_entry =
  me_name :: string
  me_handler :: php_method
  me_arginfo :: arg_info
  me_flags :: "zend_acc list"

definition phoenixwire_client_methods :: "method_entry list" where
  "phoenixwire_client_methods =
     [\<lparr>me_name = ''__construct'', me_handler = zim_construct, me_arginfo = arginfo_client_construct,
        me_flags = [ZEND_ACC_PUBLIC, ZEND_ACC_CTOR]\<rparr>,
      \<lparr>me_name = ''connect'', me_handler = zim_connect, me_arginfo = arginfo_client_connect,
        me_flags = [ZEND_ACC_PUBLIC]\<rparr>,
      \<lparr>me_name = ''disconnect'', me_handler = zim_disconnect, me_arginfo = arginfo_client_disconnect,
        me_flags = [ZEND_ACC_PUBLIC]\<rparr>,
      \<lparr>me_name = ''getState'', me_handler = zim_getState, me_arginfo = arginfo_client_getstate,
        me_flags = [ZEND_ACC_PUBLIC]\<rparr>]"

definition arginfo_phoenixwire_version :: arg_info where
  "arginfo_phoenixwire_version = \<lparr>ai_required = 0, ai_args = []\<rparr>"

record function_entry =
  fe_name :: string
  fe_result :: php_result
  fe_arginfo :: arg_info

definition phoenixwire_functions :: "function_entry list" where
  "phoenixwire_functions =
     [\<lparr>fe_name = ''phoenixwire_version'', fe_result = phoenixwire_version, fe_arginfo = arginfo_phoenixwire_version\<rparr>]"

text \<open>The classes: the name of the parent, the methods, how an object is made from uninitialised memory and
  how it is freed, when the class says so itself, and the constants.\<close>

record class_entry =
  ce_name :: string
  ce_parent :: "string option"
  ce_methods :: "method_entry list"
  ce_create_object :: "(phoenixwire_client_obj \<Rightarrow> phoenixwire_client_obj option) option"
  ce_free_obj :: "(phoenixwire_client_obj \<Rightarrow> phoenixwire_client_obj \<times> int list) option"
  ce_constants :: "(string \<times> nat) list"

datatype zend_result = SUCCESS | FAILURE

text \<open>The state of the system does not matter for the objects: their transport has no descriptor yet. The
  classes are added to the ones that the engine knows.\<close>

definition minit_phoenixwire ::
  "(int \<Rightarrow> fcntl_cmd \<Rightarrow> 'w \<Rightarrow> int \<times> 'w) \<Rightarrow> 'w \<Rightarrow> class_entry list \<Rightarrow> class_entry list \<times> zend_result" where
  "minit_phoenixwire fcntl w classes =
     (let ce_exception =
            \<lparr>ce_name = ''PhoenixWire'' @ [CHR 0x5C] @ ''Exception'', ce_parent = Some ''Exception'', ce_methods = [],
             ce_create_object = None, ce_free_obj = None, ce_constants = []\<rparr>;
          ce_client =
            \<lparr>ce_name = ''PhoenixWire'' @ [CHR 0x5C] @ ''Client'', ce_parent = None, ce_methods = phoenixwire_client_methods,
             ce_create_object = None, ce_free_obj = None, ce_constants = []\<rparr>;
          ce_client = ce_client\<lparr>ce_create_object := Some (\<lambda>junk. phoenixwire_client_create_object fcntl junk w)\<rparr>;
          ce_client = ce_client\<lparr>ce_free_obj := Some phoenixwire_client_free_object\<rparr>;
          ce_client = ce_client\<lparr>ce_constants := ce_constants ce_client @ state_constants\<rparr>
      in (classes @ [ce_exception, ce_client], SUCCESS))"

definition mshutdown_phoenixwire :: zend_result where
  "mshutdown_phoenixwire = SUCCESS"

definition rinit_phoenixwire :: zend_result where
  "rinit_phoenixwire = SUCCESS"

definition rshutdown_phoenixwire :: zend_result where
  "rshutdown_phoenixwire = SUCCESS"

text \<open>The rows of the table that \<open>phpinfo\<close> prints.\<close>

definition minfo_phoenixwire :: "(string \<times> string) list" where
  "minfo_phoenixwire = [(''PhoenixWire support'', ''enabled''), (''Version'', php_phoenixwire_version)]"

record module_entry =
  mo_name :: string
  mo_functions :: "function_entry list"
  mo_startup :: "class_entry list \<Rightarrow> class_entry list \<times> zend_result"
  mo_shutdown :: zend_result
  mo_request_startup :: zend_result
  mo_request_shutdown :: zend_result
  mo_info :: "(string \<times> string) list"
  mo_version :: string

definition phoenixwire_module_entry ::
  "(int \<Rightarrow> fcntl_cmd \<Rightarrow> 'w \<Rightarrow> int \<times> 'w) \<Rightarrow> 'w \<Rightarrow> module_entry" where
  "phoenixwire_module_entry fcntl w =
     \<lparr>mo_name = ''phoenixwire'', mo_functions = phoenixwire_functions, mo_startup = minit_phoenixwire fcntl w,
      mo_shutdown = mshutdown_phoenixwire, mo_request_startup = rinit_phoenixwire,
      mo_request_shutdown = rshutdown_phoenixwire, mo_info = minfo_phoenixwire, mo_version = php_phoenixwire_version\<rparr>"

section \<open>Calls through the table\<close>

text \<open>The engine looks a class up by its name and a method in the table of the class.\<close>

definition client_class :: string where
  "client_class = ''PhoenixWire'' @ [CHR 0x5C] @ ''Client''"

definition find_class :: "class_entry list \<Rightarrow> string \<Rightarrow> class_entry option" where
  "find_class classes name = List.find (\<lambda>c. ce_name c = name) classes"

definition find_method :: "class_entry \<Rightarrow> string \<Rightarrow> method_entry option" where
  "find_method c name = List.find (\<lambda>m. me_name m = name) (ce_methods c)"

text \<open>The classes after the start of the module.\<close>

definition started :: "(int \<Rightarrow> fcntl_cmd \<Rightarrow> 'w \<Rightarrow> int \<times> 'w) \<Rightarrow> 'w \<Rightarrow> class_entry list \<Rightarrow> class_entry list" where
  "started fcntl w classes = fst (mo_startup (phoenixwire_module_entry fcntl w) classes)"

text \<open>A list of arguments that the engine accepts for an argument description.\<close>

fun arg_accepted :: "zend_params \<Rightarrow> zend_type \<Rightarrow> zval \<Rightarrow> bool" where
  "arg_accepted zp IS_STRING v = (z_param_string zp v \<noteq> None)"
| "arg_accepted zp IS_LONG v = (z_param_long zp v \<noteq> None)"

definition args_accepted :: "zend_params \<Rightarrow> arg_info \<Rightarrow> zval list \<Rightarrow> bool" where
  "args_accepted zp ai args \<longleftrightarrow> ai_required ai \<le> length args \<and> length args \<le> length (ai_args ai) \<and>
     list_all2 (\<lambda>v t. arg_accepted zp (snd t) v) args (take (length args) (ai_args ai))"

text \<open>What a method may return.\<close>

definition result_typed :: "(string \<times> nat) list \<Rightarrow> string \<Rightarrow> php_result \<Rightarrow> bool" where
  "result_typed consts name r \<longleftrightarrow>
     (if name = ''__construct'' then r = ReturnNull
      else if name = ''connect'' then r = ReturnTrue \<or> (\<exists>msg. r = Throw msg)
      else if name = ''disconnect'' then r = ReturnTrue
      else name = ''getState'' \<and> (\<exists>c \<in> set consts. r = ReturnLong (snd c)))"

lemma state_code_registered: "\<exists>c \<in> set state_constants. state_code s = snd c"
  by (cases s) (simp_all add: state_constants_def)

lemma connect_result: "client_connect h p ob = (r, ob') \<Longrightarrow> r = ReturnTrue \<or> (\<exists>msg. r = Throw msg)"
  by (auto simp: client_connect_def split: if_splits prod.splits bool.splits)

lemma disconnect_result: "fst (client_disconnect ob) = ReturnTrue"
  by (auto simp: client_disconnect_def Let_def split: prod.splits bool.splits)

lemma two_args:
  "args_accepted zp arginfo_client_connect args \<longleftrightarrow>
     (\<exists>a b. args = [a, b] \<and> z_param_string zp a \<noteq> None \<and> z_param_long zp b \<noteq> None)"
  by (auto simp: args_accepted_def arginfo_client_connect_def length_Suc_conv numeral_2_eq_2 le_Suc_eq
      list_all2_Cons1)

lemma no_args: "args_accepted zp \<lparr>ai_required = 0, ai_args = []\<rparr> args \<longleftrightarrow> args = []"
  by (auto simp: args_accepted_def)

lemma zim_connect_refused:
  "\<not> args_accepted zp arginfo_client_connect args \<Longrightarrow> zim_connect zp args ob = (BadArguments, ob, [])"
  by (auto simp: two_args zim_connect_def split: list.splits option.splits)

lemma method_contract:
  assumes "m \<in> set phoenixwire_client_methods" and "me_handler m zp args ob = (r, ob', fds)"
  shows "if args_accepted zp (me_arginfo m) args then result_typed state_constants (me_name m) r
    else r = BadArguments \<and> ob' = ob \<and> fds = []"
proof -
  consider (construct) "me_name m = ''__construct''" "me_handler m = zim_construct" "me_arginfo m = arginfo_client_construct"
    | (connect) "me_name m = ''connect''" "me_handler m = zim_connect" "me_arginfo m = arginfo_client_connect"
    | (disconnect) "me_name m = ''disconnect''" "me_handler m = zim_disconnect" "me_arginfo m = arginfo_client_disconnect"
    | (getstate) "me_name m = ''getState''" "me_handler m = zim_getState" "me_arginfo m = arginfo_client_getstate"
    using assms(1) by (auto simp: phoenixwire_client_methods_def)
  then show ?thesis
  proof cases
    case construct
    with assms(2) show ?thesis
      by (auto simp: zim_construct_def arginfo_client_construct_def no_args result_typed_def split: if_splits)
  next
    case connect
    show ?thesis
    proof (cases "args_accepted zp arginfo_client_connect args")
      case True
      then obtain a b host port where "args = [a, b]" "z_param_string zp a = Some host" "z_param_long zp b = Some port"
        by (auto simp: two_args)
      with assms(2) connect(2) have "r = fst (client_connect host port ob)"
        by (auto simp: zim_connect_def split: prod.splits)
      with connect_result [of host port ob r] have "r = ReturnTrue \<or> (\<exists>msg. r = Throw msg)"
        by (metis prod.collapse)
      with connect True show ?thesis by (simp add: result_typed_def)
    next
      case False
      with connect assms(2) show ?thesis by (simp add: zim_connect_refused)
    qed
  next
    case disconnect
    with assms(2) disconnect_result [of ob] show ?thesis
      by (auto simp: zim_disconnect_def arginfo_client_disconnect_def no_args result_typed_def split: if_splits)
  next
    case getstate
    with assms(2) state_code_registered [of "conn_state (ob_conn ob)"] show ?thesis
      by (auto simp: zim_getState_def arginfo_client_getstate_def no_args result_typed_def client_getState_def
          split: if_splits)
  qed
qed

lemma find_methodD: "find_method c name = Some m \<Longrightarrow> m \<in> set (ce_methods c) \<and> me_name m = name"
  by (auto simp: find_method_def find_Some_iff)

lemma client_class_found:
  assumes "\<forall>k \<in> set classes. ce_name k \<noteq> client_class"
  shows "\<exists>c. find_class (started fcntl w classes) client_class = Some c \<and> ce_methods c = phoenixwire_client_methods \<and>
    ce_constants c = state_constants"
  using assms
  by (induction classes)
    (auto simp: find_class_def started_def phoenixwire_module_entry_def minit_phoenixwire_def client_class_def Let_def)

section \<open>Properties\<close>

text \<open>C35: The methods of the class that the module registers keep to their types: after the start of the module
  the class is there under its name, its constants have distinct names and distinct values, and a call
  of any of its methods on any object, with any arguments, either is refused, exactly when the number of
  arguments or a conversion does not fit the argument description of the table, and then leaves the object alone, or returns what
  the method may return; in particular \<open>getState\<close> always returns the value of one of the constants.\<close>

theorem extension_methods_typed:
  assumes "\<forall>k \<in> set classes. ce_name k \<noteq> client_class"
  shows "\<exists>c. find_class (started fcntl w classes) client_class = Some c \<and>
    distinct (map fst (ce_constants c)) \<and> distinct (map snd (ce_constants c)) \<and>
    (\<forall>name m zp args ob r ob' fds. find_method c name = Some m \<longrightarrow> me_handler m zp args ob = (r, ob', fds) \<longrightarrow>
      (if args_accepted zp (me_arginfo m) args then result_typed (ce_constants c) name r
       else r = BadArguments \<and> ob' = ob \<and> fds = []))"
proof -
  from client_class_found [OF assms, of fcntl w] obtain c where
    c: "find_class (started fcntl w classes) client_class = Some c" "ce_methods c = phoenixwire_client_methods"
      "ce_constants c = state_constants" by (elim exE conjE) (rule that)
  have distinct: "distinct (map fst state_constants)" "distinct (map snd state_constants)"
    by (simp_all add: state_constants_def)
  have typed: "\<forall>name m zp args ob r ob' fds. find_method c name = Some m \<longrightarrow> me_handler m zp args ob = (r, ob', fds) \<longrightarrow>
      (if args_accepted zp (me_arginfo m) args then result_typed state_constants name r
       else r = BadArguments \<and> ob' = ob \<and> fds = [])"
  proof (intro allI impI)
    fix name m zp args ob r ob' fds
    assume m: "find_method c name = Some m" and h: "me_handler m zp args ob = (r, ob', fds)"
    from find_methodD [OF m] c(2) have "m \<in> set phoenixwire_client_methods" and n: "me_name m = name" by simp_all
    from method_contract [OF this(1) h] show "if args_accepted zp (me_arginfo m) args
        then result_typed state_constants name r else r = BadArguments \<and> ob' = ob \<and> fds = []"
      unfolding n .
  qed
  show ?thesis
    by (rule exI [of _ c], unfold c(3), intro conjI, rule c(1), rule distinct(1), rule distinct(2), rule typed)
qed

theorem extension_methods_typed_witness:
  "let zp = \<lparr>z_param_string = (\<lambda>v. Some ''localhost''), z_param_long = (\<lambda>v. None)\<rparr>;
       ob = \<lparr>ob_conn = \<lparr>conn_state = PW_STATE_READY\<rparr>,
             ob_tr = \<lparr>tr_fd = 4, tr_read_buffer = [], tr_read_pos = 0, tr_read_len = 0,
                      tr_write_buffer = [], tr_write_pos = 0, tr_write_len = 0\<rparr>\<rparr>
   in \<exists>c m. find_class (started (\<lambda>fd cmd w. (0, w)) () []) client_class = Some c \<and>
        find_method c ''connect'' = Some m \<and> me_handler m zp [ZString ''localhost'', ZNull] ob = (BadArguments, ob, [])"
proof -
  define zp where "zp = \<lparr>z_param_string = (\<lambda>v :: zval. Some ''localhost''), z_param_long = (\<lambda>v :: zval. None :: int option)\<rparr>"
  define ob where "ob = \<lparr>ob_conn = \<lparr>conn_state = PW_STATE_READY\<rparr>,
    ob_tr = \<lparr>tr_fd = 4, tr_read_buffer = [], tr_read_pos = 0, tr_read_len = 0,
      tr_write_buffer = [], tr_write_pos = 0, tr_write_len = 0\<rparr>\<rparr>"
  let ?f = "\<lambda>(fd :: int) (cmd :: fcntl_cmd) (w :: unit). (0 :: int, w)"
  have none: "\<forall>k \<in> set ([] :: class_entry list). ce_name k \<noteq> client_class" by simp
  obtain c where c: "find_class (started ?f () []) client_class = Some c"
    and typed: "\<forall>name m zp args ob r ob' fds. find_method c name = Some m \<longrightarrow> me_handler m zp args ob = (r, ob', fds) \<longrightarrow>
      (if args_accepted zp (me_arginfo m) args then result_typed (ce_constants c) name r
       else r = BadArguments \<and> ob' = ob \<and> fds = [])"
    using extension_methods_typed [OF none, of ?f "()"] by (elim exE conjE) (rule that)
  have c2: "ce_methods c = phoenixwire_client_methods"
    using client_class_found [OF none, of ?f "()"] c by auto
  obtain m where m: "find_method c ''connect'' = Some m" "me_arginfo m = arginfo_client_connect"
    using c2 by (simp add: find_method_def phoenixwire_client_methods_def)
  obtain r ob' fds where h: "me_handler m zp [ZString ''localhost'', ZNull] ob = (r, ob', fds)" by (metis surj_pair)
  have "\<not> args_accepted zp (me_arginfo m) [ZString ''localhost'', ZNull]" by (simp add: m(2) two_args zp_def)
  with typed m(1) h have "r = BadArguments \<and> ob' = ob \<and> fds = []" by (metis (no_types, lifting))
  with h c m(1) show ?thesis
    unfolding zp_def [symmetric] ob_def [symmetric] Let_def by auto
qed

end
