(* ===== verification/PW_PhpServer.thy ===== *)
theory PW_PhpServer
  imports PW_StreamClient "HOL-Library.AList" Complex_Main
begin

text \<open>
  The server classes of the PHP library, \<open>Server.php\<close>, \<open>Session.php\<close>, \<open>Stats.php\<close>, \<open>ServerOptions.php\<close> and
  \<open>Message.php\<close>: the registry of sessions with its quota and the eviction of idle ones. Sessions are objects, so
  the registry holds handles into a heap, and a callback may change both; \<open>wo_user\<close> is what else a callback
  may change. The clock is a parameter, in milliseconds as the code computes it and in seconds. Calls
  that the code marks as still to be written (sending, closing, listening) do nothing. Left out are the fields
  that nothing reads: the stream of a session, the address of the server, \<open>onMessage\<close>. An id that looks like a
  number becomes a number as a key of the array; different ids stay different.
\<close>

section \<open>The code\<close>

text \<open>\<open>Stats\<close> and \<open>Session\<close>.\<close>

record php_stats =
  st_messagesSent :: int
  st_messagesReceived :: int
  st_bytesSent :: int
  st_bytesReceived :: int
  st_reconnectCount :: int
  st_droppedMessages :: int
  st_backlogDepthBytes :: int
  st_lastPingLatencyMs :: int
  st_connectedSince :: real

definition new_stats :: php_stats where
  "new_stats =
     \<lparr>st_messagesSent = 0, st_messagesReceived = 0, st_bytesSent = 0, st_bytesReceived = 0, st_reconnectCount = 0,
      st_droppedMessages = 0, st_backlogDepthBytes = 0, st_lastPingLatencyMs = 0, st_connectedSince = 0\<rparr>"

definition uptimeSeconds :: "real \<Rightarrow> php_stats \<Rightarrow> real" where
  "uptimeSeconds now s = (if 0 < st_connectedSince s then now - st_connectedSince s else 0)"

record php_message =
  mg_type :: int
  mg_payload :: "byte list"
  mg_streamId :: int

record php_session =
  ss_id :: string
  ss_stats :: php_stats
  ss_lastActivityMs :: int

text \<open>Without an id the session takes 16 random hexadecimal digits, which are a parameter.\<close>

definition session_construct :: "string \<Rightarrow> real \<Rightarrow> int \<Rightarrow> string option \<Rightarrow> php_session" where
  "session_construct random now ms i =
     \<lparr>ss_id = (case i of None \<Rightarrow> random | Some i \<Rightarrow> i), ss_stats = new_stats\<lparr>st_connectedSince := now\<rparr>, ss_lastActivityMs = ms\<rparr>"

definition session_send :: "int \<Rightarrow> php_message + byte list \<Rightarrow> php_session \<Rightarrow> php_session" where
  "session_send ms data s =
     (let payload = (case data of Inl m \<Rightarrow> mg_payload m | Inr bs \<Rightarrow> bs); stats = ss_stats s
      in s\<lparr>ss_stats := stats\<lparr>st_messagesSent := st_messagesSent stats + 1,
                         st_bytesSent := st_bytesSent stats + int (length payload)\<rparr>,
           ss_lastActivityMs := ms\<rparr>)"

definition session_recordReceive :: "int \<Rightarrow> int \<Rightarrow> php_session \<Rightarrow> php_session" where
  "session_recordReceive ms bytes s =
     (let stats = ss_stats s
      in s\<lparr>ss_stats := stats\<lparr>st_messagesReceived := st_messagesReceived stats + 1,
                         st_bytesReceived := st_bytesReceived stats + bytes\<rparr>,
           ss_lastActivityMs := ms\<rparr>)"

definition session_close :: "php_session \<Rightarrow> php_session" where
  "session_close s = s"

text \<open>\<open>Server\<close>: the registry is an array in the order of insertion. The callbacks stay as they are while the
  server works. A callback gets a session, and the error callback an exception too.\<close>

record 'u php_world =
  wo_heap :: "nat \<Rightarrow> php_session"
  wo_sessions :: "(string \<times> nat) list"
  wo_user :: 'u

record 'u php_server =
  sv_maxSessions :: int
  sv_idleTimeoutMs :: int
  sv_onConnect :: "(nat \<Rightarrow> (unit, 'u php_world) php) option"
  sv_onClose :: "(nat \<Rightarrow> (unit, 'u php_world) php) option"
  sv_onError :: "(php_exception \<Rightarrow> nat \<Rightarrow> (unit, 'u php_world) php) option"

definition server_construct :: "int \<Rightarrow> int \<Rightarrow> 'u php_server" where
  "server_construct maxSessions idleTimeoutMs =
     \<lparr>sv_maxSessions = maxSessions, sv_idleTimeoutMs = idleTimeoutMs, sv_onConnect = None, sv_onClose = None, sv_onError = None\<rparr>"

definition server_default :: "'u php_server" where
  "server_default = server_construct 10000 300000"

definition server_onConnect :: "(nat \<Rightarrow> (unit, 'u php_world) php) \<Rightarrow> 'u php_server \<Rightarrow> 'u php_server" where
  "server_onConnect callback srv = srv\<lparr>sv_onConnect := Some callback\<rparr>"

definition server_onClose :: "(nat \<Rightarrow> (unit, 'u php_world) php) \<Rightarrow> 'u php_server \<Rightarrow> 'u php_server" where
  "server_onClose callback srv = srv\<lparr>sv_onClose := Some callback\<rparr>"

definition server_onError :: "(php_exception \<Rightarrow> nat \<Rightarrow> (unit, 'u php_world) php) \<Rightarrow> 'u php_server \<Rightarrow> 'u php_server" where
  "server_onError callback srv = srv\<lparr>sv_onError := Some callback\<rparr>"

definition on_session :: "(php_session \<Rightarrow> php_session) \<Rightarrow> nat \<Rightarrow> 'u php_world \<Rightarrow> 'u php_world" where
  "on_session f h w = w\<lparr>wo_heap := (wo_heap w)(h := f (wo_heap w h))\<rparr>"

definition announce ::
  "'u php_server \<Rightarrow> (nat \<Rightarrow> (unit, 'u php_world) php) option \<Rightarrow> nat \<Rightarrow> (unit, 'u php_world) php" where
  "announce srv callback h w =
     (case callback of
        None \<Rightarrow> (Inr (), w)
      | Some f \<Rightarrow>
          (case f h w of
             (Inl e, w) \<Rightarrow> (case sv_onError srv of None \<Rightarrow> (Inr (), w) | Some g \<Rightarrow> g e h w)
           | (Inr _, w) \<Rightarrow> (Inr (), w)))"

definition addSession :: "'u php_server \<Rightarrow> nat \<Rightarrow> (bool, 'u php_world) php" where
  "addSession srv h w =
     (if sv_maxSessions srv \<le> int (length (wo_sessions w))
      then (Inr False, on_session session_close h w)
      else and_then
        (announce srv (sv_onConnect srv) h (w\<lparr>wo_sessions := AList.update (ss_id (wo_heap w h)) h (wo_sessions w)\<rparr>))
        (\<lambda>_ w. (Inr True, w)))"

definition removeSession :: "'u php_server \<Rightarrow> string \<Rightarrow> (unit, 'u php_world) php" where
  "removeSession srv i w =
     (case map_of (wo_sessions w) i of
        None \<Rightarrow> (Inr (), w)
      | Some h \<Rightarrow> announce srv (sv_onClose srv) h (w\<lparr>wo_sessions := AList.delete i (wo_sessions w)\<rparr>))"

text \<open>A loop over the registry runs over what it was when the loop began.\<close>

fun sweep_loop :: "'u php_server \<Rightarrow> int \<Rightarrow> (string \<times> nat) list \<Rightarrow> (unit, 'u php_world) php" where
  "sweep_loop srv nowMs [] w = (Inr (), w)"
| "sweep_loop srv nowMs ((i, h) # entries) w =
     (if sv_idleTimeoutMs srv < nowMs - ss_lastActivityMs (wo_heap w h)
      then and_then (removeSession srv i (on_session session_close h w)) (\<lambda>_. sweep_loop srv nowMs entries)
      else sweep_loop srv nowMs entries w)"

definition sweepIdleSessions :: "'u php_server \<Rightarrow> int \<Rightarrow> (unit, 'u php_world) php" where
  "sweepIdleSessions srv nowMs w = sweep_loop srv nowMs (wo_sessions w) w"

text \<open>The clock of a broadcast may differ for every session.\<close>

fun broadcast_loop ::
  "(nat \<Rightarrow> int) \<Rightarrow> php_message + byte list \<Rightarrow> (nat \<Rightarrow> (bool, 'u php_world) php) option \<Rightarrow> (string \<times> nat) list \<Rightarrow> (unit, 'u php_world) php" where
  "broadcast_loop ms message flt [] w = (Inr (), w)"
| "broadcast_loop ms message flt ((i, h) # entries) w =
     and_then (case flt of None \<Rightarrow> (Inr True, w) | Some f \<Rightarrow> f h w) (\<lambda>wanted w.
       broadcast_loop ms message flt entries (if wanted then on_session (session_send (ms h) message) h w else w))"

definition broadcast ::
  "(nat \<Rightarrow> int) \<Rightarrow> php_message + byte list \<Rightarrow> (nat \<Rightarrow> (bool, 'u php_world) php) option \<Rightarrow> (unit, 'u php_world) php" where
  "broadcast ms message flt w = broadcast_loop ms message flt (wo_sessions w) w"

section \<open>Invariants\<close>

text \<open>What a method keeps, whether it returns or throws.\<close>

definition keeps :: "('s \<Rightarrow> bool) \<Rightarrow> ('a, 's) php \<Rightarrow> bool" where
  "keeps P m \<longleftrightarrow> (\<forall>w. P w \<longrightarrow> P (snd (m w)))"

lemma keepsI [intro]: "(\<And>w. P w \<Longrightarrow> P (snd (m w))) \<Longrightarrow> keeps P m"
  by (simp add: keeps_def)

lemma keepsD: "keeps P m \<Longrightarrow> P w \<Longrightarrow> P (snd (m w))"
  by (simp add: keeps_def)

lemma and_then_keeps: "P (snd m) \<Longrightarrow> (\<And>a. keeps P (f a)) \<Longrightarrow> P (snd (and_then m f))"
  by (auto simp: and_then_def keeps_def split: prod.splits sum.splits)

text \<open>The registry: no id twice, every session under its own id, and not more than the quota.\<close>

definition registry_ok :: "'u php_server \<Rightarrow> 'u php_world \<Rightarrow> bool" where
  "registry_ok srv w \<longleftrightarrow> distinct (map fst (wo_sessions w)) \<and> (\<forall>e \<in> set (wo_sessions w). ss_id (wo_heap w (snd e)) = fst e) \<and>
     int (length (wo_sessions w)) \<le> max 0 (sv_maxSessions srv)"

definition callbacks_keep :: "('u php_world \<Rightarrow> bool) \<Rightarrow> 'u php_server \<Rightarrow> bool" where
  "callbacks_keep P srv \<longleftrightarrow> (\<forall>f h. sv_onConnect srv = Some f \<or> sv_onClose srv = Some f \<longrightarrow> keeps P (f h)) \<and>
     (\<forall>g e h. sv_onError srv = Some g \<longrightarrow> keeps P (g e h))"

lemma announce_keeps:
  assumes "callbacks_keep P srv" and "callback = sv_onConnect srv \<or> callback = sv_onClose srv"
  shows "keeps P (announce srv callback h)"
proof (cases callback)
  case (Some f)
  with assms have f: "keeps P (f h)" by (auto simp: callbacks_keep_def)
  have g: "sv_onError srv = Some g \<Longrightarrow> keeps P (g e h)" for g e using assms(1) by (auto simp: callbacks_keep_def)
  show ?thesis
  proof
    fix w
    assume "P w"
    with keepsD [OF f] have "P (snd (f h w))" .
    with g show "P (snd (announce srv callback h w))"
      by (auto simp: announce_def Some keeps_def split: prod.splits sum.splits option.splits)
  qed
qed (auto simp: announce_def)

lemma on_session_ok:
  assumes "registry_ok srv w" and "\<And>s. ss_id (f s) = ss_id s"
  shows "registry_ok srv (on_session f h w)"
  using assms by (auto simp: registry_ok_def on_session_def)

lemma session_ids [simp]:
  "ss_id (session_send ms data s) = ss_id s" "ss_id (session_recordReceive ms n s) = ss_id s" "ss_id (session_close s) = ss_id s"
  by (simp_all add: session_send_def session_recordReceive_def session_close_def Let_def)

lemma length_update_le: "length (AList.update k v al) \<le> Suc (length al)"
  by (induction al) auto

lemma set_update_subset: "set (AList.update k v al) \<subseteq> insert (k, v) (set al)"
  by (induction al) auto

lemma set_delete_subset: "set (AList.delete k al) \<subseteq> set al"
  by (auto simp: AList.delete_eq)

lemma addSession_keeps:
  assumes "callbacks_keep (registry_ok srv) srv"
  shows "keeps (registry_ok srv) (addSession srv h)"
proof
  fix w
  assume w: "registry_ok srv w"
  show "registry_ok srv (snd (addSession srv h w))"
  proof (cases "sv_maxSessions srv \<le> int (length (wo_sessions w))")
    case True
    with w on_session_ok [of srv w session_close h] show ?thesis by (simp add: addSession_def)
  next
    case False
    let ?w = "w\<lparr>wo_sessions := AList.update (ss_id (wo_heap w h)) h (wo_sessions w)\<rparr>"
    have "registry_ok srv ?w"
      using w False length_update_le [of "ss_id (wo_heap w h)" h "wo_sessions w"]
        set_update_subset [of "ss_id (wo_heap w h)" h "wo_sessions w"]
      by (auto simp: registry_ok_def distinct_update)
    from keepsD [OF announce_keeps [OF assms] this, of "sv_onConnect srv" h]
    have "registry_ok srv (snd (announce srv (sv_onConnect srv) h ?w))" by simp
    then have "registry_ok srv (snd (and_then (announce srv (sv_onConnect srv) h ?w) (\<lambda>_ w. (Inr True, w))))"
      by (rule and_then_keeps) (simp add: keeps_def)
    with False show ?thesis by (simp add: addSession_def)
  qed
qed

lemma removeSession_keeps:
  assumes "callbacks_keep (registry_ok srv) srv"
  shows "keeps (registry_ok srv) (removeSession srv i)"
proof
  fix w
  assume w: "registry_ok srv w"
  have "registry_ok srv (w\<lparr>wo_sessions := AList.delete i (wo_sessions w)\<rparr>)"
    using w length_delete_le [of i "wo_sessions w"] set_delete_subset [of i "wo_sessions w"]
    by (auto simp: registry_ok_def distinct_delete)
  with w keepsD [OF announce_keeps [OF assms]] show "registry_ok srv (snd (removeSession srv i w))"
    by (auto simp: removeSession_def split: option.splits)
qed

lemma sweep_loop_keeps:
  assumes "callbacks_keep (registry_ok srv) srv"
  shows "registry_ok srv w \<Longrightarrow> registry_ok srv (snd (sweep_loop srv nowMs entries w))"
proof (induction entries arbitrary: w)
  case (Cons e entries)
  obtain i h where e: "e = (i, h)" by fastforce
  have "registry_ok srv (on_session session_close h w)" using Cons.prems by (rule on_session_ok) simp
  from keepsD [OF removeSession_keeps [OF assms] this]
  have "registry_ok srv (snd (removeSession srv i (on_session session_close h w)))" .
  then have "registry_ok srv (snd (and_then (removeSession srv i (on_session session_close h w))
      (\<lambda>_. sweep_loop srv nowMs entries)))"
    by (rule and_then_keeps) (rule keepsI, rule Cons.IH)
  with Cons show ?case by (simp add: e)
qed simp

lemma broadcast_loop_keeps:
  assumes "\<And>f h. flt = Some f \<Longrightarrow> keeps (registry_ok srv) (f h)"
  shows "registry_ok srv w \<Longrightarrow> registry_ok srv (snd (broadcast_loop ms message flt entries w))"
proof (induction entries arbitrary: w)
  case (Cons e entries)
  obtain i h where e: "e = (i, h)" by fastforce
  let ?m = "case flt of None \<Rightarrow> (Inr True, w) | Some f \<Rightarrow> f h w"
  have "registry_ok srv (snd ?m)"
    using assms Cons.prems by (cases flt) (auto simp: keeps_def)
  then have "registry_ok srv (snd (and_then ?m (\<lambda>wanted w.
      broadcast_loop ms message flt entries (if wanted then on_session (session_send (ms h) message) h w else w))))"
    by (rule and_then_keeps) (rule keepsI, rule Cons.IH, simp add: on_session_ok)
  then show ?case by (simp add: e)
qed simp


section \<open>A sweep\<close>

definition gone_idle :: "'u php_server \<Rightarrow> int \<Rightarrow> 'u php_world \<Rightarrow> string \<times> nat \<Rightarrow> bool" where
  "gone_idle srv nowMs w e \<longleftrightarrow> sv_idleTimeoutMs srv < nowMs - ss_lastActivityMs (wo_heap w (snd e))"

lemma on_session_close [simp]: "on_session session_close h w = w"
  by (simp add: on_session_def session_close_def)

text \<open>The loop over some of the sessions, when the callback only keeps a record of its own.\<close>

lemma sweep_loop_exact:
  assumes "sv_onClose srv = Some f" and "\<And>h w. f h w = (Inr (), w\<lparr>wo_user := g h (wo_user w)\<rparr>)"
  shows "distinct (map fst (wo_sessions w)) \<Longrightarrow> distinct (map fst es) \<Longrightarrow> set es \<subseteq> set (wo_sessions w) \<Longrightarrow>
    sweep_loop srv nowMs es w = (Inr (), w
      \<lparr>wo_sessions := filter (\<lambda>e. e \<notin> set es \<or> \<not> gone_idle srv nowMs w e) (wo_sessions w),
       wo_user := fold g (map snd (filter (gone_idle srv nowMs w) es)) (wo_user w)\<rparr>)"
proof (induction es arbitrary: w)
  case (Cons e es)
  obtain i h where e: "e = (i, h)" by fastforce
  have m: "map_of (wo_sessions w) i = Some h" using Cons.prems by (simp add: e)
  show ?case
  proof (cases "gone_idle srv nowMs w e")
    case True
    let ?w = "w\<lparr>wo_sessions := AList.delete i (wo_sessions w), wo_user := g h (wo_user w)\<rparr>"
    have "removeSession srv i w = (Inr (), ?w)"
      by (simp add: removeSession_def m announce_def assms)
    then have step: "sweep_loop srv nowMs (e # es) w = sweep_loop srv nowMs es ?w"
      using True by (simp add: e gone_idle_def and_then_def)
    have "set es \<subseteq> set (AList.delete i (wo_sessions w))"
      using Cons.prems by (force simp: AList.delete_eq e)
    with Cons.IH [of ?w] Cons.prems have "sweep_loop srv nowMs es ?w = (Inr (), ?w
      \<lparr>wo_sessions := filter (\<lambda>e. e \<notin> set es \<or> \<not> gone_idle srv nowMs ?w e) (wo_sessions ?w),
       wo_user := fold g (map snd (filter (gone_idle srv nowMs ?w) es)) (wo_user ?w)\<rparr>)"
      by (simp add: distinct_delete)
    moreover have "gone_idle srv nowMs ?w = gone_idle srv nowMs w" by (simp add: gone_idle_def fun_eq_iff)
    moreover have "filter (\<lambda>e. e \<notin> set es \<or> \<not> gone_idle srv nowMs w e) (AList.delete i (wo_sessions w)) =
        filter (\<lambda>e'. e' \<notin> set (e # es) \<or> \<not> gone_idle srv nowMs w e') (wo_sessions w)"
    proof -
      have "e' = e" if "e' \<in> set (wo_sessions w)" "fst e' = i" for e'
        using that m Cons.prems(1) by (metis e map_of_is_SomeI option.inject prod.collapse)
      with True show ?thesis by (auto simp: AList.delete_eq e intro!: filter_cong)
    qed
    ultimately show ?thesis using True by (simp add: step del: sweep_loop.simps) (simp add: e)
  next
    case False
    then have "sweep_loop srv nowMs (e # es) w = sweep_loop srv nowMs es w" by (simp add: e gone_idle_def)
    moreover have "filter (\<lambda>e'. e' \<notin> set (e # es) \<or> \<not> gone_idle srv nowMs w e') (wo_sessions w) =
        filter (\<lambda>e'. e' \<notin> set es \<or> \<not> gone_idle srv nowMs w e') (wo_sessions w)"
      by (rule filter_cong) (use False in auto)
    ultimately show ?thesis using Cons.IH [of w] Cons.prems False by (simp del: sweep_loop.simps)
  qed
qed simp


text \<open>A sweep evicts exactly the sessions that have been idle for longer than the limit, keeps the others in
  their order, and calls \<open>onClose\<close> once for each that it evicts, in the order of the registry.\<close>

lemma sweep_evicts_idle:
  assumes "registry_ok srv w" and "sv_onClose srv = Some f" and "\<And>h w. f h w = (Inr (), w\<lparr>wo_user := g h (wo_user w)\<rparr>)"
  shows "sweepIdleSessions srv nowMs w = (Inr (), w
    \<lparr>wo_sessions := filter (\<lambda>(i, h). nowMs - ss_lastActivityMs (wo_heap w h) \<le> sv_idleTimeoutMs srv) (wo_sessions w),
     wo_user := fold g (map snd (filter (\<lambda>(i, h). sv_idleTimeoutMs srv < nowMs - ss_lastActivityMs (wo_heap w h))
       (wo_sessions w))) (wo_user w)\<rparr>)"
proof -
  from assms(1) have d: "distinct (map fst (wo_sessions w))" by (simp add: registry_ok_def)
  have "filter (\<lambda>e. e \<notin> set (wo_sessions w) \<or> \<not> gone_idle srv nowMs w e) (wo_sessions w) =
      filter (\<lambda>(i, h). nowMs - ss_lastActivityMs (wo_heap w h) \<le> sv_idleTimeoutMs srv) (wo_sessions w)"
    by (rule filter_cong) (auto simp: gone_idle_def)
  moreover have "gone_idle srv nowMs w = (\<lambda>(i, h). sv_idleTimeoutMs srv < nowMs - ss_lastActivityMs (wo_heap w h))"
    by (auto simp: gone_idle_def)
  ultimately show ?thesis
    using sweep_loop_exact [OF assms(2,3) d d order_refl] by (simp add: sweepIdleSessions_def)
qed


section \<open>Calls\<close>

text \<open>What an application does with the server and its sessions, exceptions caught by it.\<close>

datatype registry_call =
    AddSession nat
  | RemoveSession string
  | SweepIdleSessions int
  | Broadcast "nat \<Rightarrow> int" "php_message + byte list"
  | RecordReceive nat int int

primrec server_call :: "'u php_server \<Rightarrow> registry_call \<Rightarrow> 'u php_world \<Rightarrow> 'u php_world" where
  "server_call srv (AddSession h) w = snd (addSession srv h w)"
| "server_call srv (RemoveSession i) w = snd (removeSession srv i w)"
| "server_call srv (SweepIdleSessions nowMs) w = snd (sweepIdleSessions srv nowMs w)"
| "server_call srv (Broadcast ms message) w = snd (broadcast ms message None w)"
| "server_call srv (RecordReceive h ms n) w = on_session (session_recordReceive ms n) h w"

definition no_sessions :: "(nat \<Rightarrow> php_session) \<Rightarrow> 'u \<Rightarrow> 'u php_world" where
  "no_sessions heap u = \<lparr>wo_heap = heap, wo_sessions = [], wo_user = u\<rparr>"

lemma server_call_keeps:
  assumes "callbacks_keep (registry_ok srv) srv" and "registry_ok srv w"
  shows "registry_ok srv (server_call srv c w)"
proof (cases c)
  case (AddSession h)
  with keepsD [OF addSession_keeps [OF assms(1)] assms(2)] show ?thesis by simp
next
  case (RemoveSession i)
  with keepsD [OF removeSession_keeps [OF assms(1)] assms(2)] show ?thesis by simp
next
  case (SweepIdleSessions nowMs)
  with sweep_loop_keeps [OF assms] show ?thesis by (simp add: sweepIdleSessions_def)
next
  case (Broadcast ms message)
  with broadcast_loop_keeps [of None srv w] assms(2) show ?thesis by (simp add: broadcast_def)
next
  case (RecordReceive h ms n)
  with assms(2) show ?thesis by (simp add: on_session_ok)
qed

section \<open>Properties\<close>

text \<open>C37: Whatever sequence of calls an application makes, the registry never holds more sessions than the
  quota of the server, no id twice, and every session under its own id. This holds for all callbacks that
  themselves respect it, also when they throw. A session is refused exactly when the quota is reached, even
  if one with its id is registered.\<close>

theorem server_quota_kept:
  assumes "callbacks_keep (registry_ok srv) srv"
  shows "let w = fold (server_call srv) calls (no_sessions heap u) in
    int (length (wo_sessions w)) \<le> max 0 (sv_maxSessions srv) \<and> distinct (map fst (wo_sessions w)) \<and>
    (\<forall>(i, h) \<in> set (wo_sessions w). ss_id (wo_heap w h) = i) \<and>
    (fst (addSession srv h w) = Inr False \<longleftrightarrow> sv_maxSessions srv \<le> int (length (wo_sessions w)))"
proof -
  have "registry_ok srv w \<Longrightarrow> registry_ok srv (fold (server_call srv) calls w)" for w
    by (induction calls arbitrary: w) (simp_all add: server_call_keeps [OF assms])
  from this [of "no_sessions heap u"] have "registry_ok srv (fold (server_call srv) calls (no_sessions heap u))"
    by (simp add: registry_ok_def no_sessions_def)
  then show ?thesis
    by (auto simp: registry_ok_def Let_def addSession_def and_then_def split: prod.splits sum.splits)
qed

theorem server_quota_kept_witness:
  "let f = (\<lambda>h w. (Inl (PhpException ''full''), on_session (session_send 5 (Inr [1])) h w));
       srv = server_onConnect f (server_construct 2 50);
       heap = (\<lambda>h. session_construct [] 1 1000 (Some (if h = 0 then ''a'' else ''b'')))
   in fst (addSession srv 2 (fold (server_call srv) [AddSession 0, AddSession 1] (no_sessions heap ()))) = Inr False"
proof -
  define f where "f = (\<lambda>h (w :: unit php_world). (Inl (PhpException ''full'') :: php_exception + unit,
    on_session (session_send 5 (Inr [1])) h w))"
  define srv where "srv = server_onConnect f (server_construct 2 50)"
  have s: "srv = \<lparr>sv_maxSessions = 2, sv_idleTimeoutMs = 50, sv_onConnect = Some f, sv_onClose = None, sv_onError = None\<rparr>"
    by (simp add: srv_def server_onConnect_def server_construct_def)
  define heap where "heap = (\<lambda>h :: nat. session_construct [] 1 1000 (Some (if h = 0 then ''a'' else ''b'')))"
  have "callbacks_keep (registry_ok srv) srv"
    by (auto simp: callbacks_keep_def s f_def intro!: keepsI on_session_ok)
  moreover have "length (wo_sessions (fold (server_call srv) [AddSession 0, AddSession 1] (no_sessions heap ()))) = 2"
    by (simp add: s f_def heap_def no_sessions_def addSession_def announce_def and_then_def on_session_def
        session_construct_def)
  ultimately show ?thesis
    using server_quota_kept [of srv "[AddSession 0, AddSession 1]" heap "()" 2]
    unfolding srv_def [symmetric] heap_def [symmetric] f_def [symmetric] Let_def by (simp add: s)
qed

end
