(* ===== verification/PW_PhpClient.thy ===== *)
theory PW_PhpClient
  imports PW_Module PW_PhpServer
begin

text \<open>
  The client classes of the PHP library around the extension: \<open>ClientOptions.php\<close>, which reads an array of options,
  \<open>ClientFactory.php\<close>, and \<open>AsyncClient.php\<close> with its policy of reconnecting. They make objects of the
  class \<open>PhoenixWire\Client\<close>; with the extension loaded that is the class that PW_Module registers, and making one is
  a call of its constructor through the table of the class. Without it it is the class of \<open>Client.php\<close>.
  Floating point numbers are reals; rounding, powers and the conversion to an integer are parameters.
\<close>

section \<open>The code\<close>

text \<open>\<open>Policy\<close>, \<open>Timeouts\<close> and \<open>ClientOptions\<close>.\<close>

record php_policy =
  po_maxReconnectAttempts :: int
  po_initialBackoffMs :: int
  po_maxBackoffMs :: int
  po_backoffMultiplier :: real
  po_maxInflightBytes :: int
  po_maxMessageSize :: int
  po_maxConcurrentStreams :: int

definition policy_default :: php_policy where
  "policy_default =
     \<lparr>po_maxReconnectAttempts = 5, po_initialBackoffMs = 1000, po_maxBackoffMs = 30000, po_backoffMultiplier = 1.5,
      po_maxInflightBytes = 1048576, po_maxMessageSize = 524288, po_maxConcurrentStreams = 100\<rparr>"

record php_timeouts =
  to_connectTimeoutMs :: int
  to_handshakeTimeoutMs :: int
  to_authTimeoutMs :: int
  to_idleTimeoutMs :: int
  to_readDeadlineMs :: int
  to_writeDeadlineMs :: int

definition timeouts_default :: php_timeouts where
  "timeouts_default =
     \<lparr>to_connectTimeoutMs = 5000, to_handshakeTimeoutMs = 2000, to_authTimeoutMs = 2000, to_idleTimeoutMs = 60000,
      to_readDeadlineMs = 0, to_writeDeadlineMs = 0\<rparr>"

record client_options =
  op_timeouts :: php_timeouts
  op_autoReconnect :: bool
  op_maxReconnectAttempts :: int
  op_enableResume :: bool
  op_heartbeatIntervalMs :: int
  op_maxFrameSize :: int
  op_bearerToken :: "string option"
  op_useTls :: bool
  op_policy :: php_policy

definition options_default :: client_options where
  "options_default =
     \<lparr>op_timeouts = timeouts_default, op_autoReconnect = True, op_maxReconnectAttempts = 5, op_enableResume = True,
      op_heartbeatIntervalMs = 30000, op_maxFrameSize = 1048576, op_bearerToken = None, op_useTls = False,
      op_policy = policy_default\<rparr>"

text \<open>The constructor of \<open>ClientOptions\<close> assigns each value of the array to the property of its name, when there
  is one. The engine converts a value to the type of the property or raises a \<open>TypeError\<close>; its conversions to strings
  and integers are the parameters that PW_Module has. Two names in snake case are accepted too.\<close>

datatype option_value = Scalar zval | TimeoutsObject php_timeouts | PolicyObject php_policy

fun truthy :: "zval \<Rightarrow> bool" where
  "truthy ZNull = False"
| "truthy (ZBool b) = b"
| "truthy (ZLong i) = (i \<noteq> 0)"
| "truthy (ZString s) = (s \<noteq> [] \<and> s \<noteq> ''0'')"
| "truthy (ZArray a) = (a \<noteq> [])"

fun to_bool :: "option_value \<Rightarrow> bool option" where
  "to_bool (Scalar ZNull) = None"
| "to_bool (Scalar (ZArray a)) = None"
| "to_bool (Scalar v) = Some (truthy v)"
| "to_bool _ = None"

fun to_int :: "zend_params \<Rightarrow> option_value \<Rightarrow> int option" where
  "to_int zp (Scalar ZNull) = None"
| "to_int zp (Scalar v) = z_param_long zp v"
| "to_int zp _ = None"

fun to_nullable_string :: "zend_params \<Rightarrow> option_value \<Rightarrow> string option option" where
  "to_nullable_string zp (Scalar ZNull) = Some None"
| "to_nullable_string zp (Scalar v) = map_option Some (z_param_string zp v)"
| "to_nullable_string zp _ = None"

definition set_option :: "zend_params \<Rightarrow> string \<times> option_value \<Rightarrow> client_options \<Rightarrow> client_options option" where
  "set_option zp kv op =
     (case kv of (key, v) \<Rightarrow>
        if key = ''timeouts'' then (case v of TimeoutsObject ob \<Rightarrow> Some (op\<lparr>op_timeouts := ob\<rparr>) | _ \<Rightarrow> None)
        else if key = ''autoReconnect'' then map_option (\<lambda>b. op\<lparr>op_autoReconnect := b\<rparr>) (to_bool v)
        else if key = ''maxReconnectAttempts'' then map_option (\<lambda>i. op\<lparr>op_maxReconnectAttempts := i\<rparr>) (to_int zp v)
        else if key = ''enableResume'' then map_option (\<lambda>b. op\<lparr>op_enableResume := b\<rparr>) (to_bool v)
        else if key = ''heartbeatIntervalMs'' then map_option (\<lambda>i. op\<lparr>op_heartbeatIntervalMs := i\<rparr>) (to_int zp v)
        else if key = ''maxFrameSize'' then map_option (\<lambda>i. op\<lparr>op_maxFrameSize := i\<rparr>) (to_int zp v)
        else if key = ''bearerToken'' then map_option (\<lambda>s. op\<lparr>op_bearerToken := s\<rparr>) (to_nullable_string zp v)
        else if key = ''useTls'' then map_option (\<lambda>b. op\<lparr>op_useTls := b\<rparr>) (to_bool v)
        else if key = ''policy'' then (case v of PolicyObject ob \<Rightarrow> Some (op\<lparr>op_policy := ob\<rparr>) | _ \<Rightarrow> None)
        else Some op)"

fun set_options :: "zend_params \<Rightarrow> (string \<times> option_value) list \<Rightarrow> client_options \<Rightarrow> client_options option" where
  "set_options zp [] op = Some op"
| "set_options zp (kv # a) op = do { op \<leftarrow> set_option zp kv op; set_options zp a op }"

text \<open>\<open>isset\<close>: the key is there and its value is not null.\<close>

definition option_set :: "(string \<times> option_value) list \<Rightarrow> string \<Rightarrow> bool" where
  "option_set a key \<longleftrightarrow> map_of a key \<noteq> None \<and> map_of a key \<noteq> Some (Scalar ZNull)"

definition options_construct :: "zend_params \<Rightarrow> (string \<times> option_value) list \<Rightarrow> php_exception + client_options" where
  "options_construct zp a =
     (let result = do {
        op \<leftarrow> set_options zp a options_default;
        op \<leftarrow> (if option_set a ''auth_token'' \<and> op_bearerToken op = None
               then map_option (\<lambda>s. op\<lparr>op_bearerToken := s\<rparr>) (to_nullable_string zp (the (map_of a ''auth_token'')))
               else Some op);
        Some (if option_set a ''use_tls''
              then op\<lparr>op_useTls := (case the (map_of a ''use_tls'') of Scalar v \<Rightarrow> truthy v | _ \<Rightarrow> True)\<rparr> else op)
      } in case result of None \<Rightarrow> Inl (PhpException ''TypeError'') | Some op \<Rightarrow> Inr op)"

text \<open>\<open>new\<close>: the engine finds the class, makes the object and calls the constructor. \<open>None\<close> would be a fault of
  the extension.\<close>

definition php_new ::
  "class_entry list \<Rightarrow> zend_params \<Rightarrow> phoenixwire_client_obj \<Rightarrow> string \<Rightarrow> zval list
   \<Rightarrow> (php_exception + phoenixwire_client_obj) option" where
  "php_new classes zp junk name args =
     (case find_class classes name of
        None \<Rightarrow> Some (Inl (PhpException ''Error''))
      | Some c \<Rightarrow>
          (case ce_create_object c of
             None \<Rightarrow> Some (Inl (PhpException ''Error''))
           | Some create \<Rightarrow> do {
               ob \<leftarrow> create junk;
               Some (case find_method c ''__construct'' of
                       None \<Rightarrow> Inr ob
                     | Some m \<Rightarrow>
                         (case me_handler m zp args ob of
                            (BadArguments, _, _) \<Rightarrow> Inl (PhpException ''ArgumentCountError'')
                          | (Throw msg, _, _) \<Rightarrow> Inl (PhpException msg)
                          | (_, ob, _) \<Rightarrow> Inr ob))
             }))"

text \<open>\<open>ClientFactory::create\<close>: the classes are those of the engine when the extension is loaded. Looking for a key
  in an object of \<open>ClientOptions\<close> is an error. \<open>arg\<close> is the value that the engine sees of the options.\<close>

datatype factory_options = OptionsArray "(string \<times> option_value) list" | OptionsObject client_options

datatype php_client = NativeClient phoenixwire_client_obj | PureClient stream_client

definition options_of :: "zend_params \<Rightarrow> factory_options \<Rightarrow> php_exception + client_options" where
  "options_of zp options = (case options of OptionsArray a \<Rightarrow> options_construct zp a | OptionsObject op \<Rightarrow> Inr op)"

text \<open>The constructor of \<open>StreamClient\<close>, which keeps the options; of these the model of the class has the token.\<close>

definition new_stream_client :: "zend_params \<Rightarrow> factory_options \<Rightarrow> php_exception + stream_client" where
  "new_stream_client zp options =
     map_sum id (\<lambda>op. stream_construct (map_option (map of_char) (op_bearerToken op))) (options_of zp options)"

definition factory_create ::
  "class_entry list option \<Rightarrow> zend_params \<Rightarrow> phoenixwire_client_obj \<Rightarrow> zval \<Rightarrow> factory_options
   \<Rightarrow> (php_exception + php_client) option" where
  "factory_create extension zp junk arg options =
     (case extension of
        None \<Rightarrow> Some (map_sum id PureClient (new_stream_client zp options))
      | Some classes \<Rightarrow>
          (case options of
             OptionsObject ob \<Rightarrow> Some (Inl (PhpException ''Cannot use object as array''))
           | OptionsArray a \<Rightarrow>
               if option_set a ''force_pure_php''
               then Some (map_sum id PureClient (new_stream_client zp options))
               else map_option (map_sum id NativeClient) (php_new classes zp junk client_class [arg])))"

text \<open>\<open>AsyncClient\<close>. Its state as a client is the answer of \<open>getState\<close>, a parameter of \<open>tick\<close>, like the clock.\<close>

record php_float =
  fl_round :: "real \<Rightarrow> real"
  fl_pow :: "real \<Rightarrow> int \<Rightarrow> real"
  fl_int :: "real \<Rightarrow> int"

record async_client =
  ac_reconnectAttempts :: int
  ac_wasConnected :: bool
  ac_lastTickTime :: real
  ac_nextReconnectTime :: real
  ac_stats :: php_stats
  ac_options :: client_options

record async_callbacks =
  cb_onConnect :: "(unit, async_client) php option"
  cb_onClose :: "(unit, async_client) php option"
  cb_onError :: "(php_exception \<Rightarrow> (unit, async_client) php) option"

definition async_fields :: "client_options \<Rightarrow> async_client" where
  "async_fields options =
     \<lparr>ac_reconnectAttempts = 0, ac_wasConnected = False, ac_lastTickTime = 0, ac_nextReconnectTime = 0,
      ac_stats = new_stats, ac_options = options\<rparr>"

definition no_callbacks :: async_callbacks where
  "no_callbacks = \<lparr>cb_onConnect = None, cb_onClose = None, cb_onError = None\<rparr>"

definition onConnect :: "(unit, async_client) php \<Rightarrow> async_callbacks \<Rightarrow> async_callbacks" where
  "onConnect callback cb = cb\<lparr>cb_onConnect := Some callback\<rparr>"

definition onClose :: "(unit, async_client) php \<Rightarrow> async_callbacks \<Rightarrow> async_callbacks" where
  "onClose callback cb = cb\<lparr>cb_onClose := Some callback\<rparr>"

definition onError :: "(php_exception \<Rightarrow> (unit, async_client) php) \<Rightarrow> async_callbacks \<Rightarrow> async_callbacks" where
  "onError callback cb = cb\<lparr>cb_onError := Some callback\<rparr>"

text \<open>The constructor calls that of the parent, with the options, before anything else.\<close>

definition async_construct ::
  "class_entry list \<Rightarrow> zend_params \<Rightarrow> phoenixwire_client_obj \<Rightarrow> zval \<Rightarrow> client_options
   \<Rightarrow> (php_exception + phoenixwire_client_obj \<times> async_client) option" where
  "async_construct classes zp junk arg options =
     map_option (map_sum id (\<lambda>ob. (ob, async_fields options))) (php_new classes zp junk client_class [arg])"

definition calculateBackoff :: "php_float \<Rightarrow> async_client \<Rightarrow> int" where
  "calculateBackoff fl c =
     (let policy = op_policy (ac_options c);
          delay = fl_round fl (fl_round fl (real_of_int (po_initialBackoffMs policy)) *
                    fl_pow fl (po_backoffMultiplier policy) (ac_reconnectAttempts c))
      in min (fl_int fl delay) (po_maxBackoffMs policy))"

definition fire :: "(unit, async_client) php option \<Rightarrow> (unit, async_client) php" where
  "fire callback c = (case callback of None \<Rightarrow> (Inr (), c) | Some f \<Rightarrow> f c)"

text \<open>The step that waits for the time of the next attempt or makes it; the call of \<open>connect\<close> is a comment.\<close>

definition reconnect_step :: "php_float \<Rightarrow> real \<Rightarrow> async_client \<Rightarrow> async_client" where
  "reconnect_step fl now c =
     (if op_autoReconnect (ac_options c) \<and> ac_reconnectAttempts c < po_maxReconnectAttempts (op_policy (ac_options c))
      then if ac_nextReconnectTime c = 0
        then c\<lparr>ac_nextReconnectTime := fl_round fl (now + fl_round fl (fl_round fl (real_of_int (calculateBackoff fl c)) / 1000))\<rparr>
        else if ac_nextReconnectTime c \<le> now
        then c\<lparr>ac_reconnectAttempts := ac_reconnectAttempts c + 1,
               ac_stats := (ac_stats c)\<lparr>st_reconnectCount := st_reconnectCount (ac_stats c) + 1\<rparr>,
               ac_nextReconnectTime := 0\<rparr>
        else c
      else c)"

definition tick :: "php_float \<Rightarrow> async_callbacks \<Rightarrow> nat \<Rightarrow> real \<Rightarrow> (unit, async_client) php" where
  "tick fl cb state now c =
     and_then
       (if state = state_code PW_STATE_CLOSED \<or> state = state_code PW_STATE_DISCONNECTED
        then and_then
          (if ac_wasConnected c
           then fire (cb_onClose cb) (c\<lparr>ac_wasConnected := False, ac_stats := (ac_stats c)\<lparr>st_connectedSince := 0\<rparr>\<rparr>)
           else (Inr (), c))
          (\<lambda>_ c. (Inr (), reconnect_step fl now c))
        else if state = state_code PW_STATE_READY
        then if ac_wasConnected c then (Inr (), c)
          else fire (cb_onConnect cb) (c\<lparr>ac_wasConnected := True, ac_reconnectAttempts := 0, ac_nextReconnectTime := 0,
                 ac_stats := (ac_stats c)\<lparr>st_connectedSince := now\<rparr>\<rparr>)
        else (Inr (), c))
       (\<lambda>_ c. (Inr (), c\<lparr>ac_lastTickTime := now\<rparr>))"

definition triggerError :: "async_callbacks \<Rightarrow> php_exception \<Rightarrow> (unit, async_client) php" where
  "triggerError cb e c = (case cb_onError cb of None \<Rightarrow> (Inl e, c) | Some f \<Rightarrow> f e c)"

text \<open>\<open>Client.php\<close> has a class of the same name as that of the extension, in the same namespace, for an engine
  without the extension. Its constructor makes the object that it calls native with \<open>new\<close> of that name, which is
  its own class; its methods call those of that object.\<close>

codatatype userland_client = UserlandClient (nativeClient: userland_client) (uc_options: client_options)

partial_function (option) userland_construct ::
  "zend_params \<Rightarrow> factory_options \<Rightarrow> (php_exception + userland_client) option" where
  "userland_construct zp options =
     (case options_of zp options of
        Inl e \<Rightarrow> Some (Inl e)
      | Inr op \<Rightarrow> do {
          native \<leftarrow> userland_construct zp (OptionsArray []);
          Some (map_sum id (\<lambda>ob. UserlandClient ob op) native)
        })"

partial_function (option) userland_connect :: "userland_client \<Rightarrow> string \<Rightarrow> int \<Rightarrow> (php_exception + bool) option" where
  "userland_connect c host port = userland_connect (nativeClient c) host port"

partial_function (option) userland_disconnect :: "userland_client \<Rightarrow> (php_exception + bool) option" where
  "userland_disconnect c = userland_disconnect (nativeClient c)"

partial_function (option) userland_getState :: "userland_client \<Rightarrow> (php_exception + int) option" where
  "userland_getState c = userland_getState (nativeClient c)"

section \<open>Options\<close>

lemma set_option_unknown:
  assumes "key \<notin> {''timeouts'', ''autoReconnect'', ''maxReconnectAttempts'', ''enableResume'', ''heartbeatIntervalMs'',
    ''maxFrameSize'', ''bearerToken'', ''useTls'', ''policy''}"
  shows "set_option zp (key, v) op = Some op"
  using assms by (simp add: set_option_def)

lemma options_none: "options_construct zp [] = Inr options_default"
  by (simp add: options_construct_def option_set_def Let_def)

lemma map_option_keeps_token:
  "\<lbrakk>map_option f x = Some op'; \<And>z. op_bearerToken (f z) = op_bearerToken op\<rbrakk> \<Longrightarrow> op_bearerToken op' = op_bearerToken op"
  by (cases x) auto

lemma if_case: "\<lbrakk>(if b then x else y) = z; \<lbrakk>b; x = z\<rbrakk> \<Longrightarrow> R; \<lbrakk>\<not> b; y = z\<rbrakk> \<Longrightarrow> R\<rbrakk> \<Longrightarrow> R"
  by (cases b) auto

lemma set_option_keeps_token:
  assumes "set_option zp (key, v) op = Some op'" and "key \<noteq> ''bearerToken''"
  shows "op_bearerToken op' = op_bearerToken op"
  using assms(1) unfolding set_option_def prod.case
  by (elim if_case; ((erule map_option_keeps_token, simp) | (cases v; auto simp: assms(2))))

lemma set_options_keeps_token:
  "\<lbrakk>''bearerToken'' \<notin> fst ` set a; set_options zp a op = Some op'\<rbrakk> \<Longrightarrow> op_bearerToken op' = op_bearerToken op"
proof (induction a arbitrary: op)
  case (Cons kv a)
  obtain key v where kv: "kv = (key, v)" by (cases kv)
  from Cons.prems(2) obtain op1 where "set_option zp (key, v) op = Some op1" "set_options zp a op1 = Some op'"
    unfolding kv set_options.simps by (auto simp: bind_eq_Some_conv)
  with set_option_keeps_token [of zp key v op op1] Cons show ?case by (auto simp: kv)
qed simp

text \<open>The two names of the token: the value of \<open>auth_token\<close> counts when there is no \<open>bearerToken\<close>.\<close>

lemma options_auth_token:
  assumes "''bearerToken'' \<notin> fst ` set a" and "map_of a ''auth_token'' = Some (Scalar (ZString s))"
    and "options_construct zp a = Inr op"
  shows "op_bearerToken op = z_param_string zp (ZString s)"
proof -
  have set: "option_set a ''auth_token''" using assms(2) by (simp add: option_set_def)
  from assms(3) obtain op1 where op1: "set_options zp a options_default = Some op1"
    by (cases "set_options zp a options_default") (simp_all add: options_construct_def Let_def)
  have none: "op_bearerToken op1 = None"
    using set_options_keeps_token [OF assms(1) op1] by (simp add: options_default_def)
  from assms(3) set op1 none show ?thesis
    by (cases "z_param_string zp (ZString s)") (auto simp: options_construct_def assms(2) Let_def split: if_splits)
qed

text \<open>Without the extension no object of \<open>Client\<close> is ever made: its constructor calls itself without end, whatever
  the options. Only options that are refused end it.\<close>

lemma userland_never_made:
  assumes "userland_construct zp options = Some r"
  shows "\<exists>e. r = Inl e \<and> options_of zp options = Inl e"
proof (rule userland_construct.raw_induct [OF _ assms])
  fix construct zp options r
  assume IH: "\<And>zp options r. construct zp options = Some r \<Longrightarrow> \<exists>e. r = Inl e \<and> options_of zp options = Inl e"
    and r: "(case options_of zp options of Inl e \<Rightarrow> Some (Inl e) | Inr op \<Rightarrow> do {
          native \<leftarrow> construct zp (OptionsArray []);
          Some (map_sum id (\<lambda>ob. UserlandClient ob op) native) }) = Some r"
  show "\<exists>e. r = Inl e \<and> options_of zp options = Inl e"
  proof (cases "options_of zp options")
    case (Inr op)
    with r obtain native where "construct zp (OptionsArray []) = Some native"
      by (auto simp: bind_eq_Some_conv)
    from IH [OF this] have False by (simp add: options_of_def options_none)
    then show ?thesis ..
  qed (use r in simp)
qed

lemma userland_without_end:
  "userland_construct zp (OptionsObject op) = None" "userland_construct zp (OptionsArray []) = None"
proof -
  have "userland_construct zp options = None" if "options_of zp options = Inr op" for options op
    using userland_never_made [of zp options] that by (cases "userland_construct zp options") auto
  then show "userland_construct zp (OptionsObject op) = None" "userland_construct zp (OptionsArray []) = None"
    by (simp_all add: options_of_def options_none)
qed

section \<open>Making a client\<close>

lemma create_object_works: "\<exists>ob. phoenixwire_client_create_object fcntl junk w = Some ob"
  by (simp add: phoenixwire_client_create_object_def pw_connection_init_def pw_transport_init_def)

lemma native_class:
  assumes "\<forall>k \<in> set classes. ce_name k \<noteq> client_class"
  obtains c where "find_class (started fcntl w classes) client_class = Some c"
    and "ce_create_object c = Some (\<lambda>junk. phoenixwire_client_create_object fcntl junk w)"
    and "ce_methods c = phoenixwire_client_methods"
  using assms that
  by (induction classes)
    (auto simp: find_class_def started_def phoenixwire_module_entry_def minit_phoenixwire_def client_class_def Let_def)

lemma new_native:
  assumes "\<forall>k \<in> set classes. ce_name k \<noteq> client_class"
  shows "\<exists>ob. php_new (started fcntl w classes) zp junk client_class args =
    Some (if args = [] then Inr ob else Inl (PhpException ''ArgumentCountError''))"
proof -
  obtain c where c: "find_class (started fcntl w classes) client_class = Some c"
    "ce_create_object c = Some (\<lambda>junk. phoenixwire_client_create_object fcntl junk w)"
    "ce_methods c = phoenixwire_client_methods"
    using native_class [OF assms] .
  obtain ob where "phoenixwire_client_create_object fcntl junk w = Some ob" using create_object_works [of fcntl junk w] by blast
  with c show ?thesis
    by (auto simp: php_new_def find_method_def phoenixwire_client_methods_def zim_construct_def)
qed

section \<open>Reconnecting\<close>

text \<open>A client that stays closed, with the delay before each attempt.\<close>

definition delay :: "php_float \<Rightarrow> client_options \<Rightarrow> nat \<Rightarrow> real" where
  "delay fl options k = real_of_int (calculateBackoff fl ((async_fields options)\<lparr>ac_reconnectAttempts := int k\<rparr>)) / 1000"

text \<open>What is known of the arithmetic of PHP: a result of magnitude up to \<open>2 ^ 100\<close> is rounded with a relative error of at
  most \<open>1 / 2 ^ 53\<close>, apart from results that are too small for it, and a cast gives an integer of 64 bits.\<close>

definition double_arith :: "php_float \<Rightarrow> bool" where
  "double_arith fl \<longleftrightarrow> (\<forall>x. \<bar>x\<bar> \<le> 2 ^ 100 \<longrightarrow> \<bar>fl_round fl x - x\<bar> \<le> \<bar>x\<bar> / 2 ^ 53 + 1 / 2 ^ 1000) \<and>
     (\<forall>x. - (2 ^ 63) \<le> fl_int fl x \<and> fl_int fl x < 2 ^ 63)"

text \<open>So the time of an attempt is not much earlier than the delay after the time at which it was set.\<close>

lemma rounded_schedule:
  assumes "double_arith fl" and "1 \<le> s" and "s \<le> 2 ^ 62" and "\<bar>real_of_int b\<bar> \<le> 2 ^ 63"
  shows "s + (real_of_int b / 1000 - (s + 2 * \<bar>real_of_int b / 1000\<bar>) / 2 ^ 52) \<le>
    fl_round fl (s + fl_round fl (fl_round fl (real_of_int b) / 1000))"
proof -
  define h where "h = (1 :: real) / 2 ^ 1000"
  have h: "0 \<le> h" "h \<le> 1 / 2 ^ 60"
    unfolding h_def using power_increasing [of 60 1000 "2 :: real"] by (simp_all add: field_simps)
  define A where "A = \<bar>real_of_int b\<bar>"
  define y where "y = fl_round fl (real_of_int b)"
  define d where "d = fl_round fl (y / 1000)"
  have A: "0 \<le> A" "A \<le> 2 ^ 63" "- A \<le> real_of_int b" "real_of_int b \<le> A" using assms(4) by (simp_all add: A_def)
  have err: "\<bar>fl_round fl x - x\<bar> \<le> \<bar>x\<bar> / 2 ^ 53 + h" if "\<bar>x\<bar> \<le> 2 ^ 100" for x
    using assms(1) that by (simp add: double_arith_def h_def)
  have "\<bar>real_of_int b\<bar> \<le> 2 ^ 100" using A(2) by (simp add: A_def [symmetric])
  from err [OF this] have y: "\<bar>y - real_of_int b\<bar> \<le> A / 2 ^ 53 + h" by (simp add: y_def A_def)
  have yA: "\<bar>y / 1000\<bar> \<le> (A + A / 2 ^ 53 + h) / 1000" using y A by (simp add: abs_le_iff)
  have "\<bar>y / 1000\<bar> \<le> 2 ^ 100" using yA A(1,2) h by simp
  have "\<bar>d - y / 1000\<bar> \<le> \<bar>y / 1000\<bar> / 2 ^ 53 + h" unfolding d_def by (rule err) fact
  moreover have "\<bar>y / 1000\<bar> / 2 ^ 53 \<le> (A + A / 2 ^ 53 + h) / 1000 / 2 ^ 53" by (rule divide_right_mono [OF yA]) simp
  ultimately have d: "\<bar>d - y / 1000\<bar> \<le> (A + A / 2 ^ 53 + h) / 1000 / 2 ^ 53 + h" by linarith
  have "\<bar>(y - real_of_int b) / 1000\<bar> \<le> (A / 2 ^ 53 + h) / 1000" using y by simp
  moreover have "d - real_of_int b / 1000 = d - y / 1000 + (y - real_of_int b) / 1000" by (simp add: diff_divide_distrib)
  ultimately have dd: "\<bar>d - real_of_int b / 1000\<bar> \<le> (A / 2 ^ 53 + h) / 1000 + ((A + A / 2 ^ 53 + h) / 1000 / 2 ^ 53 + h)"
    using d abs_triangle_ineq [of "d - y / 1000" "(y - real_of_int b) / 1000"] by linarith
  define D where "D = A / 1000"
  have D: "0 \<le> D" "D \<le> 2 ^ 63" "\<bar>real_of_int b / 1000\<bar> = D" using A(1,2) by (simp_all add: D_def A_def)
  have "(A / 2 ^ 53 + h) / 1000 + ((A + A / 2 ^ 53 + h) / 1000 / 2 ^ 53 + h) \<le> 5 / 2 ^ 54 * D + 2 * h"
    using A(1) h(1) by (simp add: D_def add_divide_distrib)
  with dd have e: "\<bar>d - real_of_int b / 1000\<bar> \<le> 5 / 2 ^ 54 * D + 2 * h" by (rule order_trans)
  have "\<bar>s + d\<bar> \<le> s + \<bar>real_of_int b / 1000\<bar> + \<bar>d - real_of_int b / 1000\<bar>" using assms(2) by linarith
  with e D(3) have x: "\<bar>s + d\<bar> \<le> s + D + (5 / 2 ^ 54 * D + 2 * h)" by linarith
  also have "\<dots> \<le> 2 ^ 100" using D(1,2) h assms(3) by simp
  finally have "\<bar>fl_round fl (s + d) - (s + d)\<bar> \<le> \<bar>s + d\<bar> / 2 ^ 53 + h" by (rule err)
  moreover have "\<bar>s + d\<bar> / 2 ^ 53 \<le> (s + D + (5 / 2 ^ 54 * D + 2 * h)) / 2 ^ 53" by (rule divide_right_mono [OF x]) simp
  moreover have "5 / 2 ^ 54 * D + 2 * h + (s + D + (5 / 2 ^ 54 * D + 2 * h)) / 2 ^ 53 + h \<le> (s + 2 * D) / 2 ^ 52"
    using D(1) h assms(2) by (simp add: add_divide_distrib)
  ultimately show ?thesis
    unfolding y_def [symmetric] d_def [symmetric] D(3) using e by linarith
qed

lemma delay_at: "0 \<le> ac_reconnectAttempts c \<Longrightarrow>
  real_of_int (calculateBackoff fl c) / 1000 = delay fl (ac_options c) (nat (ac_reconnectAttempts c))"
  by (simp add: delay_def calculateBackoff_def async_fields_def)

lemma backoff_bound:
  assumes "double_arith fl" and "- (2 ^ 63) \<le> po_maxBackoffMs (op_policy (ac_options c))"
    and "po_maxBackoffMs (op_policy (ac_options c)) < 2 ^ 63"
  shows "\<bar>real_of_int (calculateBackoff fl c)\<bar> \<le> 2 ^ 63"
proof -
  have "- (2 ^ 63) \<le> calculateBackoff fl c" "calculateBackoff fl c \<le> 2 ^ 63"
    using assms by (auto simp: calculateBackoff_def double_arith_def Let_def min_def)
  then have "\<bar>calculateBackoff fl c\<bar> \<le> 2 ^ 63" by simp
  then have "real_of_int \<bar>calculateBackoff fl c\<bar> \<le> real_of_int (2 ^ 63)" by (simp only: of_int_le_iff)
  then show ?thesis by simp
qed

text \<open>The delay up to rounding, when no time is later than \<open>T\<close>.\<close>

definition least_delay :: "php_float \<Rightarrow> client_options \<Rightarrow> real \<Rightarrow> nat \<Rightarrow> real" where
  "least_delay fl options T k = delay fl options k - (T + 2 * \<bar>delay fl options k\<bar>) / 2 ^ 52"

lemma tick_down:
  assumes "\<not> ac_wasConnected c"
  shows "snd (tick fl cb (state_code PW_STATE_CLOSED) now c) = (reconnect_step fl now c)\<lparr>ac_lastTickTime := now\<rparr>"
  using assms by (simp add: tick_def and_then_def)

text \<open>What holds while it ticks, from the first tick at \<open>t0\<close> to the last one, not later than \<open>T\<close>.\<close>

definition waiting :: "php_float \<Rightarrow> client_options \<Rightarrow> real \<Rightarrow> real \<Rightarrow> real \<Rightarrow> async_client \<Rightarrow> bool" where
  "waiting fl options T t0 now c \<longleftrightarrow> ac_options c = options \<and> \<not> ac_wasConnected c \<and>
     (\<exists>n. ac_reconnectAttempts c = int n \<and> int n \<le> max 0 (po_maxReconnectAttempts (op_policy options)) \<and>
       st_reconnectCount (ac_stats c) = int n \<and> (\<Sum>k < n. least_delay fl options T k) \<le> now - t0 \<and>
       (ac_nextReconnectTime c = 0 \<or> t0 + (\<Sum>k < Suc n. least_delay fl options T k) \<le> ac_nextReconnectTime c))"

definition rounding_ok :: "php_float \<Rightarrow> client_options \<Rightarrow> real \<Rightarrow> bool" where
  "rounding_ok fl options T \<longleftrightarrow> double_arith fl \<and> T \<le> 2 ^ 62 \<and>
     - (2 ^ 63) \<le> po_maxBackoffMs (op_policy options) \<and> po_maxBackoffMs (op_policy options) < 2 ^ 63"

lemma waiting_tick:
  assumes "waiting fl options T t0 now c" and "now \<le> now'" and "1 \<le> now'" and "now' \<le> T" and "rounding_ok fl options T"
  shows "waiting fl options T t0 now' (snd (tick fl cb (state_code PW_STATE_CLOSED) now' c))"
proof -
  from assms(1) obtain n where c: "ac_options c = options" "\<not> ac_wasConnected c" "ac_reconnectAttempts c = int n"
    "int n \<le> max 0 (po_maxReconnectAttempts (op_policy options))" "st_reconnectCount (ac_stats c) = int n"
    "(\<Sum>k < n. least_delay fl options T k) \<le> now - t0"
    "ac_nextReconnectTime c = 0 \<or> t0 + (\<Sum>k < Suc n. least_delay fl options T k) \<le> ac_nextReconnectTime c"
    by (auto simp: waiting_def)
  define next_time where
    "next_time = fl_round fl (now' + fl_round fl (fl_round fl (real_of_int (calculateBackoff fl c)) / 1000))"
  have d: "real_of_int (calculateBackoff fl c) / 1000 = delay fl options n"
    using delay_at [of c fl] c(1,3) by simp
  have s: "(\<Sum>k < n. least_delay fl options T k) \<le> now' - t0" using c(6) assms(2) by linarith
  from assms(5) have r: "double_arith fl" "T \<le> 2 ^ 62" and "\<bar>real_of_int (calculateBackoff fl c)\<bar> \<le> 2 ^ 63"
    using backoff_bound [of fl c] c(1) by (simp_all add: rounding_ok_def)
  then have "now' + (delay fl options n - (now' + 2 * \<bar>delay fl options n\<bar>) / 2 ^ 52) \<le> next_time"
    using rounded_schedule [OF r(1) assms(3), of "calculateBackoff fl c"] assms(4) unfolding d next_time_def by linarith
  moreover have "(now' + 2 * \<bar>delay fl options n\<bar>) / 2 ^ 52 \<le> (T + 2 * \<bar>delay fl options n\<bar>) / 2 ^ 52"
    using assms(4) by (intro divide_right_mono) simp_all
  ultimately have "now' + least_delay fl options T n \<le> next_time" unfolding least_delay_def by linarith
  with s have sched: "t0 + (\<Sum>k < Suc n. least_delay fl options T k) \<le> next_time" by simp
  have "waiting fl options T t0 now' ((reconnect_step fl now' c)\<lparr>ac_lastTickTime := now'\<rparr>)"
  proof (cases "op_autoReconnect options \<and> int n < po_maxReconnectAttempts (op_policy options)")
    case go: True
    consider (schedule) "ac_nextReconnectTime c = 0" | (attempt) "ac_nextReconnectTime c \<noteq> 0" "ac_nextReconnectTime c \<le> now'"
      | (wait) "ac_nextReconnectTime c \<noteq> 0" "now' < ac_nextReconnectTime c" by linarith
    then show ?thesis
    proof cases
      case schedule
      with go c(1,3) have "reconnect_step fl now' c = c\<lparr>ac_nextReconnectTime := next_time\<rparr>"
        by (simp add: reconnect_step_def next_time_def)
      with c s sched show ?thesis by (auto simp: waiting_def simp del: sum.lessThan_Suc)
    next
      case attempt
      with c have "(\<Sum>k < Suc n. least_delay fl options T k) \<le> now' - t0" by linarith
      with attempt c s go show ?thesis
        by (auto simp: waiting_def reconnect_step_def intro!: exI [of _ "Suc n"])
    next
      case wait
      with c s go show ?thesis by (auto simp: waiting_def reconnect_step_def)
    qed
  next
    case False
    with c s show ?thesis by (auto simp: waiting_def reconnect_step_def)
  qed
  then show ?thesis unfolding tick_down [OF c(2)] .
qed

lemma waiting_ticks:
  assumes "rounding_ok fl options T"
  shows "waiting fl options T t0 now c \<Longrightarrow> sorted (now # nows) \<Longrightarrow> 1 \<le> now \<Longrightarrow> last (now # nows) \<le> T \<Longrightarrow>
    waiting fl options T t0 (last (now # nows)) (fold (\<lambda>now c. snd (tick fl cb (state_code PW_STATE_CLOSED) now c)) nows c)"
proof (induction nows arbitrary: now c)
  case (Cons n nows)
  have "last (n # nows) \<in> set (n # nows)" by (rule last_in_set) simp
  then have "n \<le> last (n # nows)" using Cons.prems(2) by auto
  then have "n \<le> T" using Cons.prems(4) by simp
  from waiting_tick [OF Cons.prems(1) _ _ this assms, of cb] Cons.prems(2-4)
    Cons.IH [of n "snd (tick fl cb (state_code PW_STATE_CLOSED) n c)"] show ?case by auto
qed simp

text \<open>A rounding of this kind: to 53 binary digits.\<close>

definition round53 :: "real \<Rightarrow> real" where
  "round53 x = (let q = 2 powr of_int (\<lfloor>log 2 \<bar>x\<bar>\<rfloor> - 52) in if x = 0 then 0 else of_int (round (x / q)) * q)"

lemma round53_error: "\<bar>round53 x - x\<bar> \<le> \<bar>x\<bar> / 2 ^ 53"
proof (cases "x = 0")
  case False
  define q where "q = (2 :: real) powr of_int (\<lfloor>log 2 \<bar>x\<bar>\<rfloor> - 52)"
  have q: "0 < q" by (simp add: q_def)
  have "q = 2 powr of_int \<lfloor>log 2 \<bar>x\<bar>\<rfloor> / 2 ^ 52" by (simp add: q_def powr_diff powr_realpow)
  moreover have "2 powr of_int \<lfloor>log 2 \<bar>x\<bar>\<rfloor> \<le> 2 powr log 2 \<bar>x\<bar>" by (rule powr_mono) simp_all
  ultimately have le: "q \<le> \<bar>x\<bar> / 2 ^ 52" using False by (simp add: divide_right_mono)
  have "round53 x - x = (of_int (round (x / q)) - x / q) * q"
    using False q unfolding round53_def Let_def q_def [symmetric] by (simp add: left_diff_distrib)
  then have "\<bar>round53 x - x\<bar> = \<bar>of_int (round (x / q)) - x / q\<bar> * q" using q by (simp add: abs_mult)
  also have "\<dots> \<le> 1 / 2 * q" using of_int_round_abs_le [of "x / q"] q by (intro mult_right_mono) simp_all
  finally show ?thesis using le by simp
qed (simp add: round53_def)

lemma round53_int:
  assumes "\<bar>m\<bar> < 2 ^ 53"
  shows "round53 (of_int m) = of_int m"
proof (cases "m = 0")
  case False
  let ?e = "\<lfloor>log 2 \<bar>of_int m :: real\<bar>\<rfloor>"
  have "real_of_int \<bar>m\<bar> < real_of_int (2 ^ 53)" using assms by (simp only: of_int_less_iff)
  then have "\<bar>real_of_int m\<bar> < 2 ^ 53" by simp
  then have "log 2 \<bar>real_of_int m\<bar> < 53" using False by (simp add: log_less_iff powr_realpow)
  then have "?e \<le> 52" by linarith
  then have q: "(2 :: real) powr of_int (?e - 52) = inverse (2 ^ nat (52 - ?e))"
    by (simp add: powr_minus [of 2 "of_int (52 - ?e)", simplified, symmetric] powr_realpow [symmetric] flip: powr_minus)
  have "real_of_int m / inverse (2 ^ nat (52 - ?e)) = of_int (m * 2 ^ nat (52 - ?e))" by (simp add: field_simps)
  then have "round (real_of_int m / inverse (2 ^ nat (52 - ?e))) = m * 2 ^ nat (52 - ?e)"
    using round_of_int [of "m * 2 ^ nat (52 - ?e)"] by metis
  with False show ?thesis unfolding round53_def Let_def q by (simp add: field_simps)
qed (simp add: round53_def)

definition double_float :: php_float where
  "double_float = \<lparr>fl_round = round53, fl_pow = (\<lambda>b k. round53 (b ^ nat k)), fl_int = (\<lambda>x. max (- (2 ^ 63)) (min (2 ^ 63 - 1) \<lfloor>x\<rfloor>))\<rparr>"

lemma double_float_arith: "double_arith double_float"
proof -
  have "\<bar>round53 x - x\<bar> \<le> \<bar>x\<bar> / 2 ^ 53 + 1 / 2 ^ 1000" for x
    using round53_error [of x] by (rule order_trans) simp
  moreover have "max (- (2 ^ 63)) (min (2 ^ 63 - 1) i) < (2 ^ 63 :: int)" for i by (simp add: min_def)
  ultimately show ?thesis by (simp add: double_arith_def double_float_def del: of_nat_power max_less_iff_conj)
qed

section \<open>Properties\<close>

text \<open>C27: With the extension loaded no client of the library can be made. The factory passes its options to a
  constructor that takes none, so the engine refuses the call; options that are an object fail earlier. Only with
  \<open>force_pure_php\<close> is there a client, the one that does without the extension. \<open>AsyncClient\<close> can
  never be made, whatever its options. Without arguments the class can be made. The class \<open>Client\<close> of the library,
  which is there without the extension, can not: its constructor does not return.\<close>

theorem library_refused_by_extension:
  assumes "\<forall>k \<in> set classes. ce_name k \<noteq> client_class"
  shows "let cl = started fcntl w classes in
    (\<forall>arg a. factory_create (Some cl) zp junk arg (OptionsArray a) = Some
       (if option_set a ''force_pure_php'' then map_sum id PureClient (new_stream_client zp (OptionsArray a))
        else Inl (PhpException ''ArgumentCountError''))) \<and>
    (\<forall>arg ob. factory_create (Some cl) zp junk arg (OptionsObject ob) = Some (Inl (PhpException ''Cannot use object as array''))) \<and>
    (\<forall>arg options. async_construct cl zp junk arg options = Some (Inl (PhpException ''ArgumentCountError''))) \<and>
    (\<exists>ob. php_new cl zp junk client_class [] = Some (Inr ob)) \<and>
    (\<forall>op. userland_construct zp (OptionsObject op) = None) \<and> userland_construct zp (OptionsArray []) = None"
proof -
  note new = new_native [OF assms, of fcntl w zp junk]
  have one: "php_new (started fcntl w classes) zp junk client_class [v] = Some (Inl (PhpException ''ArgumentCountError''))" for v
    using new [of "[v]"] by simp
  moreover have "\<exists>ob. php_new (started fcntl w classes) zp junk client_class [] = Some (Inr ob)"
    using new [of "[]"] by simp
  ultimately show ?thesis
    by (simp add: Let_def factory_create_def async_construct_def userland_without_end)
qed

theorem library_refused_by_extension_witness:
  "\<exists>junk zp. factory_create (Some (started (\<lambda>fd cmd w. (0, w)) () [])) zp junk (ZArray [(''auth_token'', ZString ''secret_token'')])
     (OptionsArray [(''auth_token'', Scalar (ZString ''secret_token''))]) = Some (Inl (PhpException ''ArgumentCountError''))"
proof -
  have "\<forall>k \<in> set ([] :: class_entry list). ce_name k \<noteq> client_class" by simp
  from library_refused_by_extension [OF this, of "\<lambda>fd cmd w. (0, w)" "()"] show ?thesis
    by (simp add: Let_def option_set_def)
qed

text \<open>C38: A client that stays closed makes, over any sequence of ticks with a clock that does not go back, at most as
  many attempts to reconnect as its policy allows, and takes its time: when it has made \<open>n\<close> attempts, at least the
  sum of the first \<open>n\<close> delays has passed since the first tick, up to the rounding of the time of each attempt, which
  can make a delay shorter by \<open>1 / 2 ^ 52\<close> of the last time and of twice the delay. The delays are those of the backoff,
  none longer than the maximum. The arithmetic is one of doubles, known only by its error and by the range of its casts, the times are
  between 1 and \<open>2 ^ 62\<close> seconds and the maximum of the policy is an integer of PHP. An attempt is counted and nothing
  else: no connection is made.\<close>

theorem reconnects_spaced:
  assumes "sorted (t0 # nows)" and "1 \<le> t0" and "last (t0 # nows) \<le> 2 ^ 62" and "double_arith fl"
    and "- (2 ^ 63) \<le> po_maxBackoffMs (op_policy options)" and "po_maxBackoffMs (op_policy options) < 2 ^ 63"
  shows "let c = fold (\<lambda>now c. snd (tick fl no_callbacks (state_code PW_STATE_CLOSED) now c)) (t0 # nows) (async_fields options);
      n = nat (ac_reconnectAttempts c); T = last (t0 # nows);
      backoff = (\<lambda>k. calculateBackoff fl ((async_fields options)\<lparr>ac_reconnectAttempts := k\<rparr>))
    in int n \<le> max 0 (po_maxReconnectAttempts (op_policy options)) \<and> st_reconnectCount (ac_stats c) = int n \<and>
      (\<Sum>k < n. let d = real_of_int (backoff (int k)) / 1000 in d - (T + 2 * \<bar>d\<bar>) / 2 ^ 52) \<le> T - t0 \<and>
      (\<forall>k. backoff k \<le> po_maxBackoffMs (op_policy options))"
proof -
  let ?T = "last (t0 # nows)"
  have r: "rounding_ok fl options ?T" unfolding rounding_ok_def using assms(3-6) by blast
  have "waiting fl options ?T t0 t0 (async_fields options)"
    by (simp add: waiting_def async_fields_def new_stats_def)
  from waiting_ticks [OF r this, of "t0 # nows" no_callbacks] assms(1,2)
  have "waiting fl options ?T t0 ?T
      (fold (\<lambda>now c. snd (tick fl no_callbacks (state_code PW_STATE_CLOSED) now c)) (t0 # nows) (async_fields options))"
    by simp
  then obtain n where "ac_reconnectAttempts (fold (\<lambda>now c. snd (tick fl no_callbacks (state_code PW_STATE_CLOSED) now c))
        (t0 # nows) (async_fields options)) = int n"
    "int n \<le> max 0 (po_maxReconnectAttempts (op_policy options))"
    "st_reconnectCount (ac_stats (fold (\<lambda>now c. snd (tick fl no_callbacks (state_code PW_STATE_CLOSED) now c))
        (t0 # nows) (async_fields options))) = int n"
    "(\<Sum>k < n. least_delay fl options ?T k) \<le> ?T - t0"
    unfolding waiting_def by blast
  moreover have "calculateBackoff fl ((async_fields options)\<lparr>ac_reconnectAttempts := k\<rparr>) \<le> po_maxBackoffMs (op_policy options)" for k
    by (simp add: calculateBackoff_def async_fields_def Let_def)
  ultimately show ?thesis unfolding Let_def least_delay_def delay_def by simp
qed

theorem reconnects_spaced_witness:
  "let c = fold (\<lambda>now c. snd (tick double_float no_callbacks (state_code PW_STATE_CLOSED) now c)) [1, 2] (async_fields options_default)
   in ac_reconnectAttempts c = 1 \<and> st_reconnectCount (ac_stats c) = 1 \<and>
      (\<forall>k. calculateBackoff double_float ((async_fields options_default)\<lparr>ac_reconnectAttempts := k\<rparr>) \<le> 30000)"
proof -
  define c where "c = fold (\<lambda>now c. snd (tick double_float no_callbacks (state_code PW_STATE_CLOSED) now c)) [1, 2] (async_fields options_default)"
  have r: "round53 1 = 1" "round53 2 = 2" "round53 1000 = 1000"
    using round53_int [of 1] round53_int [of 2] round53_int [of 1000] by simp_all
  have "calculateBackoff double_float (async_fields options_default) = 1000"
    by (simp add: calculateBackoff_def double_float_def async_fields_def options_default_def policy_default_def r)
  then have n: "ac_reconnectAttempts c = 1"
    by (simp add: c_def tick_def and_then_def reconnect_step_def async_fields_def options_default_def policy_default_def
        double_float_def r)
  have "sorted (1 # [2] :: real list)" "(1 :: real) \<le> 1" "last (1 # [2]) \<le> (2 ^ 62 :: real)" by simp_all
  moreover have "po_maxBackoffMs (op_policy options_default) = 30000" by (simp add: options_default_def policy_default_def)
  ultimately show ?thesis
    using reconnects_spaced [of 1 "[2]" double_float options_default] double_float_arith n
    unfolding c_def [symmetric] Let_def by simp
qed

end
