(* ===== verification/PW_Run.thy ===== *)
theory PW_Run
  imports PW_Session
begin

text \<open>
  The runs of a program. Both programs have the same shape: an inner loop of turns over what has been
  received, rounds of \<open>poll\<close> that read, run the loop and write, and an outer loop over the rounds. A
  run is cut into moves, a read, a turn or a write, and a path is a sequence of moves with the bytes
  that its reads took from the system. The locale \<open>read_loop\<close> is the contract of the inner loop,
  \<open>poll_program\<close> that of the whole program; from them follow, once for both programs, that every
  session is a path, that a session that leaves an array does so in a move of a path, and that the
  invariant of the buffers holds along paths.
\<close>

section \<open>Moves and paths\<close>

type_synonym program_step = "poll_event \<Rightarrow> session \<Rightarrow> (bool \<times> session) option"

text \<open>The invariant of a session: both halves of the buffers, and a descriptor.\<close>

definition session_inv :: "session \<Rightarrow> bool" where
  "session_inv se \<longleftrightarrow> reading_ok (se_tr se) \<and> writing_ok (se_tr se) \<and> 0 \<le> tr_fd (se_tr se)"

text \<open>A system that keeps to the documented results of its calls in a round.\<close>

definition polite :: "poll_event \<Rightarrow> bool" where
  "polite ev \<longleftrightarrow> recv_ok (pe_recv ev) \<and> send_ok (pe_send ev)"

inductive moves :: "program_step \<Rightarrow> poll_event \<Rightarrow> session \<Rightarrow> byte list \<Rightarrow> session \<Rightarrow> bool"
  for step :: program_step and ev :: poll_event where
  reads: "moves step ev se (received_by (pe_recv ev) (se_tr se)) (se\<lparr>se_tr := tr\<rparr>)"
    if "pw_transport_read (pe_recv ev) (pe_errno ev) (Some (se_tr se)) = Some (r, e, Some tr)"
| turns: "moves step ev se [] se'" if "tr_read_len (se_tr se) \<noteq> 0" and "step ev se = Some (c, se')"
| writes: "moves step ev se [] se'" if "poll_write ev se = Some se'"

inductive path :: "program_step \<Rightarrow> poll_event set \<Rightarrow> session \<Rightarrow> byte list \<Rightarrow> session \<Rightarrow> bool"
  for step :: program_step and E :: "poll_event set" and se :: session where
  start: "path step E se [] se"
| further: "path step E se (bs @ cs) se2"
    if "path step E se bs se1" and "ev \<in> E" and "moves step ev se1 cs se2"

lemma path_trans:
  assumes "path step E se1 cs se2" and "path step E se bs se1"
  shows "path step E se (bs @ cs) se2"
  using assms
proof (induction rule: path.induct)
  case (further cs se1 ev ds se2)
  then show ?case using path.further [of step E se "bs @ cs" se1 ev ds se2] by simp
qed simp

lemma path_mono: "path step E se bs se' \<Longrightarrow> E \<subseteq> F \<Longrightarrow> path step F se bs se'"
  by (induction rule: path.induct) (auto intro: path.intros)

lemma path_move: "ev \<in> E \<Longrightarrow> moves step ev se bs se' \<Longrightarrow> path step E se bs se'"
  using path.further [OF path.start, of ev E step se bs se'] by simp

lemma path_before: "ev \<in> E \<Longrightarrow> moves step ev se bs se1 \<Longrightarrow> path step E se1 cs se2 \<Longrightarrow> path step E se (bs @ cs) se2"
  by (rule path_trans [OF _ path_move])

text \<open>A move that leaves an array.\<close>

definition stuck :: "program_step \<Rightarrow> poll_event \<Rightarrow> session \<Rightarrow> bool" where
  "stuck step ev se \<longleftrightarrow> tr_read_len (se_tr se) \<noteq> 0 \<and> step ev se = None \<or>
     pw_transport_read (pe_recv ev) (pe_errno ev) (Some (se_tr se)) = None \<or> poll_write ev se = None"

text \<open>What the rounds of a session hear from the system.\<close>

definition hears :: "poll_event \<Rightarrow> session \<Rightarrow> byte list" where
  "hears ev se = (if 0 \<le> pe_result ev \<and> pe_in ev then received_by (pe_recv ev) (se_tr se) else [])"

fun heard :: "program_step \<Rightarrow> poll_event list \<Rightarrow> session \<Rightarrow> byte list" where
  "heard round [] se = []"
| "heard round (ev # evs) se =
     (if state_of se = PW_STATE_CLOSED \<or> state_of se = PW_STATE_DISCONNECTED then []
      else hears ev se @ (case round ev se of Some (True, se') \<Rightarrow> heard round evs se' | _ \<Rightarrow> []))"

lemma read_gives_transport: "pw_transport_read recv errno (Some tr) \<noteq> Some (r, e, None)"
  by (auto simp: pw_transport_read_def Let_def split: if_splits bind_splits recv_result.splits)

lemma write_gives_transport: "pw_transport_write send errno (Some tr) \<noteq> Some (r, e, None)"
  by (auto simp: pw_transport_write_def Let_def split: if_splits bind_splits send_result.splits)

lemma poll_write_keeps_reading:
  assumes "poll_write ev se = Some se'"
  shows "tr_read_len (se_tr se') = tr_read_len (se_tr se)" "tr_fd (se_tr se') = tr_fd (se_tr se)"
    "unread (se_tr se') = unread (se_tr se)" "reading_ok (se_tr se') = reading_ok (se_tr se)"
  using assms
  by (auto simp: poll_write_def pw_transport_write_def Let_def unread_def reading_ok_def
      split: bind_splits if_splits send_result.splits)

lemma poll_write_state:
  "poll_write ev se = Some se' \<Longrightarrow>
     state_of se' = state_of se \<or> state_of se = PW_STATE_CLOSING \<and> state_of se' = PW_STATE_CLOSED"
  by (auto simp: poll_write_def Let_def goto_state_eq split: bind_splits if_splits)

lemma poll_write_writing:
  assumes "poll_write ev se = Some se'" and "writing_ok (se_tr se)" and "send_ok (pe_send ev)"
  shows "writing_ok (se_tr se')"
  using assms(1)
  by (auto simp: poll_write_def Let_def split: bind_splits if_splits dest!: write_any [OF assms(2,3)])
    (use assms(2) in \<open>auto simp: writing_ok_def\<close>)

lemma poll_write_shrinks:
  assumes "poll_write ev se = Some se'" and "writing_ok (se_tr se)" and "send_ok (pe_send ev)"
  shows "tr_write_len (se_tr se') \<le> tr_write_len (se_tr se)"
  using assms(1)
  by (auto simp: poll_write_def Let_def split: bind_splits if_splits dest!: write_any [OF assms(2,3)])

lemma poll_write_fault:
  assumes "writing_ok (se_tr se)"
  shows "poll_write ev se = None \<longleftrightarrow> 0 \<le> tr_fd (se_tr se) \<and> 0 < tr_write_len (se_tr se) \<and>
    4096 < tr_write_pos (se_tr se) + tr_write_len (se_tr se)"
proof -
  let ?w = "pw_transport_write (pe_send ev) (pe_errno ev) (Some (se_tr se))"
  have "poll_write ev se = None \<longleftrightarrow> ?w = None"
  proof (cases ?w)
    case (Some x)
    obtain r e t where x: "x = (r, e, t)" by (cases x)
    with Some write_gives_transport [of "pe_send ev" "pe_errno ev" "se_tr se" r e] obtain tr where "t = Some tr"
      by (cases t) auto
    with Some x show ?thesis by (simp add: poll_write_def Let_def)
  qed (simp add: poll_write_def)
  with assms show ?thesis by (simp add: write_fault_iff writing_ok_def)
qed

lemma move_read_fault:
  assumes "session_inv se" and "polite ev"
  shows "\<exists>r. pw_transport_read (pe_recv ev) (pe_errno ev) (Some (se_tr se)) = Some r"
  using read_any [of "se_tr se" "pe_recv ev" "pe_errno ev"] assms
  by (auto simp: session_inv_def polite_def recv_ok_fits)

lemma poll_write_hears: "poll_write ev se = Some se' \<Longrightarrow> hears ev se' = hears ev se"
  by (simp add: hears_def received_by_def poll_write_keeps_reading)

lemma stuck_here:
  "stuck step ev se \<Longrightarrow> \<exists>se1 bs cs. path step {ev} se bs se1 \<and> hears ev se = bs @ cs \<and> stuck step ev se1"
  by (intro exI [of _ se] exI [of _ "[]"] exI [of _ "hears ev se"]) (simp add: path.start)

text \<open>The read half of a round, the same in both programs.\<close>

definition read_half :: "(poll_event \<Rightarrow> session \<Rightarrow> session option) \<Rightarrow> program_step" where
  "read_half loop ev se =
     (if pe_in ev
      then do {
        (r, errno, t) \<leftarrow> pw_transport_read (pe_recv ev) (pe_errno ev) (Some (se_tr se));
        tr \<leftarrow> t;
        if r \<le> 0 \<and> errno \<noteq> EAGAIN \<and> errno \<noteq> EWOULDBLOCK then Some (False, se\<lparr>se_tr := tr\<rparr>)
        else do {
          se \<leftarrow> loop ev (se\<lparr>se_tr := tr\<rparr>);
          Some (True, se)
        }
      }
      else Some (True, se))"

section \<open>What turns do to the buffers\<close>

definition keeps_reading :: "pw_transport \<Rightarrow> pw_transport \<Rightarrow> bool" where
  "keeps_reading tr tr' \<longleftrightarrow> tr_read_buffer tr' = tr_read_buffer tr \<and> tr_read_pos tr' = tr_read_pos tr \<and>
     tr_read_len tr' = tr_read_len tr \<and> tr_fd tr' = tr_fd tr"

lemma keeps_reading_refl [simp]: "keeps_reading tr tr"
  by (simp add: keeps_reading_def)

lemma keeps_reading_trans: "keeps_reading a b \<Longrightarrow> keeps_reading b c \<Longrightarrow> keeps_reading a c"
  by (simp add: keeps_reading_def)

lemma keeps_readingD:
  assumes "keeps_reading tr tr'"
  shows "unread tr' = unread tr" "reading_ok tr' = reading_ok tr" "tr_fd tr' = tr_fd tr"
    "tr_read_len tr' = tr_read_len tr"
  using assms by (simp_all add: keeps_reading_def unread_def reading_ok_def)

lemma send_header_keeps:
  assumes "send_header f tr = Some tr'" and "writing_ok tr"
  shows "keeps_reading tr tr' \<and> writing_ok tr'"
  using assms(1) assms(2)
  by (auto simp: send_header_eq writing_ok_def keeps_reading_def queue_out_def length_put_bytes split: if_splits)

lemma send_bytes_keeps:
  assumes "send_bytes src s n tr = Some tr'" and "writing_ok tr"
  shows "keeps_reading tr tr' \<and> writing_ok tr'"
  using assms
  by (auto simp: send_bytes_def memcpy_def writing_ok_def keeps_reading_def length_put_bytes length_bytes_at
      split: bind_splits if_splits)

lemma consume_any:
  assumes "reading_ok tr" and "n \<le> tr_read_len tr"
  shows "reading_ok (transport_consume tr n)" "unread (transport_consume tr n) = drop n (unread tr)"
    "writing_ok (transport_consume tr n) = writing_ok tr" "tr_fd (transport_consume tr n) = tr_fd tr"
proof -
  have "size_add (tr_read_pos tr) n = tr_read_pos tr + n"
    using assms by (intro size_add_small) (simp add: reading_ok_def)
  then show "reading_ok (transport_consume tr n)" "unread (transport_consume tr n) = drop n (unread tr)"
    "writing_ok (transport_consume tr n) = writing_ok tr" "tr_fd (transport_consume tr n) = tr_fd tr"
    using assms
    by (simp_all add: transport_consume_def reading_ok_def writing_ok_def unread_def drop_bytes_at mem_simps)
qed

text \<open>A branch whose action leaves the read side alone consumes a prefix of what is unread.\<close>

lemma frame_branch_consumes:
  assumes "frame_branch junk act se = Some (c, se')" and "session_inv se"
    and act: "\<And>n f se1. act n f se = Some se1 \<Longrightarrow> keeps_reading (se_tr se) (se_tr se1) \<and> writing_ok (se_tr se1)"
  shows "session_inv se' \<and> (\<exists>n. unread (se_tr se') = drop n (unread (se_tr se)))"
proof -
  from assms(1) obtain found where p: "parse_frame junk (se_tr se) = Some found"
    by (auto simp: frame_branch_def split: bind_splits)
  show ?thesis
  proof (cases found)
    case None
    with assms(1,2) p have "se' = se" by (simp add: frame_branch_def)
    with assms(2) show ?thesis by (auto intro: exI [of _ 0])
  next
    case (Some nf)
    obtain n f where nf: "nf = (n, f)" by (cases nf)
    let ?k = "size_add n (unat (fr_length f))"
    from assms(1) p Some nf obtain se1 where se1: "act n f se = Some se1"
      and se': "se' = se1\<lparr>se_tr := transport_consume (se_tr se1) ?k\<rparr>"
      by (auto simp: frame_branch_def split: bind_splits)
    from act [OF se1] have k: "keeps_reading (se_tr se) (se_tr se1)" "writing_ok (se_tr se1)" by simp_all
    have "?k \<le> tr_read_len (se_tr se1)"
      using parse_frame_consumes [of junk "se_tr se" n f] p Some nf keeps_readingD(4) [OF k(1)] by simp
    with consume_any [of "se_tr se1" ?k] k(2) keeps_readingD [OF k(1)] assms(2) se'
    show ?thesis by (auto simp: session_inv_def)
  qed
qed

text \<open>The frame that a turn acts on: it is whole and its header has at most 15 bytes, or its magic is wrong
  and its length is whatever the stack contained.\<close>

lemma parse_frame_found:
  assumes "parse_frame junk tr = Some (Some (n, f))" and "reading_ok tr"
  shows "n = SIZE_MAX \<and> 0 < unat (fr_length f) \<and> size_add n (unat (fr_length f)) = unat (fr_length f) - 1 \<or>
    n \<noteq> SIZE_MAX \<and> n \<le> 15 \<and> size_add n (unat (fr_length f)) = n + unat (fr_length f) \<and>
      tr_read_pos tr + n + unat (fr_length f) \<le> 4096"
proof (cases "n = SIZE_MAX")
  case True
  have "tr_read_len tr < SIZE_MAX" using assms(2) by (simp add: reading_ok_def SIZE_MAX_def)
  with parse_frame_consumes [OF assms(1)] True size_add_max_0 have "fr_length f \<noteq> 0" by auto
  then have "0 < unat (fr_length f)" by (simp add: unat_gt_0)
  moreover have "unat (fr_length f) \<le> SIZE_MAX" using unat_u32_bound [of "fr_length f"] by (simp add: SIZE_MAX_def)
  ultimately show ?thesis using True size_add_max by simp
next
  case False
  obtain g where "frame_dec (unread tr) junk = (n, g)"
    using assms by (auto simp: parse_frame_dec split: prod.splits if_splits)
  from frame_dec_consumed [OF this False] have n: "n \<le> 15" by simp
  then have "size_add n (unat (fr_length f)) = n + unat (fr_length f)"
    using unat_u32_bound [of "fr_length f"] by (intro size_add_small) simp
  with False n parse_frame_consumes [OF assms(1)] assms(2) show ?thesis by (auto simp: reading_ok_def)
qed

lemma c_strlen_None_iff: "c_strlen bs = None \<longleftrightarrow> 0 \<notin> set bs"
  by (induction bs) auto

text \<open>The copy into \<open>char buf[128]\<close> and the printing of it stay in bounds exactly when the payload is
  within the source, fits, and leaves or contains a terminating zero.\<close>

lemma print_payload_fault:
  "print_payload src s n = None \<longleftrightarrow>
     length src < s + n \<or> 128 < n \<or> n = 128 \<and> 0 \<notin> set (bytes_at src s n)"
proof (cases "s + n \<le> length src \<and> n \<le> 128")
  case True
  then have "print_payload src s n = c_strlen (bytes_at src s n @ replicate (128 - n) 0)"
    by (simp add: print_payload_def mem_simps put_bytes_def length_bytes_at)
  with True show ?thesis by (auto simp: c_strlen_None_iff)
next
  case False
  then have "print_payload src s n = None" by (auto simp: print_payload_def memcpy_def)
  with False show ?thesis by auto
qed

text \<open>The frame a turn acts on, if there is one.\<close>

definition frame_found :: "poll_event \<Rightarrow> session \<Rightarrow> (nat \<times> pw_frame) option" where
  "frame_found ev se =
     (case parse_frame (pe_frame ev (tr_read_len (se_tr se))) (se_tr se) of Some found \<Rightarrow> found | None \<Rightarrow> None)"

lemma frame_branch_fault:
  assumes "reading_ok (se_tr se)" and "parse_frame junk (se_tr se) = Some found"
  shows "frame_branch junk act se = None \<longleftrightarrow> (case found of None \<Rightarrow> False | Some (n, f) \<Rightarrow> act n f se = None)"
  using assms by (cases found) (auto simp: frame_branch_def split: bind_splits)

lemma send_bytes_fault:
  "length (tr_write_buffer tr) = 4096 \<Longrightarrow>
     send_bytes src s n tr = None \<longleftrightarrow> 4096 < tr_write_len tr + n \<or> length src < s + n"
  by (auto simp: send_bytes_def memcpy_def split: bind_splits if_splits)

text \<open>Where the bytes behind a queued header start: the header is left out when it does not fit.\<close>

definition header_end :: "session \<Rightarrow> pw_frame \<Rightarrow> nat" where
  "header_end se f =
     (let w = tr_write_len (se_tr se); h = length (frame_header_bytes f)
      in if w + h \<le> 4096 then w + h else w)"

lemma send_header_end:
  assumes "writing_ok (se_tr se)"
  shows "\<exists>t. send_header f (se_tr se) = Some t \<and> length (tr_write_buffer t) = 4096 \<and>
    tr_write_len t = header_end se f \<and> tr_read_buffer t = tr_read_buffer (se_tr se)"
  using assms by (auto simp: send_header_eq writing_ok_def header_end_def queue_out_def length_put_bytes Let_def)

lemma store_lengths:
  "wr buf i b = Some buf' \<Longrightarrow> length buf' = length buf"
  "memcpy buf d src s n = Some buf' \<Longrightarrow> length buf' = length buf"
  by (auto simp: wr_def memcpy_def length_put_bytes length_bytes_at split: if_splits)

text \<open>A \<open>send\<close> that takes everything or nothing keeps the write position at the start of the buffer.\<close>

definition whole_send :: "poll_event \<Rightarrow> bool" where
  "whole_send ev \<longleftrightarrow> (\<forall>fd bs n e. pe_send ev fd bs = Sent n e \<longrightarrow> n = length bs \<or> n = 0)"

lemma send_write_pos:
  "send_header f tr = Some tr' \<Longrightarrow> tr_write_pos tr' = tr_write_pos tr"
  "send_bytes src s n tr = Some tr' \<Longrightarrow> tr_write_pos tr' = tr_write_pos tr"
  by (auto simp: send_header_def send_bytes_def split: bind_splits)

lemma frame_branch_write_pos:
  assumes "frame_branch junk act se = Some (c, se')"
    and "\<And>n f se1. act n f se = Some se1 \<Longrightarrow> tr_write_pos (se_tr se1) = tr_write_pos (se_tr se)"
  shows "tr_write_pos (se_tr se') = tr_write_pos (se_tr se)"
  using assms(1)
  by (auto simp: frame_branch_def transport_consume_def dest!: assms(2) split: bind_splits option.splits)

lemma whole_poll_write:
  assumes "poll_write ev se = Some se'" and "whole_send ev" and "writing_ok (se_tr se)" and "tr_write_pos (se_tr se) = 0"
  shows "tr_write_pos (se_tr se') = 0"
proof -
  have "n = tr_write_len (se_tr se) \<or> n = 0"
    if "pe_send ev (tr_fd (se_tr se)) (bytes_at (tr_write_buffer (se_tr se)) 0 (tr_write_len (se_tr se))) = Sent n e" for n e
    using that assms(2,3) length_bytes_at [of 0 "tr_write_len (se_tr se)" "tr_write_buffer (se_tr se)"]
    unfolding whole_send_def writing_ok_def by fastforce
  with assms(1,4) show ?thesis
    by (auto simp: poll_write_def pw_transport_write_def Let_def mem_simps
        split: bind_splits if_splits send_result.splits)
qed

section \<open>The contract of a program\<close>

locale read_loop =
  fixes step :: program_step
    and loop :: "poll_event \<Rightarrow> session \<Rightarrow> session option"
  assumes loop_unfold: "loop ev se =
      (if tr_read_len (se_tr se) = 0 then Some se
       else case step ev se of
              None \<Rightarrow> None
            | Some (go_on, se') \<Rightarrow>
                if go_on \<and> tr_read_len (se_tr se') \<noteq> tr_read_len (se_tr se) then loop ev se' else Some se')"
    and step_shrinks: "step ev se = Some (c, se') \<Longrightarrow> tr_read_len (se_tr se') \<le> tr_read_len (se_tr se)"
begin

lemma loop_path: "loop ev se = Some se' \<Longrightarrow> path step {ev} se [] se'"
proof (induction "tr_read_len (se_tr se)" arbitrary: se rule: less_induct)
  case less
  show ?case
  proof (cases "tr_read_len (se_tr se) = 0")
    case True
    with less.prems show ?thesis by (simp add: loop_unfold [of ev se] path.start)
  next
    case False
    with less.prems obtain c se1 where s: "step ev se = Some (c, se1)"
      by (cases "step ev se") (auto simp: loop_unfold [of ev se])
    have m: "moves step ev se [] se1" using False s by (rule moves.turns)
    show ?thesis
    proof (cases "c \<and> tr_read_len (se_tr se1) \<noteq> tr_read_len (se_tr se)")
      case True
      with step_shrinks [OF s] have "tr_read_len (se_tr se1) < tr_read_len (se_tr se)" by simp
      moreover have "loop ev se1 = Some se'" using less.prems s False True by (simp add: loop_unfold [of ev se])
      ultimately have "path step {ev} se1 [] se'" by (rule less.hyps)
      with m show ?thesis using path_before [of ev "{ev}"] by fastforce
    next
      case stop: False
      then have "loop ev se = Some se1" using s False by (auto simp: loop_unfold [of ev se])
      with less.prems m show ?thesis by (simp add: path_move)
    qed
  qed
qed

lemma loop_stuck: "loop ev se = None \<Longrightarrow> \<exists>se1. path step {ev} se [] se1 \<and> stuck step ev se1"
proof (induction "tr_read_len (se_tr se)" arbitrary: se rule: less_induct)
  case less
  have ne: "tr_read_len (se_tr se) \<noteq> 0"
  proof
    assume "tr_read_len (se_tr se) = 0"
    with less.prems loop_unfold [of ev se] show False by simp
  qed
  show ?case
  proof (cases "step ev se")
    case None
    with ne have "stuck step ev se" by (simp add: stuck_def)
    then show ?thesis by (blast intro: path.start)
  next
    case (Some r)
    obtain c se1 where "r = (c, se1)" by (cases r)
    with Some have s: "step ev se = Some (c, se1)" by simp
    with less.prems ne have go: "c" "tr_read_len (se_tr se1) \<noteq> tr_read_len (se_tr se)" "loop ev se1 = None"
      by (auto simp: loop_unfold [of ev se] split: if_splits)
    with step_shrinks [OF s] have "tr_read_len (se_tr se1) < tr_read_len (se_tr se)" by simp
    from less.hyps [OF this go(3)] obtain se2 where "path step {ev} se1 [] se2" "stuck step ev se2" by blast
    moreover have "moves step ev se [] se1" using ne s by (rule moves.turns)
    ultimately show ?thesis using path_before [of ev "{ev}"] by fastforce
  qed
qed

text \<open>The read half of a round, with the loop over what has arrived.\<close>

lemma read_half_path:
  assumes "read_half loop ev se = Some (c, se')" and "0 \<le> pe_result ev"
  shows "path step {ev} se (hears ev se) se'"
proof (cases "pe_in ev")
  case False
  with assms(1) show ?thesis by (simp add: read_half_def hears_def path.start)
next
  case True
  with assms(1) obtain r e tr where
    r: "pw_transport_read (pe_recv ev) (pe_errno ev) (Some (se_tr se)) = Some (r, e, Some tr)"
    by (auto simp: read_half_def split: bind_splits)
  have p: "path step {ev} se (hears ev se) (se\<lparr>se_tr := tr\<rparr>)"
    using path_move [OF _ moves.reads [where step = step, OF r]] True assms(2) by (simp add: hears_def)
  show ?thesis
  proof (cases "r \<le> 0 \<and> e \<noteq> EAGAIN \<and> e \<noteq> EWOULDBLOCK")
    case stop: True
    with assms(1) True r have "se' = se\<lparr>se_tr := tr\<rparr>" by (simp add: read_half_def split: if_splits)
    with p show ?thesis by simp
  next
    case False
    with assms(1) True r have "loop ev (se\<lparr>se_tr := tr\<rparr>) = Some se'"
      by (auto simp: read_half_def split: bind_splits)
    from path_trans [OF loop_path [OF this] p] show ?thesis by simp
  qed
qed

lemma read_half_stuck:
  assumes "read_half loop ev se = None" and "0 \<le> pe_result ev"
  shows "\<exists>se1 bs cs. path step {ev} se bs se1 \<and> hears ev se = bs @ cs \<and> stuck step ev se1"
proof -
  from assms(1) have i: "pe_in ev" by (auto simp: read_half_def split: if_splits)
  show ?thesis
  proof (cases "pw_transport_read (pe_recv ev) (pe_errno ev) (Some (se_tr se))")
    case None
    then have "stuck step ev se" by (simp add: stuck_def)
    then show ?thesis by (rule stuck_here)
  next
    case (Some x)
    obtain r e t where x: "x = (r, e, t)" by (cases x)
    with Some read_gives_transport [of "pe_recv ev" "pe_errno ev" "se_tr se" r e] obtain tr where t: "t = Some tr"
      by (cases t) auto
    with Some x have r: "pw_transport_read (pe_recv ev) (pe_errno ev) (Some (se_tr se)) = Some (r, e, Some tr)" by simp
    have p: "path step {ev} se (hears ev se) (se\<lparr>se_tr := tr\<rparr>)"
      using path_move [OF _ moves.reads [where step = step, OF r]] i assms(2) by (simp add: hears_def)
    from assms(1) i r have "loop ev (se\<lparr>se_tr := tr\<rparr>) = None"
      by (auto simp: read_half_def split: bind_splits if_splits)
    from loop_stuck [OF this] obtain se1 where "path step {ev} (se\<lparr>se_tr := tr\<rparr>) [] se1" "stuck step ev se1" by blast
    with path_trans [OF _ p] show ?thesis by (intro exI [of _ se1] exI [of _ "hears ev se"] exI [of _ "[]"]) force
  qed
qed

text \<open>The two orders of the halves: the server reads first, the client writes first.\<close>

lemma read_then_write_path:
  assumes "(do { (go_on, se1) \<leftarrow> read_half loop ev se;
      if \<not> go_on then Some (False, se1)
      else if out then do { se2 \<leftarrow> poll_write ev se1; Some (True, se2) } else Some (True, se1) }) = Some (c, se')"
    and "0 \<le> pe_result ev"
  shows "path step {ev} se (hears ev se) se'"
proof -
  from assms(1) obtain go_on se1 where r: "read_half loop ev se = Some (go_on, se1)"
    and w: "se' = se1 \<or> poll_write ev se1 = Some se'"
    by (auto split: bind_splits if_splits)
  have p: "path step {ev} se (hears ev se) se1" using r assms(2) by (rule read_half_path)
  from w show ?thesis
  proof
    assume "poll_write ev se1 = Some se'"
    from path.further [OF p _ moves.writes [OF this]] show ?thesis by simp
  qed (use p in simp)
qed

lemma read_then_write_stuck:
  assumes "(do { (go_on, se1) \<leftarrow> read_half loop ev se;
      if \<not> go_on then Some (False, se1)
      else if out then do { se2 \<leftarrow> poll_write ev se1; Some (True, se2) } else Some (True, se1) }) = None"
    and "0 \<le> pe_result ev"
  shows "\<exists>se1 bs cs. path step {ev} se bs se1 \<and> hears ev se = bs @ cs \<and> stuck step ev se1"
proof (cases "read_half loop ev se")
  case None
  then show ?thesis using assms(2) by (rule read_half_stuck)
next
  case (Some x)
  obtain go_on se1 where x: "x = (go_on, se1)" by (cases x)
  with Some assms(1) have "stuck step ev se1"
    by (auto simp: stuck_def split: bind_splits if_splits)
  moreover have "path step {ev} se (hears ev se) se1" using Some x assms(2) by (simp add: read_half_path)
  ultimately show ?thesis by (intro exI [of _ se1] exI [of _ "hears ev se"] exI [of _ "[]"]) simp
qed

lemma write_then_read_path:
  assumes "(do { se1 \<leftarrow> (if out then poll_write ev se else Some se); read_half loop ev se1 }) = Some (c, se')"
    and "0 \<le> pe_result ev"
  shows "path step {ev} se (hears ev se) se'"
proof -
  from assms(1) obtain se1 where w: "se1 = se \<or> poll_write ev se = Some se1"
    and r: "read_half loop ev se1 = Some (c, se')"
    by (auto split: bind_splits if_splits)
  have p: "path step {ev} se1 (hears ev se1) se'" using r assms(2) by (rule read_half_path)
  from w show ?thesis
  proof
    assume pw: "poll_write ev se = Some se1"
    from path_before [of ev "{ev}", OF _ moves.writes [OF pw] p] poll_write_hears [OF pw] show ?thesis by simp
  qed (use p in simp)
qed

lemma write_then_read_stuck:
  assumes "(do { se1 \<leftarrow> (if out then poll_write ev se else Some se); read_half loop ev se1 }) = None"
    and "0 \<le> pe_result ev"
  shows "\<exists>se1 bs cs. path step {ev} se bs se1 \<and> hears ev se = bs @ cs \<and> stuck step ev se1"
proof (cases "if out then poll_write ev se else Some se")
  case None
  then have "stuck step ev se" by (auto simp: stuck_def split: if_splits)
  then show ?thesis by (rule stuck_here)
next
  case (Some se1)
  with assms(1) have "read_half loop ev se1 = None" by simp
  from read_half_stuck [OF this assms(2)] obtain se2 bs cs where
    s: "path step {ev} se1 bs se2" "hears ev se1 = bs @ cs" "stuck step ev se2" by blast
  show ?thesis
  proof (cases out)
    case True
    with Some have pw: "poll_write ev se = Some se1" by simp
    from path_before [of ev "{ev}", OF _ moves.writes [OF pw] s(1)] s(2,3) poll_write_hears [OF pw]
    show ?thesis by auto
  next
    case False
    with Some s show ?thesis by auto
  qed
qed

end

locale poll_program = read_loop +
  fixes round :: program_step
    and session :: "poll_event list \<Rightarrow> session \<Rightarrow> session option"
  assumes round_path: "round ev se = Some (c, se') \<Longrightarrow> path step {ev} se (hears ev se) se'"
    and round_stuck: "round ev se = None \<Longrightarrow>
      \<exists>se1 bs cs. path step {ev} se bs se1 \<and> hears ev se = bs @ cs \<and> stuck step ev se1"
    and session_Nil: "session [] se = Some se"
    and session_Cons: "session (ev # evs) se =
      (if state_of se = PW_STATE_CLOSED \<or> state_of se = PW_STATE_DISCONNECTED then Some se
       else case round ev se of
              None \<Rightarrow> None
            | Some (go_on, se') \<Rightarrow> if go_on then session evs se' else Some se')"
    and step_consumes: "session_inv se \<Longrightarrow> step ev se = Some (c, se') \<Longrightarrow>
      session_inv se' \<and> (\<exists>n. unread (se_tr se') = drop n (unread (se_tr se)))"
    and step_keeps_pos: "step ev se = Some (c, se') \<Longrightarrow> tr_write_pos (se_tr se') = tr_write_pos (se_tr se)"
begin

lemma session_path: "session evs se = Some se' \<Longrightarrow> path step (set evs) se (heard round evs se) se'"
proof (induction evs arbitrary: se)
  case Nil
  then show ?case by (simp add: session_Nil path.start)
next
  case (Cons ev evs)
  show ?case
  proof (cases "state_of se = PW_STATE_CLOSED \<or> state_of se = PW_STATE_DISCONNECTED")
    case True
    with Cons.prems show ?thesis by (auto simp: session_Cons path.start)
  next
    case False
    with Cons.prems obtain c se1 where r: "round ev se = Some (c, se1)"
      by (cases "round ev se") (auto simp: session_Cons)
    have p: "path step (set (ev # evs)) se (hears ev se) se1"
      by (rule path_mono [OF round_path [OF r]]) simp
    show ?thesis
    proof (cases c)
      case True
      with Cons.prems False r have "session evs se1 = Some se'" by (simp add: session_Cons)
      from path_mono [OF Cons.IH [OF this], of "set (ev # evs)"]
      have "path step (set (ev # evs)) se1 (heard round evs se1) se'" by auto
      from path_trans [OF this p] False r True show ?thesis by simp
    next
      case stop: False
      with Cons.prems False r p show ?thesis by (simp add: session_Cons)
    qed
  qed
qed

lemma session_stuck:
  "session evs se = None \<Longrightarrow> \<exists>ev \<in> set evs. \<exists>se1 bs cs. path step (set evs) se bs se1 \<and>
     heard round evs se = bs @ cs \<and> stuck step ev se1"
proof (induction evs arbitrary: se)
  case Nil
  then show ?case by (simp add: session_Nil)
next
  case (Cons ev evs)
  from Cons.prems have open_se: "\<not> (state_of se = PW_STATE_CLOSED \<or> state_of se = PW_STATE_DISCONNECTED)"
    by (auto simp: session_Cons)
  show ?case
  proof (cases "round ev se")
    case None
    from round_stuck [OF None] obtain se1 bs cs where
      "path step {ev} se bs se1" "hears ev se = bs @ cs" "stuck step ev se1" by blast
    moreover from this have "path step (set (ev # evs)) se bs se1" by (auto intro: path_mono)
    ultimately show ?thesis using open_se None by auto
  next
    case (Some r)
    obtain c se1 where "r = (c, se1)" by (cases r)
    with Some Cons.prems open_se have r: "round ev se = Some (True, se1)" and s: "session evs se1 = None"
      by (auto simp: session_Cons split: if_splits)
    have p: "path step (set (ev # evs)) se (hears ev se) se1"
      by (rule path_mono [OF round_path [OF r]]) simp
    from Cons.IH [OF s] obtain ev' se2 bs cs where
      IH: "ev' \<in> set evs" "path step (set evs) se1 bs se2" "heard round evs se1 = bs @ cs" "stuck step ev' se2"
      by blast
    have "path step (set (ev # evs)) se1 bs se2" by (rule path_mono [OF IH(2)]) auto
    from path_trans [OF this p] have "path step (set (ev # evs)) se (hears ev se @ bs) se2" .
    moreover have "heard round (ev # evs) se = (hears ev se @ bs) @ cs" using IH(3) open_se r by simp
    ultimately show ?thesis using IH(1,4) by (meson list.set_intros(2))
  qed
qed

lemma move_inv:
  assumes "moves step ev se bs se'" and "session_inv se" and "polite ev"
  shows "session_inv se' \<and> (\<exists>n. unread (se_tr se') = drop n (unread (se_tr se) @ bs))"
  using assms(1)
proof cases
  case (reads r e tr)
  from read_any [of "se_tr se" "pe_recv ev" "pe_errno ev"] assms(2,3) reads(3)
  have t: "reading_ok tr" "unread tr = unread (se_tr se) @ bs" "same_writing (se_tr se) tr"
    by (auto simp: session_inv_def polite_def recv_ok_fits reads(1))
  with assms(2) have "session_inv se'"
    by (simp add: session_inv_def reads(2) same_writingD [OF t(3)])
  moreover have "unread (se_tr se') = drop 0 (unread (se_tr se) @ bs)" using t(2) by (simp add: reads(2))
  ultimately show ?thesis by blast
next
  case (turns c)
  with step_consumes [OF assms(2)] show ?thesis by simp
next
  case writes
  then have "session_inv se'"
    using assms(2,3) poll_write_keeps_reading [OF writes(2)] poll_write_writing [OF writes(2)]
    by (simp add: session_inv_def polite_def)
  moreover have "unread (se_tr se') = drop 0 (unread (se_tr se) @ bs)"
    using poll_write_keeps_reading(3) [OF writes(2)] writes(1) by simp
  ultimately show ?thesis by blast
qed

text \<open>Along a path the invariant holds, and what is unread is the rest of what was there and was heard.\<close>

lemma path_inv:
  assumes "path step E se bs se'" and "session_inv se" and "\<forall>ev \<in> E. polite ev"
  shows "session_inv se' \<and> (\<exists>n. unread (se_tr se') = drop n (unread (se_tr se) @ bs))"
  using assms(1)
proof (induction rule: path.induct)
  case start
  show ?case using assms(2) by (auto intro: exI [of _ 0])
next
  case (further bs se1 ev cs se2)
  then obtain n where n: "session_inv se1" "unread (se_tr se1) = drop n (unread (se_tr se) @ bs)" by blast
  with move_inv [OF further.hyps(3)] further.hyps(2) assms(3) obtain m where
    m: "session_inv se2" "unread (se_tr se2) = drop m (unread (se_tr se1) @ cs)" by blast
  from drop_of_drop_append [of m n "unread (se_tr se) @ bs" cs] m n(2) show ?case by auto
qed

lemma session_keeps_inv:
  assumes "session evs se = Some se'" and "session_inv se" and "\<forall>ev \<in> set evs. polite ev"
  shows "session_inv se'"
  using path_inv [OF session_path [OF assms(1)] assms(2,3)] by blast

text \<open>Whatever the moves keep under the invariant holds along paths.\<close>

lemma path_keeps:
  assumes "path step E se bs se'" and "session_inv se" and "\<forall>ev \<in> E. polite ev" and "P se"
    and keeps: "\<And>ev se1 cs se2. ev \<in> E \<Longrightarrow> session_inv se1 \<Longrightarrow> P se1 \<Longrightarrow> moves step ev se1 cs se2 \<Longrightarrow> P se2"
  shows "P se'"
  using assms(1)
proof (induction rule: path.induct)
  case (further bs se1 ev cs se2)
  from path_inv [OF further.hyps(1) assms(2,3)] have "session_inv se1" by blast
  from keeps [OF further.hyps(2) this further.IH further.hyps(3)] show ?case .
qed (rule assms(4))

lemma move_reads_same:
  assumes "session_inv se" and "polite ev"
    and "pw_transport_read (pe_recv ev) (pe_errno ev) (Some (se_tr se)) = Some (r, e, Some tr)"
  shows "same_writing (se_tr se) tr"
  using read_any [of "se_tr se" "pe_recv ev" "pe_errno ev"] assms
  by (auto simp: session_inv_def polite_def recv_ok_fits)

lemma path_write_pos:
  assumes "path step E se bs se'" and "session_inv se" and "\<forall>ev \<in> E. polite ev \<and> whole_send ev"
    and "tr_write_pos (se_tr se) = 0"
  shows "tr_write_pos (se_tr se') = 0"
proof (rule path_keeps [where P = "\<lambda>se. tr_write_pos (se_tr se) = 0", OF assms(1,2) _ assms(4)])
  show "\<forall>ev \<in> E. polite ev" using assms(3) by blast
next
  fix ev se1 cs se2
  assume a: "ev \<in> E" "session_inv se1" "tr_write_pos (se_tr se1) = 0" "moves step ev se1 cs se2"
  from a(4) show "tr_write_pos (se_tr se2) = 0"
  proof cases
    case (reads r e tr)
    with move_reads_same [OF a(2) _ reads(3)] a(1,3) assms(3) show ?thesis by (simp add: same_writingD(3))
  next
    case (turns c)
    with step_keeps_pos a(3) show ?thesis by simp
  next
    case writes
    with whole_poll_write [OF writes(2)] a assms(3) show ?thesis by (simp add: session_inv_def)
  qed
qed

text \<open>Where a session can leave an array: in a turn, or in a write after queued bytes have passed the end.\<close>

lemma session_fault:
  assumes "session evs se = None" and "session_inv se" and "\<forall>ev \<in> set evs. polite ev"
  shows "\<exists>ev \<in> set evs. \<exists>se1 bs cs. path step (set evs) se bs se1 \<and> heard round evs se = bs @ cs \<and>
    session_inv se1 \<and> (tr_read_len (se_tr se1) \<noteq> 0 \<and> step ev se1 = None \<or>
      4096 < tr_write_pos (se_tr se1) + tr_write_len (se_tr se1))"
proof -
  from session_stuck [OF assms(1)] obtain ev se1 bs cs where
    s: "ev \<in> set evs" "path step (set evs) se bs se1" "heard round evs se = bs @ cs" "stuck step ev se1" by blast
  have inv: "session_inv se1" using path_inv [OF s(2) assms(2,3)] by blast
  with s(1,4) assms(3) move_read_fault [OF inv, of ev] poll_write_fault [of se1 ev]
  have "tr_read_len (se_tr se1) \<noteq> 0 \<and> step ev se1 = None \<or>
      4096 < tr_write_pos (se_tr se1) + tr_write_len (se_tr se1)"
    by (auto simp: stuck_def session_inv_def)
  with s inv show ?thesis by blast
qed

end

end
