(* ===== verification/PW_Server_Run.thy ===== *)
theory PW_Server_Run
  imports "HOL-Library.Sublist" PW_Dialogue PW_Run
begin

text \<open>
  Whole sessions of the server, \<open>native/src/server_main.c\<close>: the interpretation of \<open>poll_program\<close>, the
  exact condition under which a turn leaves an array, and what a client must have sent before a session
  is authenticated or leaves an array.
\<close>

section \<open>The server as a program\<close>

lemma server_hello_room:
  "pw_handshake_serialize_server_hello h buf p m = Some (w, wb) \<Longrightarrow> length wb = length buf \<and> w \<le> m"
  by (auto simp: pw_handshake_serialize_server_hello_def write_u32_be_def write_u16_be_def Let_def
      dest!: store_lengths split: if_splits bind_splits)

lemma server_handshaking_consumes:
  assumes "server_handshaking junk se = Some (c, se')" and "session_inv se"
  shows "session_inv se' \<and> (\<exists>n. unread (se_tr se') = drop n (unread (se_tr se)))"
proof -
  let ?tr = "se_tr se"
  from assms(1) obtain n ch where
    p: "pw_handshake_parse_client_hello (tr_read_buffer ?tr) (tr_read_pos ?tr) (tr_read_len ?tr) junk = Some (n, ch)"
    by (auto simp: server_handshaking_def Let_def split: bind_splits)
  show ?thesis
  proof (cases "0 < n")
    case False
    with assms(1) p have "se' = se" by (simp add: server_handshaking_def Let_def)
    with assms(2) show ?thesis by (auto intro: exI [of _ 0])
  next
    case True
    let ?t = "transport_consume ?tr n"
    have n: "n \<le> tr_read_len ?tr" using parse_client_hello_bound [OF p] .
    from assms(2) have r: "reading_ok ?tr" "writing_ok ?tr" "0 \<le> tr_fd ?tr" by (simp_all add: session_inv_def)
    note t = consume_any [OF r(1) n]
    from assms(1) p True obtain sh w wb where
      s: "pw_handshake_serialize_server_hello sh (tr_write_buffer ?t) (tr_write_len ?t) (size_sub 4096 (tr_write_len ?t)) = Some (w, wb)"
      and se': "se_tr se' = ?t\<lparr>tr_write_buffer := wb, tr_write_len := tr_write_len ?t + w\<rparr>"
      by (auto simp: server_handshaking_def Let_def split: bind_splits if_splits prod.splits)
    have wo: "length (tr_write_buffer ?t) = 4096" "tr_write_len ?t \<le> 4096" "tr_write_pos ?t \<le> 4096"
      using t(3) r(2) by (simp_all add: writing_ok_def)
    from server_hello_room [OF s] wo have "length wb = 4096" and "w \<le> 4096 - tr_write_len ?t"
      by (simp_all add: size_sub_le)
    with wo(2) have "length wb = 4096" and "tr_write_len ?t + w \<le> 4096" by linarith+
    with se' wo(3) have "writing_ok (se_tr se')" by (simp add: writing_ok_def)
    moreover have "reading_ok (se_tr se')" "tr_fd (se_tr se') = tr_fd ?tr" "unread (se_tr se') = unread ?t"
      using se' t(1,4) by (simp_all add: reading_ok_def unread_def)
    ultimately show ?thesis using t(2) r(3) by (auto simp: session_inv_def)
  qed
qed

lemma server_acts_keep:
  assumes "session_inv se"
  shows "server_auth_frame req n f se = Some se1 \<Longrightarrow> keeps_reading (se_tr se) (se_tr se1) \<and> writing_ok (se_tr se1)"
    and "server_ready_frame n f se = Some se1 \<Longrightarrow> keeps_reading (se_tr se) (se_tr se1) \<and> writing_ok (se_tr se1)"
proof -
  have w: "writing_ok (se_tr se)" using assms by (simp add: session_inv_def)
  show "server_auth_frame req n f se = Some se1 \<Longrightarrow> keeps_reading (se_tr se) (se_tr se1) \<and> writing_ok (se_tr se1)"
    using w by (auto simp: server_auth_frame_def split: if_splits bind_splits dest!: send_header_keeps)
  show "server_ready_frame n f se = Some se1 \<Longrightarrow> keeps_reading (se_tr se) (se_tr se1) \<and> writing_ok (se_tr se1)"
    using w by (auto simp: server_ready_frame_def Let_def split: if_splits bind_splits
        dest!: send_header_keeps send_bytes_keeps intro: keeps_reading_trans)
qed

lemma server_step_consumes:
  assumes "session_inv se" and "server_step ev se = Some (c, se')"
  shows "session_inv se' \<and> (\<exists>n. unread (se_tr se') = drop n (unread (se_tr se)))"
proof (cases "state_of se")
  case PW_STATE_HANDSHAKING
  with assms(2) have "server_handshaking (pe_client_hello ev (tr_read_len (se_tr se))) se = Some (c, se')"
    by (simp add: server_step_def)
  then show ?thesis using assms(1) by (rule server_handshaking_consumes)
next
  case PW_STATE_AUTHENTICATING
  let ?k = "tr_read_len (se_tr se)"
  from PW_STATE_AUTHENTICATING assms(2) have
    "frame_branch (pe_frame ev ?k) (server_auth_frame (pe_request ev ?k)) se = Some (c, se')"
    by (simp add: server_step_def Let_def)
  then show ?thesis using assms(1) server_acts_keep(1) [OF assms(1)] by (rule frame_branch_consumes)
next
  case PW_STATE_READY
  with assms(2) have "frame_branch (pe_frame ev (tr_read_len (se_tr se))) server_ready_frame se = Some (c, se')"
    by (simp add: server_step_def Let_def)
  then show ?thesis using assms(1) server_acts_keep(2) [OF assms(1)] by (rule frame_branch_consumes)
qed (use assms in \<open>auto simp: server_step_def intro: exI [of _ 0]\<close>)

lemma server_act_write_pos:
  "server_auth_frame req n f se = Some se1 \<Longrightarrow> tr_write_pos (se_tr se1) = tr_write_pos (se_tr se)"
  "server_ready_frame n f se = Some se1 \<Longrightarrow> tr_write_pos (se_tr se1) = tr_write_pos (se_tr se)"
  by (auto simp: server_auth_frame_def server_ready_frame_def Let_def split: if_splits bind_splits
      dest!: send_write_pos)

lemma server_step_write_pos:
  assumes "server_step ev se = Some (c, se')"
  shows "tr_write_pos (se_tr se') = tr_write_pos (se_tr se)"
proof (cases "state_of se")
  case PW_STATE_HANDSHAKING
  with assms show ?thesis
    by (auto simp: server_step_def server_handshaking_def Let_def transport_consume_def split: bind_splits if_splits)
next
  case PW_STATE_AUTHENTICATING
  with assms show ?thesis
    by (auto simp: server_step_def Let_def intro: frame_branch_write_pos server_act_write_pos(1))
next
  case PW_STATE_READY
  with assms show ?thesis
    by (auto simp: server_step_def Let_def intro: frame_branch_write_pos server_act_write_pos(2))
qed (use assms in \<open>auto simp: server_step_def\<close>)

interpretation server_loop: read_loop server_step server_read_loop
  by unfold_locales (rule server_read_loop.simps, rule server_step_read_len)

lemma server_round_halves:
  "server_round ev se =
     (if pe_result ev < 0 then Some (False, se)
      else do {
        (go_on, se1) \<leftarrow> read_half server_read_loop ev se;
        if \<not> go_on then Some (False, se1)
        else if pe_out ev \<and> 0 < tr_write_len (se_tr se)
        then do { se2 \<leftarrow> poll_write ev se1; Some (True, se2) } else Some (True, se1) })"
  by (simp add: server_round_def read_half_def Let_def)

interpretation server_run: poll_program server_step server_read_loop server_round server_session
proof unfold_locales
  fix ev c and se se' :: session
  assume r: "server_round ev se = Some (c, se')"
  show "path server_step {ev} se (hears ev se) se'"
  proof (cases "pe_result ev < 0")
    case True
    with r show ?thesis by (simp add: server_round_halves hears_def path.start)
  next
    case False
    with r show ?thesis by (intro server_loop.read_then_write_path) (simp_all add: server_round_halves)
  qed
next
  fix ev and se :: session
  assume r: "server_round ev se = None"
  then have "\<not> pe_result ev < 0" by (auto simp: server_round_halves)
  with r show "\<exists>se1 bs cs. path server_step {ev} se bs se1 \<and> hears ev se = bs @ cs \<and> stuck server_step ev se1"
    by (intro server_loop.read_then_write_stuck) (simp_all add: server_round_halves)
qed (simp_all add: server_step_consumes server_step_write_pos)

section \<open>When a turn leaves an array\<close>

text \<open>Before authentication the only way out of an array is an AUTH code behind wrong magic, with a stale
  length of at least 5. A ready server leaves an array on data behind wrong magic, on data that overflows
  \<open>char buf[128]\<close> or fills it without a zero, and when the echo does not fit behind what is queued, the
  header being left out when even that does not fit.\<close>

definition server_oob :: "poll_event \<Rightarrow> session \<Rightarrow> bool" where
  "server_oob ev se =
     (case frame_found ev se of
        None \<Rightarrow> False
      | Some (n, f) \<Rightarrow>
          (if state_of se = PW_STATE_AUTHENTICATING
           then fr_opcode f = opcode_byte PW_OPCODE_AUTH \<and> n = SIZE_MAX \<and> 5 \<le> unat (fr_length f)
           else state_of se = PW_STATE_READY \<and> is_data f \<and>
             (n = SIZE_MAX \<or> 128 < unat (fr_length f) \<or>
              unat (fr_length f) = 128 \<and> 0 \<notin> set (bytes_at (tr_read_buffer (se_tr se)) (tr_read_pos (se_tr se) + n) 128) \<or>
              4096 < header_end se f + unat (fr_length f))))"

lemma server_auth_fault:
  assumes "session_inv se" and "parse_frame junk (se_tr se) = Some (Some (n, f))"
  shows "server_auth_frame req n f se = None \<longleftrightarrow>
    fr_opcode f = opcode_byte PW_OPCODE_AUTH \<and> n = SIZE_MAX \<and> 5 \<le> unat (fr_length f)"
proof (cases "n = SIZE_MAX")
  case False
  from assms(1) have ok: "reading_ok (se_tr se)" "writing_ok (se_tr se)" by (simp_all add: session_inv_def)
  from parse_frame_found [OF assms(2) ok(1)] False have "tr_read_pos (se_tr se) + n + unat (fr_length f) \<le> 4096" by simp
  from server_auth_frame_total [OF ok this, of req] obtain se' where "server_auth_frame req n f se = Some se'" ..
  with False show ?thesis by simp
next
  case True
  have "rd (tr_read_buffer (se_tr se)) (tr_read_pos (se_tr se) + SIZE_MAX) = None"
    using assms(1) by (intro rd_None) (simp add: session_inv_def reading_ok_def SIZE_MAX_def)
  with True show ?thesis
    by (auto simp: server_auth_frame_def pw_auth_parse_request_def)
qed

lemma server_ready_fault:
  assumes "session_inv se" and "parse_frame junk (se_tr se) = Some (Some (n, f))"
  shows "server_ready_frame n f se = None \<longleftrightarrow> is_data f \<and>
    (n = SIZE_MAX \<or> 128 < unat (fr_length f) \<or>
     unat (fr_length f) = 128 \<and> 0 \<notin> set (bytes_at (tr_read_buffer (se_tr se)) (tr_read_pos (se_tr se) + n) 128) \<or>
     4096 < header_end se f + unat (fr_length f))"
proof -
  let ?tr = "se_tr se" and ?m = "unat (fr_length f)"
  let ?h = "frame_header_bytes f" and ?w = "tr_write_len (se_tr se)"
  from assms(1) have r: "length (tr_read_buffer ?tr) = 4096" and ro: "reading_ok ?tr"
    and w: "length (tr_write_buffer ?tr) = 4096" "?w \<le> 4096"
    by (simp_all add: session_inv_def reading_ok_def writing_ok_def)
  have send: "\<exists>t. send_header g ?tr = Some t" for g using w by (simp add: send_header_eq)
  have source: "4096 < tr_read_pos ?tr + n + ?m \<longleftrightarrow> n = SIZE_MAX"
    using parse_frame_found [OF assms(2) ro] by (auto simp: SIZE_MAX_def)
  show ?thesis
  proof (cases "is_data f")
    case False
    with send [of "server_reply PW_OPCODE_PONG (fr_stream_id f)"] send [of "server_reply PW_OPCODE_CLOSE 0"]
    show ?thesis by (auto simp: server_ready_frame_def is_data_def Let_def)
  next
    case True
    define t where "t = (if ?w + length ?h \<le> 4096 then queue_out ?h ?tr else ?tr)"
    have h: "send_header f ?tr = Some t" using w by (simp add: send_header_eq t_def)
    have t: "length (tr_write_buffer t) = 4096" "tr_write_len t + ?m = header_end se f + unat (fr_length f)"
      "tr_read_buffer t = tr_read_buffer ?tr"
      using w by (simp_all add: t_def header_end_def queue_out_def length_put_bytes Let_def)
    have "server_ready_frame n f se = None \<longleftrightarrow>
        print_payload (tr_read_buffer ?tr) (tr_read_pos ?tr + n) ?m = None \<or>
        send_bytes (tr_read_buffer ?tr) (tr_read_pos ?tr + n) ?m t = None"
      using True h t(3) by (auto simp: server_ready_frame_def is_data_def Let_def split: bind_splits)
    with True source r t show ?thesis by (auto simp: print_payload_fault send_bytes_fault)
  qed
qed

lemma server_step_fault:
  assumes "session_inv se" and "client_hello_wf (pe_client_hello ev (tr_read_len (se_tr se)))"
  shows "server_step ev se = None \<longleftrightarrow> server_oob ev se"
proof -
  let ?k = "tr_read_len (se_tr se)"
  from assms(1) have ok: "reading_ok (se_tr se)" "writing_ok (se_tr se)" by (simp_all add: session_inv_def)
  from parse_frame_total [OF ok(1)] obtain found where p: "parse_frame (pe_frame ev ?k) (se_tr se) = Some found" by blast
  note fault = frame_branch_fault [OF ok(1) p]
  show ?thesis
  proof (cases "state_of se")
    case PW_STATE_HANDSHAKING
    with server_handshaking_total [OF ok assms(2)] p show ?thesis
      by (auto simp: server_step_def server_oob_def frame_found_def split: option.splits)
  next
    case PW_STATE_AUTHENTICATING
    with fault p server_auth_fault [OF assms(1)] show ?thesis
      by (auto simp: server_step_def server_oob_def frame_found_def Let_def split: option.splits)
  next
    case PW_STATE_READY
    with fault p server_ready_fault [OF assms(1)] show ?thesis
      by (auto simp: server_step_def server_oob_def frame_found_def Let_def split: option.splits)
  qed (simp_all add: server_step_def server_oob_def split: option.splits)
qed

section \<open>What has been heard before a session is authenticated\<close>

text \<open>The bearer request for the secret token, as a run of bytes within what has been received.\<close>

definition token_request :: "byte list" where
  "token_request = auth_bytes (PW_AUTH_METHOD_BEARER, secret_token)"

definition unauthenticated :: "session \<Rightarrow> bool" where
  "unauthenticated se \<longleftrightarrow> state_of se = PW_STATE_HANDSHAKING \<or> state_of se = PW_STATE_AUTHENTICATING"

lemma sublist_bytes_at: "sublist (bytes_at xs n k) xs"
  unfolding bytes_at_def
  by (rule sublist_order.order_trans [OF sublist_take sublist_drop])

lemma sublist_of_rest: "sublist xs (drop n ys) \<Longrightarrow> sublist xs (ys @ zs)"
  by (meson sublist_append_rightI sublist_drop sublist_order.order_trans)

lemma server_auth_frame_states:
  assumes "server_auth_frame req n f se = Some se1" and "state_of se = PW_STATE_AUTHENTICATING"
  shows "state_of se1 = PW_STATE_AUTHENTICATING \<or> state_of se1 = PW_STATE_READY"
  using assms by (auto simp: server_auth_frame_def goto_state_eq lifecycle.simps split: if_splits bind_splits)

lemma server_step_leaves:
  assumes "server_step ev se = Some (c, se')" and "session_inv se" and "unauthenticated se" and "\<not> unauthenticated se'"
  shows "sublist token_request (unread (se_tr se))"
proof -
  let ?tr = "se_tr se" and ?k = "tr_read_len (se_tr se)"
  have st: "state_of se = PW_STATE_AUTHENTICATING"
    using assms(1,3,4)
    by (auto simp: unauthenticated_def server_step_def server_handshaking_def Let_def goto_state_eq lifecycle.simps
        split: bind_splits if_splits)
  with assms(1) have b: "frame_branch (pe_frame ev ?k) (server_auth_frame (pe_request ev ?k)) se = Some (c, se')"
    by (simp add: server_step_def Let_def)
  have "se' \<noteq> se" using st assms(4) by (auto simp: unauthenticated_def)
  with b obtain n f se1 where p: "parse_frame (pe_frame ev ?k) ?tr = Some (Some (n, f))"
    and a: "server_auth_frame (pe_request ev ?k) n f se = Some se1" and s: "state_of se' = state_of se1"
    by (auto simp: frame_branch_def split: bind_splits option.splits)
  have r: "state_of se1 = PW_STATE_READY"
    using server_auth_frame_states [OF a st] s assms(4) by (simp add: unauthenticated_def)
  have ok: "reading_ok ?tr" using assms(2) by (simp add: session_inv_def)
  have "state_of se \<noteq> PW_STATE_READY" using st by simp
  from server_auth_frame_ready [OF ok p a this r]
  have n: "n + 17 \<le> ?k" and q: "bytes_at (tr_read_buffer ?tr) (tr_read_pos ?tr + n) 17 = token_request"
    by (simp_all add: token_request_def)
  have "bytes_at (unread ?tr) n 17 = token_request"
    using n q by (simp add: unread_def bytes_at_bytes_at)
  then show ?thesis by (metis sublist_bytes_at)
qed

lemma server_path_token:
  assumes "path server_step E se bs se'" and "session_inv se" and "\<forall>ev \<in> E. polite ev" and "unauthenticated se"
  shows "unauthenticated se' \<or> sublist token_request (unread (se_tr se) @ bs)"
  using assms(1)
proof (induction rule: path.induct)
  case start
  then show ?case using assms(4) by simp
next
  case (further bs se1 ev cs se2)
  from server_run.path_inv [OF further.hyps(1) assms(2,3)] obtain n where
    n: "session_inv se1" "unread (se_tr se1) = drop n (unread (se_tr se) @ bs)" by blast
  show ?case
  proof (cases "unauthenticated se1")
    case True
    from further.hyps(3) show ?thesis
    proof cases
      case (turns c)
      show ?thesis
      proof (cases "unauthenticated se2")
        case False
        have "sublist token_request (drop n (unread (se_tr se) @ bs))"
          using server_step_leaves [OF turns(3) n(1) True False] unfolding n(2) .
        then have "sublist token_request ((unread (se_tr se) @ bs) @ cs)" by (rule sublist_of_rest)
        then show ?thesis by simp
      qed simp
    next
      case reads
      with True show ?thesis by (simp add: unauthenticated_def)
    next
      case writes
      with True poll_write_state [OF writes(2)] show ?thesis by (auto simp: unauthenticated_def)
    qed
  next
    case False
    with further.IH have "sublist token_request (unread (se_tr se) @ bs)" by simp
    then have "sublist token_request ((unread (se_tr se) @ bs) @ cs)"
      by (rule sublist_of_rest [of _ 0, unfolded drop_0])
    then show ?thesis by simp
  qed
qed

section \<open>Sessions whose writes are whole\<close>

text \<open>Stack contents that cannot make wrong magic pass for an AUTH frame.\<close>

definition harmless_stack :: "poll_event \<Rightarrow> bool" where
  "harmless_stack ev \<longleftrightarrow> (\<forall>k. client_hello_wf (pe_client_hello ev k) \<and>
     (unat (fr_length (pe_frame ev k)) < 5 \<or> k + 1 < unat (fr_length (pe_frame ev k))))"

lemma frame_dec_error_length: "frame_dec bs junk = (SIZE_MAX, f) \<Longrightarrow> fr_length f = fr_length junk"
proof -
  assume d: "frame_dec bs junk = (SIZE_MAX, f)"
  have l: "5 \<le> length bs"
  proof (rule ccontr)
    assume "\<not> 5 \<le> length bs"
    with d show False by (simp add: frame_dec_def SIZE_MAX_def)
  qed
  have "bs ! 0 \<noteq> PW_MAGIC_BYTE_1 \<or> bs ! 1 \<noteq> PW_MAGIC_BYTE_2"
    using frame_dec_good_magic [OF d] by (auto simp: SIZE_MAX_def)
  from frame_dec_bad_magic [OF l this, of junk] d show ?thesis by auto
qed

lemma server_unauthenticated_total:
  assumes "session_inv se" and "unauthenticated se" and "harmless_stack ev"
  shows "\<exists>r. server_step ev se = Some r"
proof -
  let ?k = "tr_read_len (se_tr se)"
  have wf: "client_hello_wf (pe_client_hello ev ?k)" using assms(3) by (simp add: harmless_stack_def)
  have ok: "reading_ok (se_tr se)" using assms(1) by (simp add: session_inv_def)
  have "\<not> server_oob ev se"
  proof
    assume oob: "server_oob ev se"
    from parse_frame_total [OF ok] obtain found where
      "parse_frame (pe_frame ev ?k) (se_tr se) = Some found" by blast
    with oob assms(2) obtain f where p: "parse_frame (pe_frame ev ?k) (se_tr se) = Some (Some (SIZE_MAX, f))"
      and len: "5 \<le> unat (fr_length f)"
      by (auto simp: server_oob_def frame_found_def unauthenticated_def split: option.splits if_splits)
    obtain g where "frame_dec (unread (se_tr se)) (pe_frame ev ?k) = (SIZE_MAX, g)" "g = f"
      using p ok by (auto simp: parse_frame_dec split: prod.splits if_splits)
    then have "fr_length f = fr_length (pe_frame ev ?k)" using frame_dec_error_length by blast
    moreover have "unat (fr_length f) - 1 \<le> ?k"
      using parse_frame_found [OF p ok] parse_frame_consumes [OF p] by simp
    ultimately have "5 \<le> unat (fr_length (pe_frame ev ?k))" "unat (fr_length (pe_frame ev ?k)) \<le> ?k + 1"
      using len by simp_all
    with assms(3) show False unfolding harmless_stack_def by (meson not_le)
  qed
  with server_step_fault [OF assms(1) wf] show ?thesis by auto
qed

lemma bring_polite:
  "polite (bring bs ev)" "whole_send (bring bs ev)" "harmless_stack (bring bs ev) = harmless_stack ev"
  by (simp_all add: polite_def whole_send_def harmless_stack_def bring_def recv_ok_def send_ok_def)

lemma harmless_quiet: "harmless_stack quiet_poll"
  by (simp add: harmless_stack_def quiet_poll_def frame_zero_def frame_init_def)

lemma heard_brought:
  assumes "open_session se" and "0 \<le> tr_fd (se_tr se)" and "tr_read_len (se_tr se) = 0" and "length bs \<le> 4096"
  shows "heard server_round [bring bs ev] se = bs"
  using assms
  by (auto simp: hears_def received_by_def bring_def open_session_def split: option.splits bool.splits)

section \<open>Properties\<close>

text \<open>C5: The exact condition under which a turn of the server leaves an array, in every state of the buffers
  that a session can reach and for every content of the uninitialised locals. Waiting for a hello it
  never does. Waiting for authentication it does exactly when the bytes of an AUTH code come with wrong
  magic, the length that the stack contained is at least 5, and minus one it is at most what has been received. Ready,
  exactly when a data frame has come whose magic is wrong in that way, whose payload exceeds 128 bytes or
  fills the 128 bytes without a zero, or whose echo does not fit behind what is queued.\<close>

theorem server_turn_faults:
  assumes "session_inv se" and "client_hello_wf (pe_client_hello ev (tr_read_len (se_tr se)))"
  shows "server_step ev se = None \<longleftrightarrow>
    (case frame_found ev se of
       None \<Rightarrow> False
     | Some (n, f) \<Rightarrow>
         (if state_of se = PW_STATE_AUTHENTICATING
          then fr_opcode f = opcode_byte PW_OPCODE_AUTH \<and> n = SIZE_MAX \<and> 5 \<le> unat (fr_length f)
          else state_of se = PW_STATE_READY \<and> is_data f \<and>
            (n = SIZE_MAX \<or> 128 < unat (fr_length f) \<or>
             unat (fr_length f) = 128 \<and> 0 \<notin> set (bytes_at (tr_read_buffer (se_tr se)) (tr_read_pos (se_tr se) + n) 128) \<or>
             4096 < header_end se f + unat (fr_length f))))"
  using server_step_fault [OF assms] unfolding server_oob_def .

theorem server_turn_faults_witness:
  "let se = \<lparr>se_conn = \<lparr>conn_state = PW_STATE_AUTHENTICATING\<rparr>, se_tr = transport_with [0, 0, 0, 0, 6]\<rparr>;
       ev = quiet_poll\<lparr>pe_frame := (\<lambda>k. frame_init 0 0 PW_OPCODE_CONTROL 0 6)\<rparr>
   in server_step ev se = None \<and> server_step quiet_poll se \<noteq> None"
proof -
  define se where "se = \<lparr>se_conn = \<lparr>conn_state = PW_STATE_AUTHENTICATING\<rparr>, se_tr = transport_with [0, 0, 0, 0, 6]\<rparr>"
  define ev where "ev = quiet_poll\<lparr>pe_frame := (\<lambda>k. frame_init 0 0 PW_OPCODE_CONTROL 0 6)\<rparr>"
  have inv: "session_inv se" by (simp add: se_def session_inv_def)
  have wf: "client_hello_wf (pe_client_hello ev k)" "client_hello_wf (pe_client_hello quiet_poll k)" for k
    by (simp_all add: ev_def quiet_poll_def)
  have r: "reading_ok (transport_with [0, 0, 0, 0, 6])" by simp
  have s: "size_add SIZE_MAX 6 = 5" "size_add SIZE_MAX 0 = SIZE_MAX"
    by (simp_all add: size_add_def SIZE_MAX_def)
  have "frame_found ev se = Some (SIZE_MAX, (frame_init 0 0 PW_OPCODE_AUTH 0 6))"
    using s by (simp add: frame_found_def se_def ev_def parse_frame_dec [OF r] frame_dec_bad_magic)
      (simp add: frame_init_def SIZE_MAX_def)
  with server_turn_faults [OF inv wf(1)] have "server_step ev se = None"
    by (simp add: se_def frame_init_def)
  moreover have "frame_found quiet_poll se = None"
    using s by (simp add: frame_found_def se_def quiet_poll_def parse_frame_dec [OF r] frame_dec_bad_magic frame_zero_def)
      (simp add: frame_init_def SIZE_MAX_def)
  with server_turn_faults [OF inv wf(2)] have "server_step quiet_poll se \<noteq> None" by simp
  ultimately show ?thesis unfolding se_def [symmetric] ev_def [symmetric] Let_def by blast
qed

text \<open>C1: No session is authenticated without the secret: if a session that was waiting for the hello or
  for authentication is in any other state after any number of rounds, then the bearer request with
  exactly the secret token is a run of bytes in what the client has sent to it. This holds whatever else
  it has sent, in whatever pieces, however the writes went and whatever the uninitialised locals held.\<close>

theorem server_needs_token:
  assumes "server_session evs se = Some se'" and "session_inv se" and "\<forall>ev \<in> set evs. polite ev"
    and "state_of se \<in> {PW_STATE_HANDSHAKING, PW_STATE_AUTHENTICATING}"
    and "state_of se' \<notin> {PW_STATE_HANDSHAKING, PW_STATE_AUTHENTICATING}"
  shows "sublist (auth_bytes (PW_AUTH_METHOD_BEARER, secret_token)) (unread (se_tr se) @ heard server_round evs se)"
  using server_path_token [OF server_run.session_path [OF assms(1)] assms(2,3)] assms(4,5)
  by (auto simp: unauthenticated_def token_request_def)

theorem server_needs_token_witness:
  "let se = \<lparr>se_conn = \<lparr>conn_state = PW_STATE_AUTHENTICATING\<rparr>, se_tr = transport_with []\<rparr>;
       ev = bring client_auth_message quiet_poll
   in \<exists>se'. server_session [ev] se = Some se' \<and> state_of se' = PW_STATE_READY \<and>
        sublist (auth_bytes (PW_AUTH_METHOD_BEARER, secret_token)) client_auth_message"
proof -
  define se where "se = \<lparr>se_conn = \<lparr>conn_state = PW_STATE_AUTHENTICATING\<rparr>, se_tr = transport_with []\<rparr>"
  define ev where "ev = bring client_auth_message quiet_poll"
  let ?f = "frame_init PW_VERSION_1 PW_FLAG_FIN PW_OPCODE_AUTH 0 17"
  let ?pl = "auth_bytes (PW_AUTH_METHOD_BEARER, secret_token)"
  have l: "length client_auth_message \<le> 4096" "client_auth_message \<noteq> []"
    using length_client_auth_message by (simp_all add: client_auth_message_def)
  have o1: "open_session se" and i: "idle (se_tr se)" by (simp_all add: open_session_def idle_def se_def)
  from server_run_bring [OF o1 i l(2,1), of quiet_poll] obtain tr where tr: "arrived client_auth_message tr"
    and run: "server_session [ev] se = server_read_loop ev (se\<lparr>se_tr := tr\<rparr>)" unfolding ev_def by blast
  from arrived_read_len [OF tr] l(2) have ne: "tr_read_len tr \<noteq> 0" by simp
  have "grants secret_token ?pl" by (simp add: grants_def length_auth_bytes secret_token_ok(3))
  moreover have "is_message ?f ?pl" "fr_opcode ?f = opcode_byte PW_OPCODE_AUTH"
    by (simp_all add: is_message_def frame_init_def length_auth_bytes secret_token_ok(3))
  ultimately obtain se1 where s: "server_step ev (se\<lparr>se_tr := tr\<rparr>) = Some (True, se1)" "state_of se1 = PW_STATE_READY"
      "tr_read_len (se_tr se1) = 0"
    using server_auth_step [of "se\<lparr>se_tr := tr\<rparr>" ?f ?pl "[]" ev] arrivedD [OF tr]
      consume_ok(3) [of tr "length client_auth_message"] tr
    by (auto simp: se_def Let_def client_auth_message_def arrived_def writable_def)
  then have r: "server_session [ev] se = Some se1"
    using run ne by (simp add: server_read_loop.simps [of ev])
  have "sublist ?pl (unread (se_tr se) @ heard server_round [ev] se)"
    using r s(2) bring_polite(1)
    by (intro server_needs_token [of "[ev]" se se1]) (simp_all add: se_def session_inv_def ev_def)
  also have "unread (se_tr se) @ heard server_round [ev] se = client_auth_message"
    using heard_brought [OF o1 _ _ l(1), of quiet_poll] by (simp add: ev_def se_def)
  finally show ?thesis
    using r s(2) unfolding se_def [symmetric] ev_def [symmetric] Let_def by auto
qed

text \<open>C6: Without the secret a client can neither get in nor break anything: when the writes of the server
  are taken whole or not at all, and the stack does not hold a length that makes wrong magic pass for an
  AUTH frame, then a session over any number of rounds, in which the client sends whatever it likes
  except the bearer request with the token, stays in bounds throughout, keeps the invariant of the
  buffers, and is still unauthenticated at its end.\<close>

theorem server_safe_without_token:
  assumes "session_inv se" and "state_of se \<in> {PW_STATE_HANDSHAKING, PW_STATE_AUTHENTICATING}"
    and "tr_write_pos (se_tr se) = 0"
    and "\<forall>ev \<in> set evs. polite ev \<and> whole_send ev \<and> harmless_stack ev"
    and "\<not> sublist (auth_bytes (PW_AUTH_METHOD_BEARER, secret_token)) (unread (se_tr se) @ heard server_round evs se)"
  shows "\<exists>se'. server_session evs se = Some se' \<and> session_inv se' \<and>
    state_of se' \<in> {PW_STATE_HANDSHAKING, PW_STATE_AUTHENTICATING}"
proof -
  have u: "unauthenticated se" using assms(2) by (simp add: unauthenticated_def)
  have p: "\<forall>ev \<in> set evs. polite ev" using assms(4) by blast
  have no: "\<not> sublist token_request (unread (se_tr se) @ bs)" if "heard server_round evs se = bs @ cs" for bs cs
    using assms(5) that by (metis append.assoc sublist_append_rightI sublist_order.order_trans token_request_def)
  show ?thesis
  proof (cases "server_session evs se")
    case (Some se')
    with server_run.session_keeps_inv [OF Some assms(1) p]
      server_path_token [OF server_run.session_path [OF Some] assms(1) p u] no [of _ "[]"]
    show ?thesis by (auto simp: unauthenticated_def)
  next
    case None
    from server_run.session_fault [OF None assms(1) p] obtain ev se1 bs cs where
      f: "ev \<in> set evs" "path server_step (set evs) se bs se1" "heard server_round evs se = bs @ cs"
        "session_inv se1" "tr_read_len (se_tr se1) \<noteq> 0 \<and> server_step ev se1 = None \<or>
          4096 < tr_write_pos (se_tr se1) + tr_write_len (se_tr se1)" by blast
    have "unauthenticated se1" using server_path_token [OF f(2) assms(1) p u] no [OF f(3)] by blast
    with server_unauthenticated_total [OF f(4)] f(1) assms(4) have "server_step ev se1 \<noteq> None" by blast
    moreover have "tr_write_pos (se_tr se1) = 0"
      using server_run.path_write_pos [OF f(2) assms(1) _ assms(3)] assms(4) by blast
    ultimately show ?thesis using f(4,5) by (simp add: session_inv_def writing_ok_def)
  qed
qed

theorem server_safe_without_token_witness:
  "let se = \<lparr>se_conn = \<lparr>conn_state = PW_STATE_AUTHENTICATING\<rparr>, se_tr = transport_with []\<rparr>
   in \<exists>se'. server_session [bring [0, 0, 0, 0, 6] quiet_poll] se = Some se' \<and>
        state_of se' \<in> {PW_STATE_HANDSHAKING, PW_STATE_AUTHENTICATING}"
proof -
  define se where "se = \<lparr>se_conn = \<lparr>conn_state = PW_STATE_AUTHENTICATING\<rparr>, se_tr = transport_with []\<rparr>"
  let ?ev = "bring [0, 0, 0, 0, 6] quiet_poll"
  have "heard server_round [?ev] se = [0, 0, 0, 0, 6]"
    by (rule heard_brought) (simp_all add: se_def open_session_def)
  then have "unread (se_tr se) @ heard server_round [?ev] se = [0, 0, 0, 0, 6]" by (simp add: se_def)
  moreover have "\<not> sublist (auth_bytes (PW_AUTH_METHOD_BEARER, secret_token)) [0, 0, 0, 0, 6]"
    by (auto dest: sublist_length_le simp: length_auth_bytes secret_token_ok(3))
  ultimately have "\<exists>se'. server_session [?ev] se = Some se' \<and> session_inv se' \<and>
      state_of se' \<in> {PW_STATE_HANDSHAKING, PW_STATE_AUTHENTICATING}"
    using bring_polite harmless_quiet
    by (intro server_safe_without_token) (simp_all add: se_def session_inv_def)
  then show ?thesis unfolding se_def [symmetric] Let_def by blast
qed

end
