(* ===== verification/PW_Client_Run.thy ===== *)
theory PW_Client_Run
  imports PW_Dialogue PW_Run
begin

text \<open>
  Whole sessions of the client, \<open>native/src/client_main.c\<close>: the interpretation of \<open>poll_program\<close>, and the
  exact condition under which a turn of the client leaves an array.
\<close>

section \<open>The client as a program\<close>

lemma client_handshaking_parse:
  assumes "session_inv se" and "server_hello_wf junk"
  shows "pw_handshake_parse_server_hello (tr_read_buffer (se_tr se)) (tr_read_pos (se_tr se)) (tr_read_len (se_tr se)) junk =
    Some (server_hello_dec (unread (se_tr se)) junk)"
  using assms parse_server_hello_dec [of "tr_read_pos (se_tr se)" "tr_read_len (se_tr se)" "tr_read_buffer (se_tr se)" junk]
  by (simp add: session_inv_def reading_ok_def unread_def)

lemma client_handshaking_consumes:
  assumes "client_handshaking junk se = Some (c, se')" and "session_inv se"
  shows "session_inv se' \<and> (\<exists>n. unread (se_tr se') = drop n (unread (se_tr se)))"
proof -
  let ?tr = "se_tr se"
  from assms(1) obtain n sh where
    p: "pw_handshake_parse_server_hello (tr_read_buffer ?tr) (tr_read_pos ?tr) (tr_read_len ?tr) junk = Some (n, sh)"
    by (auto simp: client_handshaking_def Let_def split: bind_splits)
  show ?thesis
  proof (cases "0 < n")
    case False
    with assms(1) p have "se' = se" by (simp add: client_handshaking_def Let_def)
    with assms(2) show ?thesis by (auto intro: exI [of _ 0])
  next
    case True
    let ?t = "transport_consume ?tr n"
    have n: "n \<le> tr_read_len ?tr" using parse_server_hello_bound [OF p] .
    from assms(2) have r: "reading_ok ?tr" "writing_ok ?tr" "0 \<le> tr_fd ?tr" by (simp_all add: session_inv_def)
    note t = consume_any [OF r(1) n]
    from assms(1) p True obtain f t1 src m where
      s: "send_header f ?t = Some t1" "send_bytes src 0 m t1 = Some (se_tr se')"
      by (auto simp: client_handshaking_def Let_def split: bind_splits if_splits)
    from send_header_keeps [OF s(1)] t(3) r(2) have k1: "keeps_reading ?t t1" "writing_ok t1" by simp_all
    from send_bytes_keeps [OF s(2) k1(2)] have k2: "keeps_reading t1 (se_tr se')" "writing_ok (se_tr se')" by simp_all
    note k = keeps_readingD [OF keeps_reading_trans [OF k1(1) k2(1)]]
    show ?thesis using k k2(2) t r(3) by (auto simp: session_inv_def)
  qed
qed

lemma client_acts_keep:
  assumes "session_inv se"
  shows "client_auth_frame n f se = Some se1 \<Longrightarrow> keeps_reading (se_tr se) (se_tr se1) \<and> writing_ok (se_tr se1)"
    and "client_ready_frame n f se = Some se1 \<Longrightarrow> keeps_reading (se_tr se) (se_tr se1) \<and> writing_ok (se_tr se1)"
proof -
  have w: "writing_ok (se_tr se)" using assms by (simp add: session_inv_def)
  show "client_auth_frame n f se = Some se1 \<Longrightarrow> keeps_reading (se_tr se) (se_tr se1) \<and> writing_ok (se_tr se1)"
    using w by (auto simp: client_auth_frame_def split: if_splits bind_splits
        dest!: send_header_keeps send_bytes_keeps intro: keeps_reading_trans)
  show "client_ready_frame n f se = Some se1 \<Longrightarrow> keeps_reading (se_tr se) (se_tr se1) \<and> writing_ok (se_tr se1)"
    using w by (auto simp: client_ready_frame_def Let_def split: if_splits bind_splits dest!: send_header_keeps)
qed

lemma client_step_consumes:
  assumes "session_inv se" and "client_step ev se = Some (c, se')"
  shows "session_inv se' \<and> (\<exists>n. unread (se_tr se') = drop n (unread (se_tr se)))"
proof (cases "state_of se")
  case PW_STATE_HANDSHAKING
  with assms(2) have "client_handshaking (pe_server_hello ev (tr_read_len (se_tr se))) se = Some (c, se')"
    by (simp add: client_step_def)
  then show ?thesis using assms(1) by (rule client_handshaking_consumes)
next
  case PW_STATE_AUTHENTICATING
  with assms(2) have "frame_branch (pe_frame ev (tr_read_len (se_tr se))) client_auth_frame se = Some (c, se')"
    by (simp add: client_step_def Let_def)
  then show ?thesis using assms(1) client_acts_keep(1) [OF assms(1)] by (rule frame_branch_consumes)
next
  case PW_STATE_READY
  with assms(2) have "frame_branch (pe_frame ev (tr_read_len (se_tr se))) client_ready_frame se = Some (c, se')"
    by (simp add: client_step_def Let_def)
  then show ?thesis using assms(1) client_acts_keep(2) [OF assms(1)] by (rule frame_branch_consumes)
qed (use assms in \<open>auto simp: client_step_def intro: exI [of _ 0]\<close>)

lemma client_act_write_pos:
  "client_auth_frame n f se = Some se1 \<Longrightarrow> tr_write_pos (se_tr se1) = tr_write_pos (se_tr se)"
  "client_ready_frame n f se = Some se1 \<Longrightarrow> tr_write_pos (se_tr se1) = tr_write_pos (se_tr se)"
  by (auto simp: client_auth_frame_def client_ready_frame_def Let_def split: if_splits bind_splits
      dest!: send_write_pos)

lemma client_step_write_pos:
  assumes "client_step ev se = Some (c, se')"
  shows "tr_write_pos (se_tr se') = tr_write_pos (se_tr se)"
proof (cases "state_of se")
  case PW_STATE_HANDSHAKING
  with assms show ?thesis
    by (auto simp: client_step_def client_handshaking_def Let_def transport_consume_def
        dest!: send_write_pos split: bind_splits if_splits)
next
  case PW_STATE_AUTHENTICATING
  with assms show ?thesis
    by (auto simp: client_step_def Let_def intro: frame_branch_write_pos client_act_write_pos(1))
next
  case PW_STATE_READY
  with assms show ?thesis
    by (auto simp: client_step_def Let_def intro: frame_branch_write_pos client_act_write_pos(2))
qed (use assms in \<open>auto simp: client_step_def\<close>)

interpretation client_loop: read_loop client_step client_read_loop
  by unfold_locales (rule client_read_loop.simps, rule client_step_read_len)

lemma client_round_halves:
  "client_round ev se =
     (if pe_result ev < 0 then Some (False, se)
      else do {
        se1 \<leftarrow> (if pe_out ev \<and> 0 < tr_write_len (se_tr se) then poll_write ev se else Some se);
        read_half client_read_loop ev se1 })"
  by (simp add: client_round_def read_half_def Let_def)

interpretation client_run: poll_program client_step client_read_loop client_round client_session
proof unfold_locales
  fix ev c and se se' :: session
  assume r: "client_round ev se = Some (c, se')"
  show "path client_step {ev} se (hears ev se) se'"
  proof (cases "pe_result ev < 0")
    case True
    with r show ?thesis by (simp add: client_round_halves hears_def path.start)
  next
    case False
    with client_loop.write_then_read_path [of "pe_out ev \<and> 0 < tr_write_len (se_tr se)" ev se c se'] r
    show ?thesis by (simp add: client_round_halves)
  qed
next
  fix ev and se :: session
  assume r: "client_round ev se = None"
  then have "\<not> pe_result ev < 0" by (auto simp: client_round_halves)
  with client_loop.write_then_read_stuck [of "pe_out ev \<and> 0 < tr_write_len (se_tr se)" ev se] r
  show "\<exists>se1 bs cs. path client_step {ev} se bs se1 \<and> hears ev se = bs @ cs \<and> stuck client_step ev se1"
    by (simp add: client_round_halves)
qed (simp_all add: client_step_consumes client_step_write_pos)

section \<open>When a turn leaves an array\<close>

lemma server_hello_dec_taken:
  "server_hello_dec bs junk = (n, h) \<Longrightarrow> n = (if length bs < 42 then 0 else 42)"
  by (auto simp: server_hello_dec_def Let_def split: if_splits)

lemma client_handshaking_fault:
  assumes "session_inv se" and "server_hello_wf junk"
  shows "client_handshaking junk se = None \<longleftrightarrow> 42 \<le> tr_read_len (se_tr se) \<and>
    4096 < header_end se (frame_init PW_VERSION_1 PW_FLAG_FIN PW_OPCODE_AUTH 0 17) + 17"
proof -
  let ?tr = "se_tr se" and ?f = "frame_init PW_VERSION_1 PW_FLAG_FIN PW_OPCODE_AUTH 0 17"
  obtain n h where d: "server_hello_dec (unread ?tr) junk = (n, h)" by (cases "server_hello_dec (unread ?tr) junk")
  have len: "length (unread ?tr) = tr_read_len ?tr" using assms(1) by (simp add: session_inv_def)
  from server_hello_dec_taken [OF d] have n: "n = (if tr_read_len ?tr < 42 then 0 else 42)" unfolding len .
  note p = client_handshaking_parse [OF assms, unfolded d]
  show ?thesis
  proof (cases "tr_read_len ?tr < 42")
    case True
    with p n show ?thesis by (simp add: client_handshaking_def Let_def)
  next
    case False
    let ?t = "transport_consume ?tr 42"
    let ?pl = "put_bytes (replicate 128 0) 0 (auth_bytes (PW_AUTH_METHOD_BEARER, secret_token))"
    have pl: "length ?pl = 128" by (simp add: length_put_bytes length_auth_bytes length_secret_token)
    have w: "writing_ok ?t" using consume_any(3) [of ?tr 42] False assms(1) by (simp add: session_inv_def)
    from send_header_end [of "\<lparr>se_conn = se_conn se, se_tr = ?t\<rparr>" ?f] w obtain t1 where
      t1: "send_header ?f ?t = Some t1" "length (tr_write_buffer t1) = 4096"
        "tr_write_len t1 = header_end \<lparr>se_conn = se_conn se, se_tr = ?t\<rparr> ?f" by auto
    have e: "header_end \<lparr>se_conn = se_conn se, se_tr = ?t\<rparr> ?f = header_end se ?f"
      by (simp add: header_end_def transport_consume_def)
    have "client_handshaking junk se = None \<longleftrightarrow> send_bytes ?pl 0 17 t1 = None"
      using p n False client_auth_payload t1(1) by (auto simp: client_handshaking_def Let_def split: bind_splits)
    with False t1(2,3) e pl show ?thesis by (auto simp: send_bytes_fault)
  qed
qed

lemma client_auth_fault:
  assumes "session_inv se"
  shows "client_auth_frame n f se = None \<longleftrightarrow>
    fr_opcode f = opcode_byte PW_OPCODE_AUTH_OK \<and> 4096 < header_end se client_data_frame + length client_msg"
proof -
  from assms have "writing_ok (se_tr se)" by (simp add: session_inv_def)
  from send_header_end [OF this, of client_data_frame] obtain t where
    "send_header client_data_frame (se_tr se) = Some t" "length (tr_write_buffer t) = 4096"
    "tr_write_len t = header_end se client_data_frame" by blast
  moreover from this have "client_auth_frame n f se = None \<longleftrightarrow>
      fr_opcode f = opcode_byte PW_OPCODE_AUTH_OK \<and> send_bytes client_msg 0 (length client_msg) t = None"
    by (auto simp: client_auth_frame_def split: bind_splits)
  ultimately show ?thesis by (simp add: send_bytes_fault)
qed

lemma client_ready_fault:
  assumes "session_inv se" and "parse_frame junk (se_tr se) = Some (Some (n, f))"
  shows "client_ready_frame n f se = None \<longleftrightarrow> fr_opcode f = opcode_byte PW_OPCODE_DATA_TEXT \<and>
    (n = SIZE_MAX \<or> 128 < unat (fr_length f) \<or>
     unat (fr_length f) = 128 \<and> 0 \<notin> set (bytes_at (tr_read_buffer (se_tr se)) (tr_read_pos (se_tr se) + n) 128))"
proof -
  from assms(1) have r: "length (tr_read_buffer (se_tr se)) = 4096" and ro: "reading_ok (se_tr se)"
    and w: "writing_ok (se_tr se)"
    by (simp_all add: session_inv_def reading_ok_def)
  have send: "\<exists>t. send_header g (se_tr se) = Some t" for g using send_header_end [OF w] by blast
  have source: "4096 < tr_read_pos (se_tr se) + n + unat (fr_length f) \<longleftrightarrow> n = SIZE_MAX"
    using parse_frame_found [OF assms(2) ro] by (auto simp: SIZE_MAX_def)
  show ?thesis
  proof (cases "fr_opcode f = opcode_byte PW_OPCODE_DATA_TEXT")
    case True
    with send [of "frame_init PW_VERSION_1 PW_FLAG_FIN PW_OPCODE_PING 0 0"]
    have "client_ready_frame n f se = None \<longleftrightarrow>
        print_payload (tr_read_buffer (se_tr se)) (tr_read_pos (se_tr se) + n) (unat (fr_length f)) = None"
      by (auto simp: client_ready_frame_def Let_def split: bind_splits)
    with True source r show ?thesis by (auto simp: print_payload_fault)
  next
    case False
    with send [of "frame_init PW_VERSION_1 PW_FLAG_FIN PW_OPCODE_CLOSE 0 0"] show ?thesis
      by (auto simp: client_ready_frame_def Let_def)
  qed
qed

text \<open>The condition in one place.\<close>

definition client_oob :: "poll_event \<Rightarrow> session \<Rightarrow> bool" where
  "client_oob ev se =
     (if state_of se = PW_STATE_HANDSHAKING
      then 42 \<le> tr_read_len (se_tr se) \<and>
        4096 < header_end se (frame_init PW_VERSION_1 PW_FLAG_FIN PW_OPCODE_AUTH 0 17) + 17
      else case frame_found ev se of
        None \<Rightarrow> False
      | Some (n, f) \<Rightarrow>
          (if state_of se = PW_STATE_AUTHENTICATING
           then fr_opcode f = opcode_byte PW_OPCODE_AUTH_OK \<and> 4096 < header_end se client_data_frame + length client_msg
           else state_of se = PW_STATE_READY \<and> fr_opcode f = opcode_byte PW_OPCODE_DATA_TEXT \<and>
             (n = SIZE_MAX \<or> 128 < unat (fr_length f) \<or>
              unat (fr_length f) = 128 \<and> 0 \<notin> set (bytes_at (tr_read_buffer (se_tr se)) (tr_read_pos (se_tr se) + n) 128))))"

lemma client_step_fault:
  assumes "session_inv se" and "server_hello_wf (pe_server_hello ev (tr_read_len (se_tr se)))"
  shows "client_step ev se = None \<longleftrightarrow> client_oob ev se"
proof -
  let ?k = "tr_read_len (se_tr se)"
  from assms(1) have ok: "reading_ok (se_tr se)" by (simp add: session_inv_def)
  from parse_frame_total [OF ok] obtain found where p: "parse_frame (pe_frame ev ?k) (se_tr se) = Some found" by blast
  note fault = frame_branch_fault [OF ok p]
  show ?thesis
  proof (cases "state_of se")
    case PW_STATE_HANDSHAKING
    with client_handshaking_fault [OF assms] show ?thesis by (simp add: client_step_def client_oob_def)
  next
    case PW_STATE_AUTHENTICATING
    with fault p client_auth_fault [OF assms(1)] show ?thesis
      by (auto simp: client_step_def client_oob_def frame_found_def Let_def split: option.splits)
  next
    case PW_STATE_READY
    with fault p client_ready_fault [OF assms(1)] show ?thesis
      by (auto simp: client_step_def client_oob_def frame_found_def Let_def split: option.splits)
  qed (simp_all add: client_step_def client_oob_def split: option.splits)
qed

section \<open>A client from its start\<close>

text \<open>Until it is ready a client queues only its hello, the token and the greeting, so nothing of that can
  pass the end of its buffer.\<close>

definition client_room :: "session \<Rightarrow> bool" where
  "client_room se \<longleftrightarrow>
     (state_of se = PW_STATE_HANDSHAKING \<longrightarrow> tr_write_len (se_tr se) \<le> 24) \<and>
     (state_of se = PW_STATE_AUTHENTICATING \<longrightarrow> tr_write_len (se_tr se) \<le> 56)"

lemma header_end_le: "header_end se f \<le> tr_write_len (se_tr se) + 15"
  using length_frame_header_bytes [of f] by (simp add: header_end_def Let_def)

lemma send_header_len:
  assumes "send_header f tr = Some tr'" and "writing_ok tr"
  shows "tr_write_len tr' \<le> tr_write_len tr + 15"
  using assms length_frame_header_bytes [of f]
  by (auto simp: send_header_eq writing_ok_def split: if_splits)

lemma send_bytes_len: "send_bytes src s n tr = Some tr' \<Longrightarrow> tr_write_len tr' = tr_write_len tr + n"
  by (auto simp: send_bytes_def split: bind_splits)

lemma client_handshaking_room:
  assumes "client_handshaking junk se = Some (c, se')" and "session_inv se" and "state_of se = PW_STATE_HANDSHAKING"
    and "tr_write_len (se_tr se) \<le> 24"
  shows "client_room se'"
proof -
  let ?tr = "se_tr se"
  from assms(1) obtain n sh where
    p: "pw_handshake_parse_server_hello (tr_read_buffer ?tr) (tr_read_pos ?tr) (tr_read_len ?tr) junk = Some (n, sh)"
    by (auto simp: client_handshaking_def Let_def split: bind_splits)
  show ?thesis
  proof (cases "0 < n")
    case False
    with assms(1) p have "se' = se" by (simp add: client_handshaking_def Let_def)
    with assms(3,4) show ?thesis by (simp add: client_room_def)
  next
    case True
    let ?t = "transport_consume ?tr n"
    from assms(1) p True client_auth_payload obtain t1 src where
      s: "send_header (frame_init PW_VERSION_1 PW_FLAG_FIN PW_OPCODE_AUTH 0 (of_nat 17)) ?t = Some t1"
        "send_bytes src 0 17 t1 = Some (se_tr se')"
      and c: "se_conn se' = goto_state PW_STATE_AUTHENTICATING (se_conn se)"
      by (auto simp: client_handshaking_def Let_def split: bind_splits if_splits)
    have "writing_ok ?t"
      using consume_any(3) [of ?tr n] parse_server_hello_bound [OF p] assms(2) by (simp add: session_inv_def)
    from send_header_len [OF s(1) this] send_bytes_len [OF s(2)] assms(3,4) c show ?thesis
      by (simp add: client_room_def transport_consume_def goto_state_eq lifecycle.simps)
  qed
qed

lemma client_step_room:
  assumes "client_step ev se = Some (c, se')" and "session_inv se" and "client_room se"
  shows "client_room se'"
proof (cases "state_of se")
  case PW_STATE_HANDSHAKING
  with assms client_handshaking_room [OF _ assms(2)] show ?thesis
    by (simp add: client_step_def client_room_def [of se])
next
  case PW_STATE_AUTHENTICATING
  with assms(1,3) show ?thesis
    by (auto simp: client_step_def client_room_def frame_branch_def client_auth_frame_def transport_consume_def
        goto_state_eq lifecycle.simps Let_def split: bind_splits option.splits if_splits)
next
  case PW_STATE_READY
  with assms(1) show ?thesis
    by (auto simp: client_step_def client_room_def frame_branch_def client_ready_frame_def
        goto_state_eq lifecycle.simps Let_def split: bind_splits option.splits if_splits)
qed (use assms in \<open>auto simp: client_step_def\<close>)

lemma client_path_room:
  assumes "path client_step E se bs se'" and "session_inv se" and "\<forall>ev \<in> E. polite ev" and "client_room se"
  shows "client_room se'"
proof (rule client_run.path_keeps [where P = client_room, OF assms])
  fix ev se1 cs se2
  assume a: "ev \<in> E" "session_inv se1" "client_room se1" "moves client_step ev se1 cs se2"
  from a(4) show "client_room se2"
  proof cases
    case (reads r e tr)
    with client_run.move_reads_same [OF a(2) _ reads(3)] a(1,3) assms(3) show ?thesis
      by (simp add: client_room_def same_writingD(4))
  next
    case (turns c)
    with client_step_room a(2,3) show ?thesis by blast
  next
    case writes
    have "tr_write_len (se_tr se2) \<le> tr_write_len (se_tr se1)"
      using poll_write_shrinks [OF writes(2)] a(1,2) assms(3) by (simp add: session_inv_def polite_def)
    with a(3) poll_write_state [OF writes(2)] show ?thesis by (auto simp: client_room_def)
  qed
qed

lemma client_room_no_fault:
  assumes "client_room se" and "client_oob ev se"
  shows "state_of se = PW_STATE_READY \<and> (\<exists>n f. frame_found ev se = Some (n, f) \<and>
    fr_opcode f = opcode_byte PW_OPCODE_DATA_TEXT \<and> (n = SIZE_MAX \<or> 128 \<le> unat (fr_length f)))"
proof -
  have "client_msg \<noteq> []" "length client_msg = 18" by (simp_all add: client_msg_def)
  with assms header_end_le [of se "frame_init PW_VERSION_1 PW_FLAG_FIN PW_OPCODE_AUTH 0 17"]
    header_end_le [of se client_data_frame] show ?thesis
    by (auto simp: client_oob_def client_room_def split: if_splits option.splits)
qed

section \<open>Rounds one after the other\<close>

lemma closed_session:
  "state_of se = PW_STATE_CLOSED \<or> state_of se = PW_STATE_DISCONNECTED \<Longrightarrow> client_session es se = Some se"
  by (cases es) auto

lemma client_session_flush:
  "client_session (flush ev # es) se = Option.bind (client_session [flush ev] se) (client_session es)"
proof (cases "state_of se = PW_STATE_CLOSED \<or> state_of se = PW_STATE_DISCONNECTED")
  case True
  then show ?thesis by (auto simp: closed_session)
next
  case False
  have "client_round (flush ev) se = None \<or> (\<exists>se'. client_round (flush ev) se = Some (True, se'))"
    by (auto simp: client_round_def flush_def Let_def split: bind_splits)
  with False show ?thesis by auto
qed

lemma client_round_bring:
  assumes "open_session se" and "idle (se_tr se)" and "bs \<noteq> []" and "length bs \<le> 4096"
  shows "\<exists>tr. arrived bs tr \<and> client_round (bring bs ev) se =
    Option.bind (client_read_loop (bring bs ev) (se\<lparr>se_tr := tr\<rparr>)) (\<lambda>se. Some (True, se))"
proof -
  from read_arrives [OF assms(2,4)] obtain tr where
    "arrived bs tr" "pw_transport_read (\<lambda>fd n. Received (take n bs) 0) (pe_errno ev) (Some (se_tr se)) = Some (int (length bs), 0, Some tr)"
    by blast
  then show ?thesis
    using assms(2,3) by (intro exI [of _ tr]) (auto simp: client_round_def bring_def Let_def idle_def)
qed

lemma client_session_bring:
  assumes "open_session se" and "idle (se_tr se)" and "bs \<noteq> []" and "length bs \<le> 4096"
  shows "client_session (bring bs ev # es) se = Option.bind (client_session [bring bs ev] se) (client_session es)"
proof -
  from client_round_bring [OF assms, of ev] obtain tr where
    "client_round (bring bs ev) se = Option.bind (client_read_loop (bring bs ev) (se\<lparr>se_tr := tr\<rparr>)) (\<lambda>se. Some (True, se))"
    by blast
  with assms(1) show ?thesis
    by (cases "client_read_loop (bring bs ev) (se\<lparr>se_tr := tr\<rparr>)") (auto simp: open_session_def)
qed

text \<open>A turn is two rounds of a session.\<close>

lemma client_turn_then:
  assumes "turn client_session ev bs se = Some (out, se2)" and "open_session se" and "idle (se_tr se)"
    and "bs \<noteq> []" and "length bs \<le> 4096"
  shows "client_session (bring bs ev # flush ev # es) se = client_session es se2"
proof -
  from assms(1) obtain se1 where "client_session [bring bs ev] se = Some se1" "client_session [flush ev] se1 = Some se2"
    by (auto simp: turn_def simp del: client_session.simps split: bind_splits)
  with client_session_bring [OF assms(2-5), of ev "flush ev # es"] client_session_flush [of ev es se1]
  show ?thesis by (simp del: client_session.simps)
qed

lemma client_flush_then:
  "client_session [flush ev] se = Some se1 \<Longrightarrow> client_session (flush ev # es) se = client_session es se1"
  using client_session_flush [of ev es se] by (simp del: client_session.simps)

lemma client_long_text:
  assumes "state_of se = PW_STATE_READY" and "idle (se_tr se)" and "bs \<noteq> []" and "length bs \<le> 4096"
    and "bs = frame_header_bytes f @ pl" and "is_message f pl" and "fr_opcode f = opcode_byte PW_OPCODE_DATA_TEXT"
    and "128 < length pl"
  shows "client_session [bring bs ev] se = None"
proof -
  have op: "open_session se" using assms(1) by (simp add: open_session_def)
  from client_run_bring [OF op assms(2-4), of ev] obtain tr where tr: "arrived bs tr"
    and run: "client_session [bring bs ev] se = client_read_loop (bring bs ev) (se\<lparr>se_tr := tr\<rparr>)" by blast
  have ok: "transport_ok tr" and u: "unread tr = frame_header_bytes f @ pl @ []"
    using tr assms(5) by (simp_all add: arrived_def writable_def)
  have "unat (fr_length f) = length pl" using assms(6) by (simp add: is_message_def)
  then have "client_ready_frame n (frame_received f junk) (se\<lparr>se_tr := tr\<rparr>) = None" for n junk
    using assms(7,8) by (simp add: client_ready_frame_def Let_def print_payload_overflow)
  with parse_frame_message(1) [OF ok u assms(6)] assms(1)
  have "client_step (bring bs ev) (se\<lparr>se_tr := tr\<rparr>) = None"
    by (simp add: client_step_def frame_branch_def Let_def)
  moreover have "tr_read_len tr \<noteq> 0" using arrived_read_len [OF tr] assms(3) by simp
  ultimately show ?thesis unfolding run by (simp add: client_read_loop.simps)
qed

lemma server_hello_wf_zero: "server_hello_wf server_hello_zero"
  by simp

text \<open>The client's way from its start to a ready session, as the rounds of one session.\<close>

lemma client_reaches_ready:
  assumes "length (tr_read_buffer jt) = 4096" and "length (tr_write_buffer jt) = 4096" and "0 \<le> sock"
    and "hello_junk ev" and "server_hello_wf h"
  shows "\<exists>c0 c3. client_start fcntl jt jc sock w = Some c0 \<and> state_of c3 = PW_STATE_READY \<and> idle (se_tr c3) \<and>
    (\<forall>es. client_session (flush ev # bring (server_hello_bytes h) ev # flush ev #
       bring (frame_bytes PW_OPCODE_AUTH_OK) ev # flush ev # es) c0 = client_session es c3)"
proof -
  from client_start_ok [OF assms(1-3), of fcntl jc w] obtain c0 where
    start: "client_start fcntl jt jc sock w = Some c0" and c0: "state_of c0 = PW_STATE_HANDSHAKING" "transport_ok (se_tr c0)"
      "tr_read_len (se_tr c0) = 0" "0 \<le> tr_fd (se_tr c0)" "unsent (se_tr c0) = client_hello_bytes client_hello_sent" by auto
  have "length (unsent (se_tr c0)) = 24" unfolding c0(5) by (simp add: client_hello_bytes_def client_hello_sent_def)
  then have l: "0 < tr_write_len (se_tr c0)" using c0(2) by simp
  have "open_session c0" using c0(1) by (simp add: open_session_def)
  from client.run_flush [OF this l] poll_write_flush [OF c0(2,4) l c0(3), of ev] c0(1) obtain t1 where
    t1: "idle t1" "client_session [flush ev] c0 = Some \<lparr>se_conn = se_conn c0, se_tr = t1\<rparr>"
    by (auto simp: closing_done_def)
  define c1 where "c1 = \<lparr>se_conn = se_conn c0, se_tr = t1\<rparr>"
  from client_turn_hello [of c1, OF _ _ assms(4,5)] c0(1) t1(1) obtain t2 where
    t2: "idle t2" "turn client_session ev (server_hello_bytes h) c1 = Some (client_auth_message,
      \<lparr>se_conn = (se_conn c1)\<lparr>conn_state := PW_STATE_AUTHENTICATING\<rparr>, se_tr = t2\<rparr>)"
    by (auto simp: c1_def)
  define c2 where "c2 = \<lparr>se_conn = (se_conn c1)\<lparr>conn_state := PW_STATE_AUTHENTICATING\<rparr>, se_tr = t2\<rparr>"
  let ?ok = "frame_init PW_VERSION_1 PW_FLAG_FIN PW_OPCODE_AUTH_OK 0 0"
  have "client_answer (state_of c2) ?ok = (frame_header_bytes client_data_frame @ client_msg, PW_STATE_READY)"
    by (simp add: c2_def client_answer_def frame_init_def)
  from client_turn_frame [of c2 ?ok "[]", OF _ _ _ _ this, of ev] t2(1) obtain t3 out where
    t3: "idle t3" "turn client_session ev (frame_bytes PW_OPCODE_AUTH_OK) c2 = Some (out,
      \<lparr>se_conn = (se_conn c2)\<lparr>conn_state := PW_STATE_READY\<rparr>, se_tr = t3\<rparr>)"
    by (auto simp: c2_def closing_done_def is_message_def frame_init_def)
  define c3 where "c3 = \<lparr>se_conn = (se_conn c2)\<lparr>conn_state := PW_STATE_READY\<rparr>, se_tr = t3\<rparr>"
  have o: "open_session c1" "idle (se_tr c1)" "open_session c2" "idle (se_tr c2)" "idle (se_tr c3)"
    "state_of c3 = PW_STATE_READY"
    using c0(1) t1(1) t2(1) t3(1) by (simp_all add: open_session_def c1_def c2_def c3_def)
  have len: "length (server_hello_bytes h) = 42" using assms(5) by (rule length_server_hello_bytes)
  have len': "length (frame_bytes PW_OPCODE_AUTH_OK) \<le> 15" "frame_bytes PW_OPCODE_AUTH_OK \<noteq> []"
    using length_frame_header_bytes by simp_all
  have "server_hello_bytes h \<noteq> []" using len by auto
  then have a1: "client_session (bring (server_hello_bytes h) ev # flush ev # es) c1 = client_session es c2" for es
    using client_turn_then [OF t2(2) o(1,2), folded c2_def] len by simp
  have a2: "client_session (bring (frame_bytes PW_OPCODE_AUTH_OK) ev # flush ev # es) c2 = client_session es c3" for es
    using client_turn_then [OF t3(2) o(3,4) len'(2), folded c3_def] len'(1) by simp
  have "client_session (flush ev # bring (server_hello_bytes h) ev # flush ev #
      bring (frame_bytes PW_OPCODE_AUTH_OK) ev # flush ev # es) c0 = client_session es c3" for es
    by (simp only: client_flush_then [OF t1(2), folded c1_def] a1 a2)
  with start o(5,6) show ?thesis by blast
qed

section \<open>Properties\<close>

text \<open>C17: From its start on a client leaves an array only on what a ready session is sent: with writes that are
  taken whole or not at all, over any number of rounds and for every content of the stack, the first
  access out of bounds is in a turn of a READY session on a text frame whose magic is wrong or whose
  payload has at least 128 bytes. What the client queues itself, hello, token, greeting and replies, never
  passes the end of its buffer.\<close>

theorem client_faults_only_on_payload:
  assumes "client_start fcntl jt jc sock w = Some c0"
    and "length (tr_read_buffer jt) = 4096" and "length (tr_write_buffer jt) = 4096" and "0 \<le> sock"
    and "\<forall>ev \<in> set evs. polite ev \<and> whole_send ev \<and> (\<forall>k. server_hello_wf (pe_server_hello ev k))"
    and "client_session evs c0 = None"
  shows "\<exists>ev \<in> set evs. \<exists>se bs cs. path client_step (set evs) c0 bs se \<and> heard client_round evs c0 = bs @ cs \<and>
    client_step ev se = None \<and> state_of se = PW_STATE_READY \<and>
    (\<exists>n f. frame_found ev se = Some (n, f) \<and> fr_opcode f = opcode_byte PW_OPCODE_DATA_TEXT \<and>
      (n = SIZE_MAX \<or> 128 \<le> unat (fr_length f)))"
proof -
  from client_start_ok [OF assms(2-4), of fcntl jc w] assms(1) have
    c0: "state_of c0 = PW_STATE_HANDSHAKING" "transport_ok (se_tr c0)" "tr_read_len (se_tr c0) = 0" "0 \<le> tr_fd (se_tr c0)"
      "unsent (se_tr c0) = client_hello_bytes client_hello_sent" "tr_write_pos (se_tr c0) = 0" by auto
  have inv: "session_inv c0" using c0(2,4) by (simp add: session_inv_def)
  have "length (unsent (se_tr c0)) = 24" unfolding c0(5) by (simp add: client_hello_bytes_def client_hello_sent_def)
  then have room: "client_room c0" using c0(1,2) by (simp add: client_room_def)
  have p: "\<forall>ev \<in> set evs. polite ev" and pw: "\<forall>ev \<in> set evs. polite ev \<and> whole_send ev" using assms(5) by blast+
  from client_run.session_fault [OF assms(6) inv p] obtain ev se bs cs where
    f: "ev \<in> set evs" "path client_step (set evs) c0 bs se" "heard client_round evs c0 = bs @ cs" "session_inv se"
      "tr_read_len (se_tr se) \<noteq> 0 \<and> client_step ev se = None \<or> 4096 < tr_write_pos (se_tr se) + tr_write_len (se_tr se)"
    by blast
  have "tr_write_pos (se_tr se) = 0" by (rule client_run.path_write_pos [OF f(2) inv pw c0(6)])
  with f(4,5) have s: "client_step ev se = None" by (auto simp: session_inv_def writing_ok_def)
  moreover have "server_hello_wf (pe_server_hello ev (tr_read_len (se_tr se)))" using f(1) assms(5) by blast
  ultimately have "client_oob ev se" using client_step_fault [OF f(4)] by blast
  note st = client_room_no_fault [OF client_path_room [OF f(2) inv p room] this]
  show ?thesis by (rule bexI [OF _ f(1)], (rule exI)+, intro conjI, rule f(2), rule f(3), rule s) (use st in blast)+
qed

theorem client_faults_only_on_payload_witness:
  "let ev = quiet_poll; f = frame_init 1 0x10 PW_OPCODE_DATA_TEXT 1 129;
       evs = [flush ev, bring (server_hello_bytes server_hello_zero) ev, flush ev,
              bring (frame_bytes PW_OPCODE_AUTH_OK) ev, flush ev,
              bring (frame_header_bytes f @ replicate 129 0x41) ev]
   in \<exists>c0 e se bs. client_start (\<lambda>fd cmd w. (0, w)) (transport_with [7]) \<lparr>conn_state = PW_STATE_CLOSED\<rparr> 5 () = Some c0 \<and>
        client_session evs c0 = None \<and> path client_step (set evs) c0 bs se \<and> client_step e se = None \<and>
        state_of se = PW_STATE_READY"
proof -
  define ev f where "ev = quiet_poll" and "f = frame_init 1 0x10 PW_OPCODE_DATA_TEXT 1 129"
  define m where "m = frame_header_bytes f @ replicate 129 0x41"
  define evs where "evs = [flush ev, bring (server_hello_bytes server_hello_zero) ev, flush ev,
    bring (frame_bytes PW_OPCODE_AUTH_OK) ev, flush ev, bring m ev]"
  let ?start = "client_start (\<lambda>fd cmd w. (0, w)) (transport_with [7]) \<lparr>conn_state = PW_STATE_CLOSED\<rparr> 5 ()"
  have jt: "length (tr_read_buffer (transport_with [7])) = 4096" "length (tr_write_buffer (transport_with [7])) = 4096"
    by (simp_all add: transport_with_def)
  have junk: "hello_junk ev" by (simp add: ev_def hello_junk_def quiet_poll_def)
  obtain c0 c3 where start: "?start = Some c0" and run: "client_session evs c0 = client_session [bring m ev] c3"
    and c3: "state_of c3 = PW_STATE_READY" "idle (se_tr c3)"
    using client_reaches_ready [OF jt _ junk server_hello_wf_zero, of 5 "\<lambda>fd cmd w. (0, w)" "\<lparr>conn_state = PW_STATE_CLOSED\<rparr>" "()"]
    by (auto simp: evs_def simp del: client_session.simps)
  have m: "m \<noteq> []" "length m \<le> 4096" using length_frame_header_bytes [of f] by (simp_all add: m_def)
  have "client_session [bring m ev] c3 = None"
    using client_long_text [OF c3 m, of f "replicate 129 0x41" ev]
    by (simp add: m_def f_def is_message_def frame_init_def del: client_session.simps)
  with run have none: "client_session evs c0 = None" by simp
  have "\<forall>ev \<in> set evs. polite ev \<and> whole_send ev \<and> (\<forall>k. server_hello_wf (pe_server_hello ev k))"
    by (simp add: evs_def ev_def bring_def flush_def polite_def whole_send_def recv_ok_def send_ok_def quiet_poll_def)
  from client_faults_only_on_payload [OF start jt _ this none] none start
  show ?thesis
    unfolding ev_def [symmetric] f_def [symmetric] m_def [symmetric] Let_def evs_def [symmetric] by force
qed

end
