(* ===== verification/PW_Output.thy ===== *)
theory PW_Output
  imports PW_Server_Run PW_Client_Run
begin

text \<open>
  What the sessions of the two programs print, \<open>server_main.c\<close> and \<open>client_main.c\<close>: per branch of the
  inner loop the lines of its calls of \<open>printf\<close>, then the lines of the loop, of a round and of a session,
  next to the functions that say what becomes of the session. \<open>None\<close> is an access out of bounds. The
  locale \<open>reporter\<close> is the contract of a program that prints; both programs are its interpretations.
\<close>

section \<open>The code\<close>

text \<open>Of the conversions of \<open>printf\<close> the programs use \<open>%u\<close>, \<open>%d\<close> and \<open>%zd\<close>, which are in PW_Prelude, and \<open>%s\<close> on \<open>char buf[128]\<close>,
  which is zero before the payload is copied into it.\<close>

definition payload_text :: "byte list \<Rightarrow> nat \<Rightarrow> nat \<Rightarrow> string option" where
  "payload_text src s n = do {
     buf \<leftarrow> memcpy (replicate 128 0) 0 src s n;
     k \<leftarrow> c_strlen buf;
     Some (map (\<lambda>b. char_of (unat b)) (take k buf))
   }"

definition text_line :: "string \<Rightarrow> string" where
  "text_line s = s @ [CHR 0x0A]"

text \<open>A branch that reads frames prints when there is a complete one.\<close>

definition frame_branch_prints ::
  "pw_frame \<Rightarrow> (nat \<Rightarrow> pw_frame \<Rightarrow> session \<Rightarrow> string list option) \<Rightarrow> session \<Rightarrow> string list option" where
  "frame_branch_prints junk act se = do {
     found \<leftarrow> parse_frame junk (se_tr se);
     (case found of Some (parsed, frame) \<Rightarrow> act parsed frame se | None \<Rightarrow> Some [])
   }"

definition server_handshaking_prints :: "pw_client_hello \<Rightarrow> session \<Rightarrow> string list option" where
  "server_handshaking_prints junk se = do {
     let tr = se_tr se;
     (parsed, ch) \<leftarrow> pw_handshake_parse_client_hello (tr_read_buffer tr) (tr_read_pos tr) (tr_read_len tr) junk;
     Some (if 0 < parsed
       then if ch_version ch \<noteq> PW_VERSION_1
         then [text_line (''Handshake rejected: unsupported protocol version '' @ decimal (unat (ch_version ch)) @ ''.'')]
         else [text_line ''Handshake complete.'']
       else [])
   }"

definition server_auth_prints :: "pw_auth_request \<Rightarrow> nat \<Rightarrow> pw_frame \<Rightarrow> session \<Rightarrow> string list option" where
  "server_auth_prints junk parsed frame se =
     (if fr_opcode frame = opcode_byte PW_OPCODE_AUTH
      then do {
        (k, req) \<leftarrow> pw_auth_parse_request (tr_read_buffer (se_tr se)) (tr_read_pos (se_tr se) + parsed)
                      (unat (fr_length frame)) junk;
        if k \<noteq> 0
        then do {
          ok \<leftarrow> pw_auth_validate_bearer (Some req) (Some (secret_token @ [0]));
          Some (if ok then [text_line ''Auth OK.''] else [text_line ''Auth Failed.''])
        }
        else Some []
      }
      else Some [])"

definition server_ready_prints :: "nat \<Rightarrow> pw_frame \<Rightarrow> session \<Rightarrow> string list option" where
  "server_ready_prints parsed frame se =
     (let tr = se_tr se
      in if fr_opcode frame = opcode_byte PW_OPCODE_DATA_BINARY \<or> fr_opcode frame = opcode_byte PW_OPCODE_DATA_TEXT
      then do {
        s \<leftarrow> payload_text (tr_read_buffer tr) (tr_read_pos tr + parsed) (unat (fr_length frame));
        Some [text_line (''Received data message ('' @ decimal (unat (fr_length frame)) @ '' bytes): '' @ s)]
      }
      else if fr_opcode frame = opcode_byte PW_OPCODE_PING
      then Some [text_line ''Received PING. Sending PONG...'']
      else if fr_opcode frame = opcode_byte PW_OPCODE_CLOSE
      then Some [text_line ''Received CLOSE.'']
      else Some [])"

definition client_handshaking_prints :: "pw_server_hello \<Rightarrow> session \<Rightarrow> string list option" where
  "client_handshaking_prints junk se = do {
     let tr = se_tr se;
     (parsed, sh) \<leftarrow> pw_handshake_parse_server_hello (tr_read_buffer tr) (tr_read_pos tr) (tr_read_len tr) junk;
     Some (if 0 < parsed then [text_line ''Handshake accepted.''] else [])
   }"

definition client_auth_prints :: "nat \<Rightarrow> pw_frame \<Rightarrow> session \<Rightarrow> string list option" where
  "client_auth_prints parsed frame se =
     Some (if fr_opcode frame = opcode_byte PW_OPCODE_AUTH_OK then [text_line ''Auth OK.''] else [])"

definition client_ready_prints :: "nat \<Rightarrow> pw_frame \<Rightarrow> session \<Rightarrow> string list option" where
  "client_ready_prints parsed frame se =
     (let tr = se_tr se
      in if fr_opcode frame = opcode_byte PW_OPCODE_DATA_TEXT
      then do {
        s \<leftarrow> payload_text (tr_read_buffer tr) (tr_read_pos tr + parsed) (unat (fr_length frame));
        Some [text_line (''Received Echo: '' @ s)]
      }
      else if fr_opcode frame = opcode_byte PW_OPCODE_PONG
      then Some [text_line ''Received PONG. Initiating graceful CLOSE.'']
      else if fr_opcode frame = opcode_byte PW_OPCODE_CLOSE
      then Some [text_line ''Server closed connection.'']
      else Some [])"

text \<open>The lines of a turn of the inner loop.\<close>

type_synonym printing = "poll_event \<Rightarrow> session \<Rightarrow> string list option"

definition server_prints :: printing where
  "server_prints ev se =
     (let k = tr_read_len (se_tr se)
      in case state_of se of
           PW_STATE_HANDSHAKING \<Rightarrow> server_handshaking_prints (pe_client_hello ev k) se
         | PW_STATE_AUTHENTICATING \<Rightarrow> frame_branch_prints (pe_frame ev k) (server_auth_prints (pe_request ev k)) se
         | PW_STATE_READY \<Rightarrow> frame_branch_prints (pe_frame ev k) server_ready_prints se
         | _ \<Rightarrow> Some [])"

definition client_prints :: printing where
  "client_prints ev se =
     (let k = tr_read_len (se_tr se)
      in case state_of se of
           PW_STATE_HANDSHAKING \<Rightarrow> client_handshaking_prints (pe_server_hello ev k) se
         | PW_STATE_AUTHENTICATING \<Rightarrow> frame_branch_prints (pe_frame ev k) client_auth_prints se
         | PW_STATE_READY \<Rightarrow> frame_branch_prints (pe_frame ev k) client_ready_prints se
         | _ \<Rightarrow> Some [])"

function server_loop_prints :: printing where
  "server_loop_prints ev se =
     (if tr_read_len (se_tr se) = 0 then Some []
      else case (server_prints ev se, server_step ev se) of
             (Some out, Some (go_on, se')) \<Rightarrow>
               if go_on \<and> tr_read_len (se_tr se') \<noteq> tr_read_len (se_tr se)
               then map_option (append out) (server_loop_prints ev se') else Some out
           | _ \<Rightarrow> None)"
  by pat_completeness auto
termination
  by (relation "measure (\<lambda>(ev, se). tr_read_len (se_tr se))")
    (auto dest: server_step_read_len [OF sym] intro: le_neq_implies_less)

function client_loop_prints :: printing where
  "client_loop_prints ev se =
     (if tr_read_len (se_tr se) = 0 then Some []
      else case (client_prints ev se, client_step ev se) of
             (Some out, Some (go_on, se')) \<Rightarrow>
               if go_on \<and> tr_read_len (se_tr se') \<noteq> tr_read_len (se_tr se)
               then map_option (append out) (client_loop_prints ev se') else Some out
           | _ \<Rightarrow> None)"
  by pat_completeness auto
termination
  by (relation "measure (\<lambda>(ev, se). tr_read_len (se_tr se))")
    (auto dest: client_step_read_len [OF sym] intro: le_neq_implies_less)

declare server_loop_prints.simps [simp del] client_loop_prints.simps [simp del]

text \<open>The read half of a round reports the end of the stream or an error, or runs the loop.\<close>

definition lost_line :: "string \<Rightarrow> int \<Rightarrow> int \<Rightarrow> string" where
  "lost_line who r errno =
     text_line (who @ '' disconnected (read '' @ signed_decimal r @ '', errno '' @ signed_decimal errno @ '').'')"

definition read_half_prints :: "string \<Rightarrow> printing \<Rightarrow> printing" where
  "read_half_prints who loop_prints ev se =
     (if pe_in ev
      then do {
        (r, errno, t) \<leftarrow> pw_transport_read (pe_recv ev) (pe_errno ev) (Some (se_tr se));
        tr \<leftarrow> t;
        if r \<le> 0 \<and> errno \<noteq> EAGAIN \<and> errno \<noteq> EWOULDBLOCK then Some [lost_line who r errno]
        else loop_prints ev (se\<lparr>se_tr := tr\<rparr>)
      }
      else Some [])"

definition server_round_prints :: printing where
  "server_round_prints ev se =
     (if pe_result ev < 0 then Some [] else read_half_prints ''Client'' server_loop_prints ev se)"

definition client_round_prints :: printing where
  "client_round_prints ev se =
     (if pe_result ev < 0 then Some []
      else do {
        se \<leftarrow> (if pe_out ev \<and> 0 < tr_write_len (se_tr se) then poll_write ev se else Some se);
        read_half_prints ''Server'' client_loop_prints ev se
      })"

text \<open>The lines of a session, in the rounds that it takes.\<close>

fun session_prints :: "program_step \<Rightarrow> printing \<Rightarrow> poll_event list \<Rightarrow> session \<Rightarrow> string list option" where
  "session_prints round prints [] se = Some []"
| "session_prints round prints (ev # evs) se =
     (if state_of se = PW_STATE_CLOSED \<or> state_of se = PW_STATE_DISCONNECTED then Some []
      else case (prints ev se, round ev se) of
             (Some out, Some (go_on, se')) \<Rightarrow>
               if go_on then map_option (append out) (session_prints round prints evs se') else Some out
           | _ \<Rightarrow> None)"

section \<open>The contract of a program that prints\<close>

text \<open>A turn whose session goes on prints; the lines of the loop are those of its turns; a round may write
  before it reads, as \<open>before\<close> says, and its read half prints.\<close>

locale reporter = poll_program +
  fixes turn_prints loop_prints round_prints :: printing
    and before :: "poll_event \<Rightarrow> session \<Rightarrow> session option"
    and who :: string
  assumes turn_total: "step ev se = Some x \<Longrightarrow> \<exists>out. turn_prints ev se = Some out"
    and loop_prints_unfold: "loop_prints ev se =
     (if tr_read_len (se_tr se) = 0 then Some []
      else case (turn_prints ev se, step ev se) of
             (Some out, Some (go_on, se')) \<Rightarrow>
               if go_on \<and> tr_read_len (se_tr se') \<noteq> tr_read_len (se_tr se)
               then map_option (append out) (loop_prints ev se') else Some out
           | _ \<Rightarrow> None)"
    and round_prints_eq: "round_prints ev se =
     (if pe_result ev < 0 then Some []
      else Option.bind (before ev se) (read_half_prints who loop_prints ev))"
    and before_writes: "before ev se = Some se1 \<Longrightarrow> se1 = se \<or> poll_write ev se = Some se1"
    and before_idle: "tr_write_len (se_tr se) = 0 \<Longrightarrow> before ev se = Some se"
    and round_reads: "round ev se = Some x \<Longrightarrow> 0 \<le> pe_result ev \<Longrightarrow>
      \<exists>se1 y. before ev se = Some se1 \<and> read_half loop ev se1 = Some y"
begin

text \<open>What goes on in bounds is printed in bounds.\<close>

lemma loop_prints_total: "loop ev se = Some se' \<Longrightarrow> \<exists>out. loop_prints ev se = Some out"
proof (induction "tr_read_len (se_tr se)" arbitrary: se rule: less_induct)
  case less
  show ?case
  proof (cases "tr_read_len (se_tr se) = 0")
    case False
    with less.prems obtain c se1 where s: "step ev se = Some (c, se1)"
      by (cases "step ev se") (auto simp: loop_unfold [of ev se])
    from turn_total [OF s] obtain out where p: "turn_prints ev se = Some out" by blast
    show ?thesis
    proof (cases "c \<and> tr_read_len (se_tr se1) \<noteq> tr_read_len (se_tr se)")
      case True
      with step_shrinks [OF s] have "tr_read_len (se_tr se1) < tr_read_len (se_tr se)" by simp
      moreover have "loop ev se1 = Some se'" using less.prems s False True by (simp add: loop_unfold [of ev se])
      ultimately obtain out' where "loop_prints ev se1 = Some out'" using less.hyps by blast
      with False s p show ?thesis by (simp add: loop_prints_unfold [of ev se])
    qed (use False s p in \<open>auto simp: loop_prints_unfold [of ev se]\<close>)
  qed (simp add: loop_prints_unfold [of ev se])
qed

lemma round_prints_total:
  assumes "round ev se = Some x"
  shows "\<exists>out. round_prints ev se = Some out"
proof (cases "pe_result ev < 0")
  case False
  with round_reads [OF assms] obtain se1 y where b: "before ev se = Some se1" "read_half loop ev se1 = Some y" by auto
  from b(2) have "\<exists>out. read_half_prints who loop_prints ev se1 = Some out"
    by (auto simp: read_half_def read_half_prints_def intro: loop_prints_total split: bind_splits if_splits)
  with b(1) False show ?thesis by (simp add: round_prints_eq)
qed (simp add: round_prints_eq)

lemma session_prints_total:
  "session evs se = Some se' \<Longrightarrow> \<exists>out. session_prints round round_prints evs se = Some out"
proof (induction evs arbitrary: se)
  case (Cons ev evs)
  show ?case
  proof (cases "state_of se = PW_STATE_CLOSED \<or> state_of se = PW_STATE_DISCONNECTED")
    case False
    with Cons.prems obtain c se1 where r: "round ev se = Some (c, se1)"
      by (cases "round ev se") (auto simp: session_Cons)
    moreover from round_prints_total [OF r] obtain out where "round_prints ev se = Some out" by blast
    ultimately show ?thesis using Cons False by (cases c) (auto simp: session_Cons)
  qed auto
qed simp

text \<open>Where a line comes from: it reports a lost peer, or it is a line of a turn that the session came to.\<close>

definition line_of :: "poll_event \<Rightarrow> session \<Rightarrow> string \<Rightarrow> bool" where
  "line_of ev se l \<longleftrightarrow> tr_read_len (se_tr se) \<noteq> 0 \<and> (\<exists>out. turn_prints ev se = Some out \<and> l \<in> set out)"

lemma loop_line:
  "loop_prints ev se = Some out \<Longrightarrow> l \<in> set out \<Longrightarrow> \<exists>se1. path step {ev} se [] se1 \<and> line_of ev se1 l"
proof (induction "tr_read_len (se_tr se)" arbitrary: se out rule: less_induct)
  case less
  have ne: "tr_read_len (se_tr se) \<noteq> 0"
  proof
    assume "tr_read_len (se_tr se) = 0"
    with less.prems show False by (simp add: loop_prints_unfold [of ev se])
  qed
  with less.prems obtain o1 c se1 where p: "turn_prints ev se = Some o1" and s: "step ev se = Some (c, se1)"
    by (auto simp: loop_prints_unfold [of ev se] split: option.splits)
  show ?case
  proof (cases "l \<in> set o1")
    case True
    with ne p show ?thesis by (auto simp: line_of_def intro: path.start)
  next
    case False
    with less.prems ne p s obtain o2 where go: "tr_read_len (se_tr se1) \<noteq> tr_read_len (se_tr se)"
      "loop_prints ev se1 = Some o2" "l \<in> set o2"
      by (auto simp: loop_prints_unfold [of ev se] split: if_splits)
    with step_shrinks [OF s] have "tr_read_len (se_tr se1) < tr_read_len (se_tr se)" by simp
    from less.hyps [OF this go(2,3)] obtain se2 where "path step {ev} se1 [] se2" "line_of ev se2 l" by blast
    moreover have "moves step ev se [] se1" using ne s by (rule moves.turns)
    ultimately show ?thesis using path_before [of ev "{ev}"] by fastforce
  qed
qed

lemma read_half_line:
  assumes "read_half_prints who loop_prints ev se = Some out" and "l \<in> set out" and "0 \<le> pe_result ev"
  shows "(\<exists>r e. l = lost_line who r e) \<or> (\<exists>se1. path step {ev} se (hears ev se) se1 \<and> line_of ev se1 l)"
proof -
  from assms(1,2) have i: "pe_in ev" by (auto simp: read_half_prints_def split: if_splits)
  with assms(1) obtain r e tr where
    r: "pw_transport_read (pe_recv ev) (pe_errno ev) (Some (se_tr se)) = Some (r, e, Some tr)"
    by (auto simp: read_half_prints_def split: bind_splits)
  have p: "path step {ev} se (hears ev se) (se\<lparr>se_tr := tr\<rparr>)"
    using path_move [OF _ moves.reads [where step = step, OF r]] i assms(3) by (simp add: hears_def)
  show ?thesis
  proof (cases "r \<le> 0 \<and> e \<noteq> EAGAIN \<and> e \<noteq> EWOULDBLOCK")
    case True
    with assms(1,2) i r have "l = lost_line who r e" by (auto simp: read_half_prints_def)
    then show ?thesis by blast
  next
    case False
    with assms(1) i r have "loop_prints ev (se\<lparr>se_tr := tr\<rparr>) = Some out" by (auto simp: read_half_prints_def)
    from loop_line [OF this assms(2)] path_trans [OF _ p] show ?thesis by fastforce
  qed
qed

lemma round_line:
  assumes "round_prints ev se = Some out" and "l \<in> set out"
  shows "(\<exists>r e. l = lost_line who r e) \<or> (\<exists>se1. path step {ev} se (hears ev se) se1 \<and> line_of ev se1 l)"
proof -
  have res: "0 \<le> pe_result ev" using assms by (auto simp: round_prints_eq split: if_splits)
  with assms(1) obtain se1 where b: "before ev se = Some se1" "read_half_prints who loop_prints ev se1 = Some out"
    by (auto simp: round_prints_eq split: bind_splits)
  note half = read_half_line [OF b(2) assms(2) res]
  from before_writes [OF b(1)] show ?thesis
  proof
    assume w: "poll_write ev se = Some se1"
    from half poll_write_hears [OF w] path_before [of ev "{ev}", OF _ moves.writes [OF w]] show ?thesis by fastforce
  qed (use half in simp)
qed

lemma session_line:
  "session_prints round round_prints evs se = Some out \<Longrightarrow> l \<in> set out \<Longrightarrow>
   (\<exists>r e. l = lost_line who r e) \<or>
   (\<exists>ev \<in> set evs. \<exists>se1 bs cs. path step (set evs) se bs se1 \<and> heard round evs se = bs @ cs \<and> line_of ev se1 l)"
proof (induction evs arbitrary: se out)
  case (Cons ev evs)
  have op: "\<not> (state_of se = PW_STATE_CLOSED \<or> state_of se = PW_STATE_DISCONNECTED)"
    using Cons.prems by auto
  with Cons.prems(1) obtain o1 c se1 where p: "round_prints ev se = Some o1" and r: "round ev se = Some (c, se1)"
    by (auto split: option.splits)
  show ?case
  proof (cases "l \<in> set o1")
    case True
    from round_line [OF p this] show ?thesis
    proof
      assume "\<exists>se1. path step {ev} se (hears ev se) se1 \<and> line_of ev se1 l"
      then obtain se2 where "path step (set (ev # evs)) se (hears ev se) se2" "line_of ev se2 l"
        by (auto intro: path_mono)
      with op show ?thesis by auto
    qed blast
  next
    case False
    with Cons.prems op p r obtain o2 where c: "c" "session_prints round round_prints evs se1 = Some o2" "l \<in> set o2"
      by (auto split: if_splits)
    have q: "path step (set (ev # evs)) se (hears ev se) se1"
      by (rule path_mono [OF round_path [OF r]]) simp
    from Cons.IH [OF c(2,3)] show ?thesis
    proof
      assume "\<exists>ev \<in> set evs. \<exists>se2 bs cs. path step (set evs) se1 bs se2 \<and> heard round evs se1 = bs @ cs \<and> line_of ev se2 l"
      then obtain ev' se2 bs cs where
        IH: "ev' \<in> set evs" "path step (set evs) se1 bs se2" "heard round evs se1 = bs @ cs" "line_of ev' se2 l"
        by blast
      have "path step (set (ev # evs)) se1 bs se2" by (rule path_mono [OF IH(2)]) auto
      from path_trans [OF this q] have "path step (set (ev # evs)) se (hears ev se @ bs) se2" .
      moreover have "heard round (ev # evs) se = (hears ev se @ bs) @ cs" using IH(3) op r c(1) by simp
      ultimately show ?thesis using IH(1,4) by (meson list.set_intros(2))
    qed blast
  qed
qed simp

end

text \<open>A program that prints and takes part in a dialogue: what it prints in a turn, and where the turn
  leads, whatever follows.\<close>

locale narrator = reporter + speaker step session +
  assumes round_bring: "idle (se_tr se) \<Longrightarrow> bs \<noteq> [] \<Longrightarrow> length bs \<le> 4096 \<Longrightarrow>
      \<exists>tr. arrived bs tr \<and>
        round (bring bs ev) se = map_option (Pair True) (loop (bring bs ev) (se\<lparr>se_tr := tr\<rparr>)) \<and>
        round_prints (bring bs ev) se = loop_prints (bring bs ev) (se\<lparr>se_tr := tr\<rparr>)"
    and round_flush: "0 < tr_write_len (se_tr se) \<Longrightarrow>
      round (flush ev) se = map_option (Pair True) (poll_write (flush ev) se)"
begin

lemma flush_prints_nothing:
  assumes "round (flush ev) se = Some x"
  shows "round_prints (flush ev) se = Some []"
proof -
  from round_reads [OF assms] obtain se1 where "before (flush ev) se = Some se1" by (auto simp: flush_def)
  then show ?thesis by (simp add: round_prints_eq read_half_prints_def flush_def)
qed

text \<open>Some rounds lead a session to another one and print some lines, whatever rounds follow.\<close>

definition leads :: "poll_event list \<Rightarrow> session \<Rightarrow> string list \<Rightarrow> session \<Rightarrow> bool" where
  "leads evs se ls se' \<longleftrightarrow> (\<forall>es. session (evs @ es) se = session es se' \<and>
     session_prints round round_prints (evs @ es) se =
       map_option (append ls) (session_prints round round_prints es se'))"

lemma append_lines:
  "map_option (append []) x = x" "map_option (append ls) (map_option (append ls') x) = map_option (append (ls @ ls')) x"
  by (cases x; simp)+

lemma leads_refl: "leads [] se [] se"
  by (simp add: leads_def append_lines)

lemma leads_trans: "leads evs se ls se1 \<Longrightarrow> leads evs' se1 ls' se2 \<Longrightarrow> leads (evs @ evs') se (ls @ ls') se2"
  by (simp add: leads_def append_lines)

lemma leads_end:
  assumes "leads evs se ls se'" and "state_of se' = PW_STATE_CLOSED"
  shows "session (evs @ es) se = Some se' \<and> session_prints round round_prints (evs @ es) se = Some ls"
proof -
  have "session es se' = Some se'" "session_prints round round_prints es se' = Some []"
    using assms(2) by (cases es; simp add: session_Nil session_Cons)+
  with assms(1) show ?thesis by (simp add: leads_def)
qed

lemma flush_leads:
  assumes "open_session se" and "0 < tr_write_len (se_tr se)" and "poll_write (flush ev) se = Some se1"
  shows "leads [flush ev] se [] se1"
proof -
  have r: "round (flush ev) se = Some (True, se1)" using round_flush [OF assms(2)] assms(3) by simp
  with flush_prints_nothing [OF r] assms(1) show ?thesis
    by (auto simp: leads_def session_Cons open_session_def)
qed

lemma turn_leads:
  assumes "open_session se" and "idle (se_tr se)" and "answers step ev se bs out c'"
    and prints: "\<And>tr. arrived bs tr \<Longrightarrow> turn_prints (bring bs ev) (se\<lparr>se_tr := tr\<rparr>) = Some ls"
  shows "\<exists>tr'. idle tr' \<and> leads [bring bs ev, flush ev] se ls \<lparr>se_conn = closing_done c', se_tr = tr'\<rparr>"
proof -
  from turn_answers [OF assms(1-3)] obtain tr' where tr': "idle tr'"
    "turn session ev bs se = Some (out, \<lparr>se_conn = closing_done c', se_tr = tr'\<rparr>)" by blast
  note a = answersD [OF assms(3)]
  from round_bring [OF assms(2) a(1,2), of ev] obtain tr where tr: "arrived bs tr"
    and r: "round (bring bs ev) se = map_option (Pair True) (loop (bring bs ev) (se\<lparr>se_tr := tr\<rparr>))"
    and p: "round_prints (bring bs ev) se = loop_prints (bring bs ev) (se\<lparr>se_tr := tr\<rparr>)" by blast
  define se1 where "se1 = \<lparr>se_conn = c', se_tr = queue_out out (transport_consume tr (length bs))\<rparr>"
  from tr have ok: "transport_ok tr" by (simp add: arrived_def writable_def)
  have len: "tr_read_len tr = length bs" using arrived_read_len [OF tr] .
  have z: "tr_read_len (se_tr se1) = 0" using consume_ok(3) [OF ok, of "length bs"] len by (simp add: se1_def)
  have ne: "tr_read_len tr \<noteq> 0" using len a(1) by simp
  have "loop ev1 se1 = Some se1" "loop_prints ev1 se1 = Some []" for ev1
    using z by (simp_all add: loop_unfold [of ev1 se1] loop_prints_unfold [of ev1 se1])
  with ne z a(7) [OF tr, folded se1_def] prints [OF tr]
  have l: "loop (bring bs ev) (se\<lparr>se_tr := tr\<rparr>) = Some se1" "loop_prints (bring bs ev) (se\<lparr>se_tr := tr\<rparr>) = Some ls"
    by (simp_all add: loop_unfold [of _ "se\<lparr>se_tr := tr\<rparr>"] loop_prints_unfold [of _ "se\<lparr>se_tr := tr\<rparr>"])
  have w: "0 < tr_write_len (se_tr se1)" using a(3) by (simp add: se1_def queue_out_def)
  have o1: "open_session se1" using a(5,6) by (simp add: se1_def open_session_def)
  have r1: "round (bring bs ev) se = Some (True, se1)" "round_prints (bring bs ev) se = Some ls" using r p l by simp_all
  then have "session [bring bs ev] se = Some se1"
    using assms(1) by (auto simp: session_Cons session_Nil open_session_def)
  with tr'(2) run_flush [OF o1 w] have "poll_write (flush ev) se1 = Some \<lparr>se_conn = closing_done c', se_tr = tr'\<rparr>"
    by (auto simp: turn_def split: bind_splits)
  note f = flush_leads [OF o1 w this]
  have "leads [bring bs ev] se ls se1"
    using r1 assms(1) by (auto simp: leads_def session_Cons open_session_def)
  from leads_trans [OF this f] tr'(1) show ?thesis by auto
qed

end

section \<open>The programs print\<close>

lemma payload_text_total: "print_payload src s n = Some k \<Longrightarrow> \<exists>t. payload_text src s n = Some t"
  by (auto simp: print_payload_def payload_text_def split: bind_splits)

lemma frame_branch_prints_total:
  assumes "frame_branch junk act se = Some x"
    and "\<And>n f se1. act n f se = Some se1 \<Longrightarrow> \<exists>out. prints n f se = Some out"
  shows "\<exists>out. frame_branch_prints junk prints se = Some out"
  using assms(1)
  by (auto simp: frame_branch_def frame_branch_prints_def dest: assms(2) split: bind_splits option.splits)

lemma server_auth_frame_prints:
  assumes "server_auth_frame junk n f se = Some se1"
  shows "\<exists>out. server_auth_prints junk n f se = Some out"
proof (cases "fr_opcode f = opcode_byte PW_OPCODE_AUTH")
  case True
  with assms obtain k req where p: "pw_auth_parse_request (tr_read_buffer (se_tr se)) (tr_read_pos (se_tr se) + n)
      (unat (fr_length f)) junk = Some (k, req)"
    by (auto simp: server_auth_frame_def bind_eq_Some_conv)
  show ?thesis
  proof (cases "k = 0")
    case False
    with assms True p obtain ok where "pw_auth_validate_bearer (Some req) (Some (secret_token @ [0])) = Some ok"
      by (auto simp: server_auth_frame_def bind_eq_Some_conv)
    with True p show ?thesis by (simp add: server_auth_prints_def)
  qed (use True p in \<open>simp add: server_auth_prints_def\<close>)
qed (simp add: server_auth_prints_def)

lemma server_ready_frame_prints:
  assumes "server_ready_frame n f se = Some se1"
  shows "\<exists>out. server_ready_prints n f se = Some out"
proof (cases "is_data f")
  case True
  with assms obtain k where "print_payload (tr_read_buffer (se_tr se)) (tr_read_pos (se_tr se) + n) (unat (fr_length f)) = Some k"
    by (auto simp: server_ready_frame_def is_data_def Let_def bind_eq_Some_conv)
  from payload_text_total [OF this] True show ?thesis by (auto simp: server_ready_prints_def is_data_def Let_def)
qed (simp add: server_ready_prints_def is_data_def Let_def)

lemma client_ready_frame_prints:
  assumes "client_ready_frame n f se = Some se1"
  shows "\<exists>out. client_ready_prints n f se = Some out"
proof (cases "fr_opcode f = opcode_byte PW_OPCODE_DATA_TEXT")
  case True
  with assms obtain k where "print_payload (tr_read_buffer (se_tr se)) (tr_read_pos (se_tr se) + n) (unat (fr_length f)) = Some k"
    by (auto simp: client_ready_frame_def Let_def bind_eq_Some_conv)
  from payload_text_total [OF this] True show ?thesis by (auto simp: client_ready_prints_def Let_def)
qed (simp add: client_ready_prints_def Let_def)

lemma client_auth_frame_prints: "\<exists>out. client_auth_prints n f se = Some out"
  by (simp add: client_auth_prints_def)

lemma server_prints_total:
  assumes "server_step ev se = Some x"
  shows "\<exists>out. server_prints ev se = Some out"
proof (cases "state_of se")
  case PW_STATE_HANDSHAKING
  with assms show ?thesis
    by (auto simp: server_step_def server_handshaking_def server_prints_def server_handshaking_prints_def Let_def
        split: bind_splits)
next
  case PW_STATE_AUTHENTICATING
  with assms show ?thesis
    by (auto simp: server_step_def server_prints_def Let_def
        intro: frame_branch_prints_total server_auth_frame_prints)
next
  case PW_STATE_READY
  with assms show ?thesis
    by (auto simp: server_step_def server_prints_def Let_def
        intro: frame_branch_prints_total server_ready_frame_prints)
qed (simp_all add: server_prints_def)

lemma client_prints_total:
  assumes "client_step ev se = Some x"
  shows "\<exists>out. client_prints ev se = Some out"
proof (cases "state_of se")
  case PW_STATE_HANDSHAKING
  with assms show ?thesis
    by (auto simp: client_step_def client_handshaking_def client_prints_def client_handshaking_prints_def Let_def
        split: bind_splits)
next
  case PW_STATE_AUTHENTICATING
  with assms show ?thesis
    by (auto simp: client_step_def client_prints_def Let_def
        intro: frame_branch_prints_total client_auth_frame_prints)
next
  case PW_STATE_READY
  with assms show ?thesis
    by (auto simp: client_step_def client_prints_def Let_def
        intro: frame_branch_prints_total client_ready_frame_prints)
qed (simp_all add: client_prints_def)

interpretation server_report: reporter server_step server_read_loop server_round server_session
  server_prints server_loop_prints server_round_prints "\<lambda>ev. Some" "''Client''"
proof unfold_locales
  fix ev x and se :: session
  assume "server_round ev se = Some x" and "0 \<le> pe_result ev"
  then show "\<exists>se1 y. Some se = Some se1 \<and> read_half server_read_loop ev se1 = Some y"
    by (auto simp: server_round_halves split: bind_splits)
qed (erule server_prints_total, rule server_loop_prints.simps, simp_all add: server_round_prints_def)

interpretation client_report: reporter client_step client_read_loop client_round client_session
  client_prints client_loop_prints client_round_prints
  "\<lambda>ev se. if pe_out ev \<and> 0 < tr_write_len (se_tr se) then poll_write ev se else Some se" "''Server''"
proof unfold_locales
  fix ev x and se :: session
  assume "client_round ev se = Some x" and "0 \<le> pe_result ev"
  then show "\<exists>se1 y. (if pe_out ev \<and> 0 < tr_write_len (se_tr se) then poll_write ev se else Some se) = Some se1 \<and>
      read_half client_read_loop ev se1 = Some y"
    by (auto simp: client_round_halves split: bind_splits)
qed (erule client_prints_total, rule client_loop_prints.simps, auto simp: client_round_prints_def split: if_splits)

lemma server_round_bring:
  assumes "idle (se_tr se)" and "bs \<noteq> []" and "length bs \<le> 4096"
  shows "\<exists>tr. arrived bs tr \<and>
    server_round (bring bs ev) se = map_option (Pair True) (server_read_loop (bring bs ev) (se\<lparr>se_tr := tr\<rparr>)) \<and>
    server_round_prints (bring bs ev) se = server_loop_prints (bring bs ev) (se\<lparr>se_tr := tr\<rparr>)"
proof -
  from read_arrives [OF assms(1,3)] obtain tr where
    "arrived bs tr" "pw_transport_read (\<lambda>fd n. Received (take n bs) 0) (pe_errno ev) (Some (se_tr se)) = Some (int (length bs), 0, Some tr)"
    by blast
  with assms(1,2) show ?thesis
    by (intro exI [of _ tr] conjI)
      (simp_all add: server_round_def server_round_prints_def read_half_prints_def bring_def Let_def idle_def map_conv_bind_option comp_def)
qed

lemma client_round_bring_prints:
  assumes "idle (se_tr se)" and "bs \<noteq> []" and "length bs \<le> 4096"
  shows "\<exists>tr. arrived bs tr \<and>
    client_round (bring bs ev) se = map_option (Pair True) (client_read_loop (bring bs ev) (se\<lparr>se_tr := tr\<rparr>)) \<and>
    client_round_prints (bring bs ev) se = client_loop_prints (bring bs ev) (se\<lparr>se_tr := tr\<rparr>)"
proof -
  from read_arrives [OF assms(1,3)] obtain tr where
    "arrived bs tr" "pw_transport_read (\<lambda>fd n. Received (take n bs) 0) (pe_errno ev) (Some (se_tr se)) = Some (int (length bs), 0, Some tr)"
    by blast
  with assms(1,2) show ?thesis
    by (intro exI [of _ tr] conjI)
      (simp_all add: client_round_def client_round_prints_def read_half_prints_def bring_def Let_def idle_def map_conv_bind_option comp_def)
qed

interpretation server_tells: narrator server_step server_read_loop server_round server_session
  server_prints server_loop_prints server_round_prints "\<lambda>ev. Some" "''Client''"
proof unfold_locales
  fix se :: session and ev :: poll_event
  assume "0 < tr_write_len (se_tr se)"
  then show "server_round (flush ev) se = map_option (Pair True) (poll_write (flush ev) se)"
    by (simp add: server_round_def flush_def Let_def map_conv_bind_option comp_def)
qed (rule server_round_bring)

interpretation client_tells: narrator client_step client_read_loop client_round client_session
  client_prints client_loop_prints client_round_prints
  "\<lambda>ev se. if pe_out ev \<and> 0 < tr_write_len (se_tr se) then poll_write ev se else Some se" "''Server''"
proof unfold_locales
  fix se :: session and ev :: poll_event
  assume "0 < tr_write_len (se_tr se)"
  then show "client_round (flush ev) se = map_option (Pair True) (poll_write (flush ev) se)"
    by (simp add: client_round_def flush_def Let_def map_conv_bind_option comp_def)
qed (rule client_round_bring_prints)

section \<open>The lines of the dialogue\<close>

lemma c_strlen_padded: "c_strlen (bs @ replicate (Suc n) 0) = Some (length (takeWhile (\<lambda>b. b \<noteq> 0) bs))"
  by (induction bs) auto

text \<open>A payload that fits is printed up to its first zero.\<close>

definition shown :: "byte list \<Rightarrow> string" where
  "shown pl = map (\<lambda>b. char_of (unat b)) (takeWhile (\<lambda>b. b \<noteq> 0) pl)"

lemma payload_text_shown:
  assumes "s + n \<le> length src" and "n < 128"
  shows "payload_text src s n = Some (shown (bytes_at src s n))"
proof -
  let ?pl = "bytes_at src s n"
  have "put_bytes (replicate 128 0) 0 ?pl = ?pl @ replicate (Suc (127 - n)) 0"
    using assms by (simp add: put_bytes_def length_bytes_at Suc_diff_le del: replicate_Suc)
  moreover have "take (length (takeWhile (\<lambda>b. b \<noteq> 0) ?pl)) ?pl = takeWhile (\<lambda>b. b \<noteq> 0) ?pl"
    by (simp add: takeWhile_eq_take [symmetric])
  moreover have "length (takeWhile (\<lambda>b. b \<noteq> 0) ?pl) \<le> n"
    using length_takeWhile_le [of "\<lambda>b. b \<noteq> 0" ?pl] assms(1) by (simp add: length_bytes_at)
  ultimately show ?thesis
    using assms c_strlen_padded [of ?pl "127 - n"]
    by (simp add: payload_text_def shown_def mem_simps length_bytes_at del: replicate_Suc)
qed

lemma frame_prints_message:
  assumes "transport_ok (se_tr se)" and "unread (se_tr se) = frame_header_bytes f @ pl @ rest" and "is_message f pl"
  shows "frame_branch_prints junk act se = act (length (frame_header_bytes f)) (frame_received f junk) se"
  using parse_frame_message(1) [OF assms, of junk] by (simp add: frame_branch_prints_def)

lemma payload_shown:
  assumes "transport_ok tr" and "unread tr = frame_header_bytes f @ pl @ rest" and "is_message f pl" and "length pl < 128"
  shows "payload_text (tr_read_buffer tr) (tr_read_pos tr + length (frame_header_bytes f)) (unat (fr_length f)) = Some (shown pl)"
  using payload_text_shown [of _ "length pl" "tr_read_buffer tr"] payload_at [OF assms(1,2)] assms(3,4)
  by (simp add: is_message_def)

text \<open>What a ready server prints on a frame.\<close>

definition server_line :: "pw_frame \<times> byte list \<Rightarrow> string list" where
  "server_line m =
     (if is_data (fst m)
      then [text_line (''Received data message ('' @ decimal (length (snd m)) @ '' bytes): '' @ shown (snd m))]
      else if fr_opcode (fst m) = opcode_byte PW_OPCODE_PING then [text_line ''Received PING. Sending PONG...'']
      else if fr_opcode (fst m) = opcode_byte PW_OPCODE_CLOSE then [text_line ''Received CLOSE.'']
      else [])"

lemma server_prints_frame:
  assumes "state_of se = PW_STATE_READY" and "transport_ok (se_tr se)"
    and "unread (se_tr se) = frame_header_bytes f @ pl @ rest" and "is_message f pl" and "is_data f \<Longrightarrow> length pl < 128"
  shows "server_prints ev se = Some (server_line (f, pl))"
proof (cases "is_data f")
  case True
  with assms(5) have "length pl < 128" by simp
  moreover have "unat (fr_length f) = length pl" using assms(4) by (simp add: is_message_def)
  ultimately show ?thesis
    using True assms(1) payload_shown [OF assms(2-4)]
    by (simp add: server_prints_def Let_def frame_prints_message [OF assms(2-4)] server_ready_prints_def server_line_def is_data_def)
next
  case False
  then show ?thesis
    using assms(1)
    by (simp add: server_prints_def Let_def frame_prints_message [OF assms(2-4)] server_ready_prints_def server_line_def is_data_def)
qed

lemma server_prints_hello:
  assumes "state_of se = PW_STATE_HANDSHAKING" and "client_hello_wf h" and "transport_ok (se_tr se)"
    and "client_hello_wf (pe_client_hello ev (tr_read_len (se_tr se)))" and "unread (se_tr se) = client_hello_bytes h @ rest"
  shows "server_prints ev se = Some [if ch_version h = PW_VERSION_1 then text_line ''Handshake complete.''
    else text_line (''Handshake rejected: unsupported protocol version '' @ decimal (unat (ch_version h)) @ ''.'')]"
proof -
  have "tr_read_pos (se_tr se) + tr_read_len (se_tr se) \<le> length (tr_read_buffer (se_tr se))"
    using transport_okD [OF assms(3)] by simp
  from parse_client_hello_dec [OF this assms(4)] assms(1,5) length_client_hello_bytes [OF assms(2)] show ?thesis
    by (simp add: server_prints_def server_handshaking_prints_def Let_def unread_def client_hello_dec_bytes [OF assms(2)]
        client_hello_received_def)
qed

lemma server_prints_auth:
  assumes "state_of se = PW_STATE_AUTHENTICATING" and "transport_ok (se_tr se)"
    and "unread (se_tr se) = frame_header_bytes f @ pl @ rest" and "is_message f pl"
    and "fr_opcode f = opcode_byte PW_OPCODE_AUTH" and "grants secret_token pl"
  shows "server_prints ev se = Some [text_line ''Auth OK.'']"
proof -
  let ?tr = "se_tr se" and ?k = "tr_read_len (se_tr se)"
  note pay = payload_at [OF assms(2,3)]
  have m: "unat (fr_length f) = length pl" using assms(4) by (simp add: is_message_def)
  from parse_then_validate [OF pay(2) secret_token_ok(1,2), of "pe_request ev ?k" "[]"] pay(1) assms(6)
  obtain k r where "pw_auth_parse_request (tr_read_buffer ?tr) (tr_read_pos ?tr + length (frame_header_bytes f)) (length pl)
        (pe_request ev ?k) = Some (k, r)" "k \<noteq> 0"
    "pw_auth_validate_bearer (Some r) (Some (secret_token @ [0])) = Some True"
    by auto
  with assms(1,5) m show ?thesis
    by (simp add: server_prints_def Let_def frame_prints_message [OF assms(2-4)] server_auth_prints_def)
qed

lemma client_prints_hello:
  assumes "state_of se = PW_STATE_HANDSHAKING" and "server_hello_wf h" and "transport_ok (se_tr se)"
    and "server_hello_wf (pe_server_hello ev (tr_read_len (se_tr se)))" and "unread (se_tr se) = server_hello_bytes h @ rest"
  shows "client_prints ev se = Some [text_line ''Handshake accepted.'']"
proof -
  have "tr_read_pos (se_tr se) + tr_read_len (se_tr se) \<le> length (tr_read_buffer (se_tr se))"
    using transport_okD [OF assms(3)] by simp
  from parse_server_hello_dec [OF this assms(4)] assms(1,5) length_server_hello_bytes [OF assms(2)] show ?thesis
    by (simp add: client_prints_def client_handshaking_prints_def Let_def unread_def server_hello_dec_bytes [OF assms(2)])
qed

text \<open>What a client prints on a frame.\<close>

definition client_line :: "pw_connection_state \<Rightarrow> pw_frame \<times> byte list \<Rightarrow> string list" where
  "client_line s m =
     (if s = PW_STATE_AUTHENTICATING
      then if fr_opcode (fst m) = opcode_byte PW_OPCODE_AUTH_OK then [text_line ''Auth OK.''] else []
      else if fr_opcode (fst m) = opcode_byte PW_OPCODE_DATA_TEXT then [text_line (''Received Echo: '' @ shown (snd m))]
      else if fr_opcode (fst m) = opcode_byte PW_OPCODE_PONG then [text_line ''Received PONG. Initiating graceful CLOSE.'']
      else if fr_opcode (fst m) = opcode_byte PW_OPCODE_CLOSE then [text_line ''Server closed connection.'']
      else [])"

lemma client_prints_frame:
  assumes "state_of se = PW_STATE_AUTHENTICATING \<or> state_of se = PW_STATE_READY" and "transport_ok (se_tr se)"
    and "unread (se_tr se) = frame_header_bytes f @ pl @ rest" and "is_message f pl" and "length pl < 128"
  shows "client_prints ev se = Some (client_line (state_of se) (f, pl))"
  using assms(1)
proof
  assume "state_of se = PW_STATE_AUTHENTICATING"
  then show ?thesis
    by (simp add: client_prints_def Let_def frame_prints_message [OF assms(2-4)] client_auth_prints_def client_line_def)
next
  assume "state_of se = PW_STATE_READY"
  with payload_shown [OF assms(2-5)] show ?thesis
    by (simp add: client_prints_def Let_def frame_prints_message [OF assms(2-4)] client_ready_prints_def client_line_def)
qed

section \<open>Who makes a server print what\<close>

text \<open>The lines that say nothing of what a client has sent but its version number.\<close>

definition anonymous_line :: "string \<Rightarrow> bool" where
  "anonymous_line l \<longleftrightarrow> prefix ''Handshake '' l \<or> l = text_line ''Auth Failed.'' \<or> prefix ''Client disconnected '' l"

lemma lost_line_anonymous: "anonymous_line (lost_line ''Client'' r e)"
  by (simp add: anonymous_line_def lost_line_def text_line_def)

lemma server_auth_says:
  assumes "server_auth_prints junk n f se = Some out" and "l \<in> set out" and "\<not> anonymous_line l"
    and "state_of se = PW_STATE_AUTHENTICATING" and "writing_ok (se_tr se)"
  shows "\<exists>tr. server_auth_frame junk n f se = Some \<lparr>se_conn = (se_conn se)\<lparr>conn_state := PW_STATE_READY\<rparr>, se_tr = tr\<rparr>"
proof -
  have op: "fr_opcode f = opcode_byte PW_OPCODE_AUTH"
    using assms(1,2) by (auto simp: server_auth_prints_def split: if_splits)
  with assms(1) obtain k req where p: "pw_auth_parse_request (tr_read_buffer (se_tr se)) (tr_read_pos (se_tr se) + n)
      (unat (fr_length f)) junk = Some (k, req)"
    by (auto simp: server_auth_prints_def bind_eq_Some_conv)
  with op assms(1,2) have k: "k \<noteq> 0" by (cases "k = 0") (simp_all add: server_auth_prints_def)
  with op p assms(1) obtain ok where ok: "pw_auth_validate_bearer (Some req) (Some (secret_token @ [0])) = Some ok"
    by (auto simp: server_auth_prints_def bind_eq_Some_conv)
  with op p k assms(1-3) have ok: "pw_auth_validate_bearer (Some req) (Some (secret_token @ [0])) = Some True"
    by (auto simp: server_auth_prints_def anonymous_line_def split: if_splits)
  from send_header_end [OF assms(5)] obtain tr where "send_header (server_reply PW_OPCODE_AUTH_OK 0) (se_tr se) = Some tr" by blast
  moreover have "goto_state PW_STATE_READY (se_conn se) = (se_conn se)\<lparr>conn_state := PW_STATE_READY\<rparr>"
    using assms(4) by (simp add: goto_state_eq lifecycle.simps)
  ultimately show ?thesis using op p k ok by (simp add: server_auth_frame_def)
qed

lemma server_line_authorized:
  assumes "server_report.line_of ev se l" and "session_inv se" and "unauthenticated se" and "\<not> anonymous_line l"
  shows "sublist token_request (unread (se_tr se))"
proof -
  let ?k = "tr_read_len (se_tr se)"
  from assms(1) obtain out where p: "server_prints ev se = Some out" "l \<in> set out"
    by (auto simp: server_report.line_of_def)
  have st: "state_of se = PW_STATE_AUTHENTICATING"
  proof (rule ccontr)
    assume "\<not> ?thesis"
    with assms(3) have "state_of se = PW_STATE_HANDSHAKING" by (simp add: unauthenticated_def)
    with p have "anonymous_line l"
      by (auto simp: server_prints_def server_handshaking_prints_def anonymous_line_def text_line_def Let_def
          bind_eq_Some_conv split: if_splits)
    with assms(4) show False by simp
  qed
  with p obtain n f where f: "parse_frame (pe_frame ev ?k) (se_tr se) = Some (Some (n, f))"
    "server_auth_prints (pe_request ev ?k) n f se = Some out"
    by (auto simp: server_prints_def frame_branch_prints_def Let_def bind_eq_Some_conv split: option.splits)
  from server_auth_says [OF f(2) p(2) assms(4) st] assms(2) obtain tr where
    a: "server_auth_frame (pe_request ev ?k) n f se = Some \<lparr>se_conn = (se_conn se)\<lparr>conn_state := PW_STATE_READY\<rparr>, se_tr = tr\<rparr>"
    by (auto simp: session_inv_def)
  with st f(1) have "\<exists>se'. server_step ev se = Some (True, se') \<and> state_of se' = PW_STATE_READY"
    by (simp add: server_step_def frame_branch_def Let_def)
  with server_step_leaves [OF _ assms(2,3)] show ?thesis by (auto simp: unauthenticated_def)
qed

section \<open>The dialogue as rounds of one session\<close>

declare session_prints.simps(2) [simp del]

lemma server_hears_hello:
  assumes "state_of se = PW_STATE_HANDSHAKING" and "idle (se_tr se)" and "hello_junk ev"
    and "client_hello_wf h" and "ch_version h = PW_VERSION_1"
  shows "\<exists>tr'. idle tr' \<and> server_tells.leads [bring (client_hello_bytes h) ev, flush ev] se
    [text_line ''Handshake complete.''] \<lparr>se_conn = (se_conn se)\<lparr>conn_state := PW_STATE_AUTHENTICATING\<rparr>, se_tr = tr'\<rparr>"
proof -
  have "server_prints (bring (client_hello_bytes h) ev) (se\<lparr>se_tr := tr\<rparr>) = Some [text_line ''Handshake complete.'']"
    if "arrived (client_hello_bytes h) tr" for tr
    using server_prints_hello [of "se\<lparr>se_tr := tr\<rparr>" h "bring (client_hello_bytes h) ev" "[]"] assms that
    by (simp add: hello_junk_def arrived_def writable_def)
  note p = this
  have "ch_version h = 1" using assms(5) by simp
  from server_tells.turn_leads [OF _ assms(2) server_answers_hello [OF assms(1,3,4) this] p] assms(1) show ?thesis
    by (auto simp: open_session_def closing_done_def)
qed

lemma server_hears_auth:
  assumes "state_of se = PW_STATE_AUTHENTICATING" and "idle (se_tr se)"
  shows "\<exists>tr'. idle tr' \<and> server_tells.leads [bring client_auth_message ev, flush ev] se
    [text_line ''Auth OK.''] \<lparr>se_conn = (se_conn se)\<lparr>conn_state := PW_STATE_READY\<rparr>, se_tr = tr'\<rparr>"
proof -
  note a = client_auth_message_ok
  have "server_prints (bring client_auth_message ev) (se\<lparr>se_tr := tr\<rparr>) = Some [text_line ''Auth OK.'']"
    if "arrived client_auth_message tr" for tr
    using server_prints_auth [OF _ _ _ a(2,3,4), of "se\<lparr>se_tr := tr\<rparr>" "[]" "bring client_auth_message ev"] assms(1) that
    by (simp add: arrived_def writable_def a(1))
  from server_tells.turn_leads [OF _ assms(2) server_answers_auth [OF assms(1)] this] assms(1) show ?thesis
    by (auto simp: open_session_def closing_done_def)
qed

lemma server_hears_frame:
  assumes "state_of se = PW_STATE_READY" and "idle (se_tr se)" and "served (f, pl)"
    and "is_data f \<or> fr_opcode f = opcode_byte PW_OPCODE_PING" and "length pl < 128"
  shows "\<exists>tr'. idle tr' \<and> server_tells.leads [bring (frame_header_bytes f @ pl) ev, flush ev] se
    (server_line (f, pl)) (se\<lparr>se_tr := tr'\<rparr>)"
proof -
  have "server_prints (bring (frame_header_bytes f @ pl) ev) (se\<lparr>se_tr := tr\<rparr>) = Some (server_line (f, pl))"
    if "arrived (frame_header_bytes f @ pl) tr" for tr
    using server_prints_frame [of "se\<lparr>se_tr := tr\<rparr>" f pl "[]"] assms(1,3,5) that
    by (simp add: arrived_def writable_def served_def)
  moreover have "server_answer (f, pl) \<noteq> []"
    using assms(4) length_frame_header_bytes [of f] length_frame_header_bytes [of "server_reply PW_OPCODE_PONG (fr_stream_id f)"]
    by (auto simp: server_answer_def)
  ultimately obtain tr' where "idle tr'" "server_tells.leads [bring (frame_header_bytes f @ pl) ev, flush ev] se (server_line (f, pl))
      \<lparr>se_conn = se_conn se, se_tr = tr'\<rparr>"
    using server_tells.turn_leads [OF _ assms(2) server_answers_frame [OF assms(1,3)], of ev "server_line (f, pl)"] assms(1,5)
    by (auto simp: open_session_def closing_done_def)
  then show ?thesis by (cases se) auto
qed

lemma server_hears_frames:
  assumes "state_of se = PW_STATE_READY" and "idle (se_tr se)"
    and "\<forall>m \<in> set ms. served m \<and> length (snd m) < 128 \<and> (is_data (fst m) \<or> fr_opcode (fst m) = opcode_byte PW_OPCODE_PING)"
  shows "\<exists>tr'. idle tr' \<and> server_tells.leads (concat (map (\<lambda>m. [bring (frame_header_bytes (fst m) @ snd m) ev, flush ev]) ms)) se
    (concat (map server_line ms)) (se\<lparr>se_tr := tr'\<rparr>)"
  using assms
proof (induction ms arbitrary: se)
  case Nil
  then show ?case by (intro exI [of _ "se_tr se"]) (simp add: server_tells.leads_refl)
next
  case (Cons m ms)
  from server_hears_frame [OF Cons.prems(1,2), of "fst m" "snd m" ev] Cons.prems(3) obtain t where t: "idle t"
    "server_tells.leads [bring (frame_header_bytes (fst m) @ snd m) ev, flush ev] se (server_line m) (se\<lparr>se_tr := t\<rparr>)"
    by auto
  from Cons.IH [of "se\<lparr>se_tr := t\<rparr>"] Cons.prems t(1) obtain t' where t': "idle t'"
    "server_tells.leads (concat (map (\<lambda>m. [bring (frame_header_bytes (fst m) @ snd m) ev, flush ev]) ms)) (se\<lparr>se_tr := t\<rparr>)
      (concat (map server_line ms)) (se\<lparr>se_tr := t'\<rparr>)"
    by auto
  from server_tells.leads_trans [OF t(2) t'(2)] t'(1) show ?case by auto
qed

lemma server_hears_close:
  assumes "state_of se = PW_STATE_READY" and "idle (se_tr se)" and "is_message f []"
    and "fr_opcode f = opcode_byte PW_OPCODE_CLOSE"
  shows "\<exists>se'. state_of se' = PW_STATE_CLOSED \<and>
    server_tells.leads [bring (frame_header_bytes f) ev, flush ev] se [text_line ''Received CLOSE.''] se'"
proof -
  have "\<not> is_data f" using assms(4) by (simp add: is_data_def)
  then have "server_prints (bring (frame_header_bytes f) ev) (se\<lparr>se_tr := tr\<rparr>) = Some [text_line ''Received CLOSE.'']"
    if "arrived (frame_header_bytes f) tr" for tr
    using server_prints_frame [of "se\<lparr>se_tr := tr\<rparr>" f "[]" "[]"] assms(1,3,4) that
    by (simp add: arrived_def writable_def server_line_def)
  from server_tells.turn_leads [OF _ assms(2) server_answers_close [OF assms(1,3,4)] this] assms(1) obtain tr' where
    "server_tells.leads [bring (frame_header_bytes f) ev, flush ev] se [text_line ''Received CLOSE.'']
      \<lparr>se_conn = closing_done ((se_conn se)\<lparr>conn_state := PW_STATE_CLOSING\<rparr>), se_tr = tr'\<rparr>"
    by (auto simp: open_session_def)
  then show ?thesis by (intro exI conjI) (simp_all add: closing_done_def)
qed

lemma client_hears_hello:
  assumes "state_of se = PW_STATE_HANDSHAKING" and "idle (se_tr se)" and "hello_junk ev" and "server_hello_wf h"
  shows "\<exists>tr'. idle tr' \<and> client_tells.leads [bring (server_hello_bytes h) ev, flush ev] se
    [text_line ''Handshake accepted.''] \<lparr>se_conn = (se_conn se)\<lparr>conn_state := PW_STATE_AUTHENTICATING\<rparr>, se_tr = tr'\<rparr>"
proof -
  have "client_prints (bring (server_hello_bytes h) ev) (se\<lparr>se_tr := tr\<rparr>) = Some [text_line ''Handshake accepted.'']"
    if "arrived (server_hello_bytes h) tr" for tr
    using client_prints_hello [of "se\<lparr>se_tr := tr\<rparr>" h "bring (server_hello_bytes h) ev" "[]"] assms that
    by (simp add: hello_junk_def arrived_def writable_def)
  from client_tells.turn_leads [OF _ assms(2) client_answers_hello [OF assms(1,3,4)] this] assms(1) show ?thesis
    by (auto simp: open_session_def closing_done_def)
qed

lemma client_hears_frame:
  assumes "state_of se = PW_STATE_AUTHENTICATING \<or> state_of se = PW_STATE_READY" and "idle (se_tr se)"
    and "is_message f pl" and "length pl < 128" and "client_answer (state_of se) f = (out, s)" and "out \<noteq> []"
  shows "\<exists>tr'. idle tr' \<and> client_tells.leads [bring (frame_header_bytes f @ pl) ev, flush ev] se
    (client_line (state_of se) (f, pl)) \<lparr>se_conn = closing_done ((se_conn se)\<lparr>conn_state := s\<rparr>), se_tr = tr'\<rparr>"
proof -
  have "client_prints (bring (frame_header_bytes f @ pl) ev) (se\<lparr>se_tr := tr\<rparr>) = Some (client_line (state_of se) (f, pl))"
    if "arrived (frame_header_bytes f @ pl) tr" for tr
    using client_prints_frame [of "se\<lparr>se_tr := tr\<rparr>" f pl "[]"] assms(1,3,4) that by (simp add: arrived_def writable_def)
  from client_tells.turn_leads [OF _ assms(2) client_answers_frame [OF assms(1,3-6)] this] assms(1) show ?thesis
    by (auto simp: open_session_def)
qed

text \<open>The client's way to a ready session, and from there to the end.\<close>

lemma client_tells_ready:
  assumes "length (tr_read_buffer jt) = 4096" and "length (tr_write_buffer jt) = 4096" and "0 \<le> sock"
    and "hello_junk ev" and "server_hello_wf h"
  shows "\<exists>c0 c3. client_start fcntl jt jc sock w = Some c0 \<and> state_of c3 = PW_STATE_READY \<and> idle (se_tr c3) \<and>
    client_tells.leads [flush ev, bring (server_hello_bytes h) ev, flush ev, bring (frame_bytes PW_OPCODE_AUTH_OK) ev, flush ev] c0
      [text_line ''Handshake accepted.'', text_line ''Auth OK.''] c3"
proof -
  from client_start_ok [OF assms(1-3), of fcntl jc w] obtain c0 where
    start: "client_start fcntl jt jc sock w = Some c0" and c0: "state_of c0 = PW_STATE_HANDSHAKING" "transport_ok (se_tr c0)"
      "tr_read_len (se_tr c0) = 0" "0 \<le> tr_fd (se_tr c0)" "unsent (se_tr c0) = client_hello_bytes client_hello_sent" by auto
  have "length (unsent (se_tr c0)) = 24" unfolding c0(5) by (simp add: client_hello_bytes_def client_hello_sent_def)
  then have l: "0 < tr_write_len (se_tr c0)" using c0(2) by simp
  have op: "open_session c0" using c0(1) by (simp add: open_session_def)
  from poll_write_flush [OF c0(2,4) l c0(3), of ev] c0(1) obtain t1 where
    t1: "idle t1" "poll_write (flush ev) c0 = Some \<lparr>se_conn = se_conn c0, se_tr = t1\<rparr>" by (auto simp: closing_done_def)
  from client_hears_hello [of "\<lparr>se_conn = se_conn c0, se_tr = t1\<rparr>", OF _ _ assms(4,5)] c0(1) t1(1) obtain t2 where
    t2: "idle t2" "client_tells.leads [bring (server_hello_bytes h) ev, flush ev] \<lparr>se_conn = se_conn c0, se_tr = t1\<rparr>
      [text_line ''Handshake accepted.''] \<lparr>se_conn = (se_conn c0)\<lparr>conn_state := PW_STATE_AUTHENTICATING\<rparr>, se_tr = t2\<rparr>"
    by auto
  let ?c2 = "\<lparr>se_conn = (se_conn c0)\<lparr>conn_state := PW_STATE_AUTHENTICATING\<rparr>, se_tr = t2\<rparr>"
  let ?ok = "frame_init PW_VERSION_1 PW_FLAG_FIN PW_OPCODE_AUTH_OK 0 0"
  have "client_answer (state_of ?c2) ?ok = (frame_header_bytes client_data_frame @ client_msg, PW_STATE_READY)"
    by (simp add: client_answer_def frame_init_def)
  from client_hears_frame [of ?c2 ?ok "[]", OF _ _ _ _ this, of ev] t2(1) obtain t3 where
    t3: "idle t3" "client_tells.leads [bring (frame_bytes PW_OPCODE_AUTH_OK) ev, flush ev] ?c2 [text_line ''Auth OK.'']
      \<lparr>se_conn = (se_conn c0)\<lparr>conn_state := PW_STATE_READY\<rparr>, se_tr = t3\<rparr>"
    by (auto simp: closing_done_def client_line_def is_message_def frame_init_def)
  from client_tells.leads_trans [OF client_tells.flush_leads [OF op l t1(2)] client_tells.leads_trans [OF t2(2) t3(2)]]
    start t3(1) show ?thesis by (intro exI conjI) simp_all
qed

lemma client_tells_closed:
  assumes "state_of c = PW_STATE_READY" and "idle (se_tr c)"
    and "is_message f pl" and "fr_opcode f = opcode_byte PW_OPCODE_DATA_TEXT" and "length pl < 128"
  shows "\<exists>c'. state_of c' = PW_STATE_CLOSED \<and>
    client_tells.leads [bring (frame_header_bytes f @ pl) ev, flush ev, bring (frame_bytes PW_OPCODE_PONG) ev, flush ev] c
      [text_line (''Received Echo: '' @ shown pl), text_line ''Received PONG. Initiating graceful CLOSE.''] c'"
proof -
  have "client_answer (state_of c) f = (frame_bytes PW_OPCODE_PING, PW_STATE_READY)"
    using assms(1,4) by (simp add: client_answer_def)
  from client_hears_frame [OF disjI2 [OF assms(1)] assms(2,3,5) this, of ev] assms(1,4) obtain t1 where
    t1: "idle t1" "client_tells.leads [bring (frame_header_bytes f @ pl) ev, flush ev] c
      [text_line (''Received Echo: '' @ shown pl)] \<lparr>se_conn = (se_conn c)\<lparr>conn_state := PW_STATE_READY\<rparr>, se_tr = t1\<rparr>"
    by (auto simp: closing_done_def client_line_def)
  let ?c1 = "\<lparr>se_conn = (se_conn c)\<lparr>conn_state := PW_STATE_READY\<rparr>, se_tr = t1\<rparr>"
  let ?pong = "frame_init PW_VERSION_1 PW_FLAG_FIN PW_OPCODE_PONG 0 0"
  have "client_answer (state_of ?c1) ?pong = (frame_bytes PW_OPCODE_CLOSE, PW_STATE_CLOSING)"
    by (simp add: client_answer_def frame_init_def)
  from client_hears_frame [of ?c1 ?pong "[]", OF _ _ _ _ this, of ev] t1(1) obtain t2 where
    "client_tells.leads [bring (frame_bytes PW_OPCODE_PONG) ev, flush ev] ?c1 [text_line ''Received PONG. Initiating graceful CLOSE.'']
      \<lparr>se_conn = (se_conn c)\<lparr>conn_state := PW_STATE_CLOSED\<rparr>, se_tr = t2\<rparr>"
    by (auto simp: closing_done_def client_line_def is_message_def frame_init_def)
  from client_tells.leads_trans [OF t1(2) this] show ?thesis by (intro exI conjI) simp_all
qed

section \<open>Properties\<close>

text \<open>C4: Without the secret nothing that a client sends appears in the output of the server: every line that
  a session prints, in any number of rounds, reports a handshake with at most the number of the
  version, a failed authentication or the loss of the client, unless the bearer request with the token
  is a run of bytes in what the client has sent to it. In particular the server says Auth OK to nobody else.\<close>

theorem server_output_needs_token:
  assumes "session_prints server_round server_round_prints evs se = Some out" and "session_inv se"
    and "\<forall>ev \<in> set evs. polite ev" and "state_of se \<in> {PW_STATE_HANDSHAKING, PW_STATE_AUTHENTICATING}"
    and "l \<in> set out" and "\<not> anonymous_line l"
  shows "sublist (auth_bytes (PW_AUTH_METHOD_BEARER, secret_token)) (unread (se_tr se) @ heard server_round evs se)"
proof -
  from server_report.session_line [OF assms(1,5)] assms(6) lost_line_anonymous obtain ev se1 bs cs where
    ev: "ev \<in> set evs" "path server_step (set evs) se bs se1" "heard server_round evs se = bs @ cs" "server_report.line_of ev se1 l"
    by blast
  from server_run.path_inv [OF ev(2) assms(2,3)] obtain n where
    n: "session_inv se1" "unread (se_tr se1) = drop n (unread (se_tr se) @ bs)" by blast
  have u: "unauthenticated se" using assms(4) by (auto simp: unauthenticated_def)
  have "sublist token_request (unread (se_tr se) @ bs @ cs)"
  proof (cases "unauthenticated se1")
    case True
    from server_line_authorized [OF ev(4) n(1) this assms(6)] show ?thesis
      using sublist_of_rest [of _ n "unread (se_tr se) @ bs" cs] n(2) by simp
  next
    case False
    with server_path_token [OF ev(2) assms(2,3) u] show ?thesis
      using sublist_of_rest [of _ 0 "unread (se_tr se) @ bs" cs] by simp
  qed
  then show ?thesis by (simp add: ev(3) token_request_def)
qed

theorem server_output_needs_token_witness:
  "let se = \<lparr>se_conn = \<lparr>conn_state = PW_STATE_AUTHENTICATING\<rparr>, se_tr = transport_with []\<rparr>;
       evs = [bring client_auth_message quiet_poll, flush quiet_poll]
   in session_prints server_round server_round_prints evs se = Some [text_line ''Auth OK.''] \<and>
      sublist (auth_bytes (PW_AUTH_METHOD_BEARER, secret_token)) (heard server_round evs se)"
proof -
  define se where "se = \<lparr>se_conn = \<lparr>conn_state = PW_STATE_AUTHENTICATING\<rparr>, se_tr = transport_with []\<rparr>"
  define evs where "evs = [bring client_auth_message quiet_poll, flush quiet_poll]"
  have st: "state_of se = PW_STATE_AUTHENTICATING" "idle (se_tr se)" by (simp_all add: se_def idle_def)
  from server_hears_auth [OF st, of quiet_poll] have
    p: "session_prints server_round server_round_prints evs se = Some [text_line ''Auth OK.'']"
    unfolding evs_def server_tells.leads_def by (metis append.right_neutral option.simps(9) session_prints.simps(1))
  have "\<not> anonymous_line (text_line ''Auth OK.'')" by (simp add: anonymous_line_def text_line_def)
  moreover have "session_inv se" by (simp add: se_def session_inv_def)
  moreover have "\<forall>ev \<in> set evs. polite ev"
    by (simp add: evs_def polite_def bring_def flush_def quiet_poll_def recv_ok_def send_ok_def)
  ultimately have "sublist (auth_bytes (PW_AUTH_METHOD_BEARER, secret_token)) (unread (se_tr se) @ heard server_round evs se)"
    using st by (intro server_output_needs_token [OF p]) (simp_all del: heard.simps)
  then show ?thesis
    using p unfolding evs_def [symmetric] se_def [symmetric] Let_def by (simp add: se_def del: heard.simps)
qed

text \<open>C12: What the server reports of a session in order, when every data message and every PING has fewer than 128 bytes of
  payload, each message, the hello, the token and CLOSE too, is brought whole and alone by one round, and the
  next round writes out what it has queued: one line for the hello, one for the token, one for each data message,
  with the number of its bytes and its text up to the first zero byte, one for each PING and one for CLOSE, in the
  order in which they came and nothing else, whatever is brought afterwards. The session starts in HANDSHAKING. (Longer data would
  leave the buffer from which the line is printed; a session with it has no such report.)\<close>

theorem server_reports_session:
  assumes "state_of se = PW_STATE_HANDSHAKING" and "idle (se_tr se)" and "hello_junk ev"
    and "client_hello_wf h" and "ch_version h = PW_VERSION_1"
    and "\<forall>m \<in> set ms. is_message (fst m) (snd m) \<and> length (snd m) < 128 \<and>
      (is_data (fst m) \<or> fr_opcode (fst m) = opcode_byte PW_OPCODE_PING)"
    and "is_message f []" and "fr_opcode f = opcode_byte PW_OPCODE_CLOSE"
  shows "session_prints server_round server_round_prints
      ([bring (client_hello_bytes h) ev, flush ev, bring client_auth_message ev, flush ev] @
       concat (map (\<lambda>m. [bring (frame_header_bytes (fst m) @ snd m) ev, flush ev]) ms) @
       [bring (frame_header_bytes f) ev, flush ev] @ es) se =
    Some ([''Handshake complete.'' @ [CHR 0x0A], ''Auth OK.'' @ [CHR 0x0A]] @
      map (\<lambda>m. if is_data (fst m)
        then ''Received data message ('' @ decimal (length (snd m)) @ '' bytes): '' @
          map (\<lambda>b. char_of (unat b)) (takeWhile (\<lambda>b. b \<noteq> 0) (snd m)) @ [CHR 0x0A]
        else ''Received PING. Sending PONG...'' @ [CHR 0x0A]) ms @
      [''Received CLOSE.'' @ [CHR 0x0A]])"
proof -
  have served: "\<forall>m \<in> set ms. served m \<and> length (snd m) < 128 \<and> (is_data (fst m) \<or> fr_opcode (fst m) = opcode_byte PW_OPCODE_PING)"
    using assms(6) by (auto simp: served_def is_data_def)
  have lines: "concat (map server_line ms) = map (\<lambda>m. if is_data (fst m)
        then ''Received data message ('' @ decimal (length (snd m)) @ '' bytes): '' @
          map (\<lambda>b. char_of (unat b)) (takeWhile (\<lambda>b. b \<noteq> 0) (snd m)) @ [CHR 0x0A]
        else ''Received PING. Sending PONG...'' @ [CHR 0x0A]) ms"
    using assms(6) by (induction ms) (auto simp: server_line_def text_line_def shown_def)
  from server_hears_hello [OF assms(1-5)] obtain t1 where t1: "idle t1"
    "server_tells.leads [bring (client_hello_bytes h) ev, flush ev] se [text_line ''Handshake complete.'']
      \<lparr>se_conn = (se_conn se)\<lparr>conn_state := PW_STATE_AUTHENTICATING\<rparr>, se_tr = t1\<rparr>" by blast
  from server_hears_auth [of "\<lparr>se_conn = (se_conn se)\<lparr>conn_state := PW_STATE_AUTHENTICATING\<rparr>, se_tr = t1\<rparr>" ev] t1(1)
  obtain t2 where t2: "idle t2" "server_tells.leads [bring client_auth_message ev, flush ev]
      \<lparr>se_conn = (se_conn se)\<lparr>conn_state := PW_STATE_AUTHENTICATING\<rparr>, se_tr = t1\<rparr> [text_line ''Auth OK.'']
      \<lparr>se_conn = (se_conn se)\<lparr>conn_state := PW_STATE_READY\<rparr>, se_tr = t2\<rparr>" by auto
  let ?s2 = "\<lparr>se_conn = (se_conn se)\<lparr>conn_state := PW_STATE_READY\<rparr>, se_tr = t2\<rparr>"
  from server_hears_frames [of ?s2 ms ev] t2(1) served obtain t3 where t3: "idle t3"
    "server_tells.leads (concat (map (\<lambda>m. [bring (frame_header_bytes (fst m) @ snd m) ev, flush ev]) ms)) ?s2
      (concat (map server_line ms)) (?s2\<lparr>se_tr := t3\<rparr>)" by auto
  from server_hears_close [of "?s2\<lparr>se_tr := t3\<rparr>" f ev] t3(1) assms(7,8) obtain se' where
    c: "state_of se' = PW_STATE_CLOSED" "server_tells.leads [bring (frame_header_bytes f) ev, flush ev] (?s2\<lparr>se_tr := t3\<rparr>)
      [text_line ''Received CLOSE.''] se'" by auto
  note all = server_tells.leads_trans [OF t1(2) server_tells.leads_trans [OF t2(2) server_tells.leads_trans [OF t3(2) c(2)]]]
  from server_tells.leads_end [OF all c(1), of es] show ?thesis by (simp add: lines text_line_def)
qed

theorem server_reports_session_witness:
  "let se = \<lparr>se_conn = \<lparr>conn_state = PW_STATE_HANDSHAKING\<rparr>, se_tr = transport_with []\<rparr>; ev = quiet_poll;
       f = frame_init PW_VERSION_1 PW_FLAG_FIN PW_OPCODE_DATA_BINARY 1 4
   in session_prints server_round server_round_prints
        [bring (client_hello_bytes client_hello_sent) ev, flush ev, bring client_auth_message ev, flush ev,
         bring (frame_header_bytes f @ [0x48, 0x69, 0, 0x21]) ev, flush ev, bring (frame_bytes PW_OPCODE_PING) ev, flush ev,
         bring (frame_bytes PW_OPCODE_CLOSE) ev, flush ev] se =
      Some [''Handshake complete.'' @ [CHR 0x0A], ''Auth OK.'' @ [CHR 0x0A],
        ''Received data message (4 bytes): Hi'' @ [CHR 0x0A], ''Received PING. Sending PONG...'' @ [CHR 0x0A],
        ''Received CLOSE.'' @ [CHR 0x0A]]"
proof -
  define se where "se = \<lparr>se_conn = \<lparr>conn_state = PW_STATE_HANDSHAKING\<rparr>, se_tr = transport_with []\<rparr>"
  let ?ms = "[(frame_init PW_VERSION_1 PW_FLAG_FIN PW_OPCODE_DATA_BINARY 1 4, [0x48, 0x69, 0, 0x21]),
    (frame_init PW_VERSION_1 PW_FLAG_FIN PW_OPCODE_PING 0 0, [])] :: (pw_frame \<times> byte list) list"
  have a: "state_of se = PW_STATE_HANDSHAKING" "idle (se_tr se)" "hello_junk quiet_poll"
    by (simp_all add: se_def idle_def hello_junk_def quiet_poll_def)
  have b: "client_hello_wf client_hello_sent" "ch_version client_hello_sent = PW_VERSION_1"
    by (simp_all add: client_hello_sent_def client_hello_wf_def)
  have m: "\<forall>m \<in> set ?ms. is_message (fst m) (snd m) \<and> length (snd m) < 128 \<and>
      (is_data (fst m) \<or> fr_opcode (fst m) = opcode_byte PW_OPCODE_PING)"
    by (simp add: is_message_def is_data_def frame_init_def)
  have c: "is_message (frame_init PW_VERSION_1 PW_FLAG_FIN PW_OPCODE_CLOSE 0 0) []"
    "fr_opcode (frame_init PW_VERSION_1 PW_FLAG_FIN PW_OPCODE_CLOSE 0 0) = opcode_byte PW_OPCODE_CLOSE"
    by (simp_all add: is_message_def frame_init_def)
  have ch: "char_of (52 :: nat) = CHR ''4''" "char_of (72 :: nat) = CHR ''H''" "char_of (105 :: nat) = CHR ''i''"
    by code_simp+
  from server_reports_session [OF a b m c, of "[]"] show ?thesis
    unfolding se_def [symmetric] Let_def by (simp add: ch digit_def decimal.simps is_data_def frame_init_def)
qed

end
