(* ===== verification/PW_Main.thy ===== *)
theory PW_Main
  imports PW_Output
begin

text \<open>
  The \<open>main\<close> functions around the sessions: the server's set-up and accept loop in \<open>server_main.c\<close>, the
  client's set-up and end in \<open>client_main.c\<close>. The calls into the system are parameters, the lists of
  accepted connections and of the rounds of \<open>poll\<close> say what the system brings; the result is what the
  program prints, reports and closes, the lines of its sessions included, with its exit code, if it has
  come to an end.
\<close>

section \<open>The code\<close>

datatype main_event = Printf string | Perror string | Close int

definition SOL_SOCKET :: int where
  "SOL_SOCKET = 1"

definition SO_REUSEADDR :: int where
  "SO_REUSEADDR = 2"

definition SO_REUSEPORT :: int where
  "SO_REUSEPORT = 15"

definition EXIT_FAILURE :: int where
  "EXIT_FAILURE = 1"

definition PORT :: nat where
  "PORT = 8080"

definition AF_INET :: int where
  "AF_INET = 2"

text \<open>The fields of an address that the programs set; the port and the address are given as numbers and
  not in the byte order of the network.\<close>

record sockaddr_in =
  sin_family :: int
  sin_port :: nat
  sin_addr :: string

text \<open>The rounds of a session as far as \<open>poll\<close> has brought them: has its loop come to an end?\<close>

fun session_ended :: "program_step \<Rightarrow> poll_event list \<Rightarrow> session \<Rightarrow> bool" where
  "session_ended round [] se = (state_of se = PW_STATE_CLOSED \<or> state_of se = PW_STATE_DISCONNECTED)"
| "session_ended round (ev # evs) se =
     (state_of se = PW_STATE_CLOSED \<or> state_of se = PW_STATE_DISCONNECTED \<or>
      (case round ev se of
         Some (go_on, se') \<Rightarrow> \<not> go_on \<or> session_ended round evs se'
       | None \<Rightarrow> False))"

text \<open>What \<open>accept\<close> brings: its result, the content of the uninitialised locals, the rounds of \<open>poll\<close>, and
  the state of the system on which \<open>fcntl\<close> acts.\<close>

record 'w accepted =
  ac_fd :: int
  ac_transport :: pw_transport
  ac_connection :: pw_connection
  ac_events :: "poll_event list"
  ac_world :: 'w

text \<open>What follows the loop of a session.\<close>

definition server_goodbye :: "int \<Rightarrow> main_event list" where
  "server_goodbye client_fd = [Close client_fd, Printf (''Connection closed.'' @ [CHR 0x0A])]"

definition client_goodbye :: "int \<Rightarrow> main_event list \<times> int option" where
  "client_goodbye sock = ([Close sock, Printf (''Client exited.'' @ [CHR 0x0A])], Some 0)"

fun server_accept_loop ::
  "(int \<Rightarrow> fcntl_cmd \<Rightarrow> 'w \<Rightarrow> int \<times> 'w) \<Rightarrow> 'w accepted list \<Rightarrow> main_event list option" where
  "server_accept_loop fcntl [] = Some []"
| "server_accept_loop fcntl (a # as) =
     (if ac_fd a < 0
      then map_option (Cons (Perror ''accept'')) (server_accept_loop fcntl as)
      else do {
        se \<leftarrow> server_accept fcntl (ac_transport a) (ac_connection a) (ac_fd a) (ac_world a);
        _ \<leftarrow> server_session (ac_events a) se;
        lines \<leftarrow> session_prints server_round server_round_prints (ac_events a) se;
        if session_ended server_round (ac_events a) se
        then do {
          outs \<leftarrow> server_accept_loop fcntl as;
          Some (Printf (''Client connected.'' @ [CHR 0x0A]) # map Printf lines @ server_goodbye (ac_fd a) @ outs)
        }
        else Some (Printf (''Client connected.'' @ [CHR 0x0A]) # map Printf lines)
      })"

record server_calls =
  sc_socket :: int
  sc_setsockopt :: "int \<Rightarrow> int \<Rightarrow> int \<Rightarrow> int"
  sc_bind :: "int \<Rightarrow> sockaddr_in \<Rightarrow> int"
  sc_listen :: "int \<Rightarrow> int \<Rightarrow> int"

definition server_main ::
  "server_calls \<Rightarrow> (int \<Rightarrow> fcntl_cmd \<Rightarrow> 'w \<Rightarrow> int \<times> 'w) \<Rightarrow> 'w accepted list \<Rightarrow> (main_event list \<times> int option) option" where
  "server_main calls fcntl as =
     (let server_fd = sc_socket calls
      in if server_fd = 0 then Some ([Perror ''socket failed''], Some EXIT_FAILURE)
      else if sc_setsockopt calls server_fd SOL_SOCKET (SO_REUSEADDR OR SO_REUSEPORT) \<noteq> 0
      then Some ([Perror ''setsockopt''], Some EXIT_FAILURE)
      else if sc_bind calls server_fd \<lparr>sin_family = AF_INET, sin_port = PORT, sin_addr = ''0.0.0.0''\<rparr> < 0
      then Some ([Perror ''bind failed''], Some EXIT_FAILURE)
      else if sc_listen calls server_fd 3 < 0
      then Some ([Perror ''listen''], Some EXIT_FAILURE)
      else do {
        outs \<leftarrow> server_accept_loop fcntl as;
        Some (Printf (''Server listening on port 8080'' @ [CHR 0x0A]) # outs, None)
      })"

record client_calls =
  cc_socket :: int
  cc_inet_pton :: "string \<Rightarrow> int"
  cc_connect :: "int \<Rightarrow> sockaddr_in \<Rightarrow> int"

definition client_main ::
  "client_calls \<Rightarrow> (int \<Rightarrow> fcntl_cmd \<Rightarrow> 'w \<Rightarrow> int \<times> 'w) \<Rightarrow> pw_transport \<Rightarrow> pw_connection \<Rightarrow> poll_event list \<Rightarrow> 'w \<Rightarrow>
   (main_event list \<times> int option) option" where
  "client_main calls fcntl junk_tr junk_conn evs w =
     (let sock = cc_socket calls
      in if sock < 0 then Some ([Printf ([CHR 0x0A] @ '' Socket creation error '' @ [CHR 0x0A])], Some (-1))
      else if cc_inet_pton calls ''127.0.0.1'' \<le> 0
      then Some ([Printf ([CHR 0x0A] @ ''Invalid address/ Address not supported '' @ [CHR 0x0A])], Some (-1))
      else if cc_connect calls sock \<lparr>sin_family = AF_INET, sin_port = PORT, sin_addr = ''127.0.0.1''\<rparr> < 0
      then Some ([Printf ([CHR 0x0A] @ ''Connection Failed '' @ [CHR 0x0A])], Some (-1))
      else do {
        se \<leftarrow> client_start fcntl junk_tr junk_conn sock w;
        _ \<leftarrow> client_session evs se;
        lines \<leftarrow> session_prints client_round client_round_prints evs se;
        if session_ended client_round evs se
        then (case client_goodbye sock of
            (outs, code) \<Rightarrow> Some (Printf (''Connected to server.'' @ [CHR 0x0A]) # map Printf lines @ outs, code))
        else Some (Printf (''Connected to server.'' @ [CHR 0x0A]) # map Printf lines, None)
      })"

section \<open>The accept loop\<close>

lemma refused_ended: "state_of se = PW_STATE_DISCONNECTED \<Longrightarrow> session_ended round evs se"
  by (cases evs) simp_all

lemma refused_silent: "state_of se = PW_STATE_DISCONNECTED \<Longrightarrow> session_prints round prints evs se = Some []"
  by (cases evs) (simp_all add: session_prints.simps)

definition accept_trace :: "'w accepted \<Rightarrow> main_event list" where
  "accept_trace a =
     (if ac_fd a < 0 then [Perror ''accept'']
      else [Printf (''Client connected.'' @ [CHR 0x0A]), Close (ac_fd a), Printf (''Connection closed.'' @ [CHR 0x0A])])"

lemma server_accept_loop_trace: "server_accept_loop fcntl as = Some (concat (map accept_trace as))"
proof (induction as)
  case (Cons a as)
  from server_session_never_runs [of fcntl "ac_transport a" "ac_connection a" "ac_fd a" "ac_world a"] obtain se where
    "server_accept fcntl (ac_transport a) (ac_connection a) (ac_fd a) (ac_world a) = Some se"
    "state_of se = PW_STATE_DISCONNECTED" "server_session (ac_events a) se = Some se" by blast
  with refused_ended refused_silent Cons.IH show ?case by (simp add: accept_trace_def server_goodbye_def)
qed simp

section \<open>The client's conversation as one session\<close>

lemma session_ended_closed:
  assumes "client_session evs se = Some se'" and "state_of se' = PW_STATE_CLOSED \<or> state_of se' = PW_STATE_DISCONNECTED"
  shows "session_ended client_round evs se"
  using assms
  by (induction evs arbitrary: se) (auto split: option.splits if_splits)

section \<open>Properties\<close>

text \<open>C15: The daemon serves nobody: once it listens, it greets every accepted connection and closes its
  descriptor, each exactly once and in the order of the accepts, reports every failed accept, and goes on;
  it prints nothing else, and not a byte is read from a client or sent to one, because each session is refused at its start. Nothing
  that the clients send can change this, and the program never leaves the loop.\<close>

theorem server_main_serves_nobody:
  assumes "sc_socket calls \<noteq> 0"
    and "sc_setsockopt calls (sc_socket calls) SOL_SOCKET (SO_REUSEADDR OR SO_REUSEPORT) = 0"
    and "0 \<le> sc_bind calls (sc_socket calls) \<lparr>sin_family = AF_INET, sin_port = PORT, sin_addr = ''0.0.0.0''\<rparr>"
    and "0 \<le> sc_listen calls (sc_socket calls) 3"
  shows "server_main calls fcntl as = Some (Printf (''Server listening on port 8080'' @ [CHR 0x0A]) #
    concat (map (\<lambda>a. if ac_fd a < 0 then [Perror ''accept'']
      else [Printf (''Client connected.'' @ [CHR 0x0A]), Close (ac_fd a), Printf (''Connection closed.'' @ [CHR 0x0A])]) as), None)"
proof -
  have eq: "(\<lambda>a. if ac_fd a < 0 then [Perror ''accept'']
      else [Printf (''Client connected.'' @ [CHR 0x0A]), Close (ac_fd a), Printf (''Connection closed.'' @ [CHR 0x0A])])
      = accept_trace"
    by (rule ext) (rule accept_trace_def [symmetric])
  show ?thesis
    unfolding eq using assms server_accept_loop_trace [of fcntl as] by (simp add: server_main_def Let_def)
qed

theorem server_main_serves_nobody_witness:
  "let calls = \<lparr>sc_socket = 3, sc_setsockopt = (\<lambda>fd level opt. 0), sc_bind = (\<lambda>fd a. 0), sc_listen = (\<lambda>fd n. 0)\<rparr>;
       a = \<lparr>ac_fd = 4, ac_transport = transport_with [], ac_connection = \<lparr>conn_state = PW_STATE_READY\<rparr>,
            ac_events = [bring client_auth_message quiet_poll], ac_world = ()\<rparr>
   in server_main calls (\<lambda>fd cmd w. (0, w)) [a, a\<lparr>ac_fd := -1\<rparr>] = Some
        ([Printf (''Server listening on port 8080'' @ [CHR 0x0A]), Printf (''Client connected.'' @ [CHR 0x0A]), Close 4,
          Printf (''Connection closed.'' @ [CHR 0x0A]), Perror ''accept''], None)"
  unfolding Let_def by (subst server_main_serves_nobody) simp_all

text \<open>C16: The client program comes to its end against a server that answers in order: when the socket is
  connected, and after the hello has gone out the rounds bring a server hello, AUTH_OK, some text message
  of fewer than 128 bytes and PONG, each in one piece and followed by a round in which everything can be
  written, then the program prints exactly the lines listed, the text of the message up to its first zero
  byte, closes its descriptor exactly once and exits with 0, whatever the stack contained. A set-up call that fails ends it with -1 before anything is closed.\<close>

theorem client_main_completes:
  assumes "length (tr_read_buffer jt) = 4096" and "length (tr_write_buffer jt) = 4096"
    and "hello_junk ev" and "server_hello_wf h"
    and "is_message f pl" and "fr_opcode f = opcode_byte PW_OPCODE_DATA_TEXT" and "length pl < 128"
  shows "\<exists>msgs. client_main calls fcntl jt jc (flush ev # bring (server_hello_bytes h) ev # flush ev #
      bring (frame_bytes PW_OPCODE_AUTH_OK) ev # flush ev # bring (frame_header_bytes f @ pl) ev # flush ev #
      bring (frame_bytes PW_OPCODE_PONG) ev # flush ev # es) w =
    (if 0 \<le> cc_socket calls \<and> 0 < cc_inet_pton calls ''127.0.0.1'' \<and>
        0 \<le> cc_connect calls (cc_socket calls) \<lparr>sin_family = AF_INET, sin_port = PORT, sin_addr = ''127.0.0.1''\<rparr>
     then Some ([Printf (''Connected to server.'' @ [CHR 0x0A]), Printf (''Handshake accepted.'' @ [CHR 0x0A]),
       Printf (''Auth OK.'' @ [CHR 0x0A]),
       Printf (''Received Echo: '' @ map (\<lambda>b. char_of (unat b)) (takeWhile (\<lambda>b. b \<noteq> 0) pl) @ [CHR 0x0A]),
       Printf (''Received PONG. Initiating graceful CLOSE.'' @ [CHR 0x0A]),
       Close (cc_socket calls), Printf (''Client exited.'' @ [CHR 0x0A])], Some 0)
     else Some ([Printf msgs], Some (-1)))"
proof (cases "0 \<le> cc_socket calls \<and> 0 < cc_inet_pton calls ''127.0.0.1'' \<and>
    0 \<le> cc_connect calls (cc_socket calls) \<lparr>sin_family = AF_INET, sin_port = PORT, sin_addr = ''127.0.0.1''\<rparr>")
  case False
  then show ?thesis by (auto simp: client_main_def Let_def not_le not_less)
next
  case True
  let ?evs = "flush ev # bring (server_hello_bytes h) ev # flush ev #
      bring (frame_bytes PW_OPCODE_AUTH_OK) ev # flush ev # bring (frame_header_bytes f @ pl) ev # flush ev #
      bring (frame_bytes PW_OPCODE_PONG) ev # flush ev # es"
  from client_tells_ready [OF assms(1,2) _ assms(3,4), of "cc_socket calls" fcntl jc w] True obtain c0 c3 where
    start: "client_start fcntl jt jc (cc_socket calls) w = Some c0" and c3: "state_of c3 = PW_STATE_READY" "idle (se_tr c3)"
    and run: "client_tells.leads [flush ev, bring (server_hello_bytes h) ev, flush ev, bring (frame_bytes PW_OPCODE_AUTH_OK) ev,
      flush ev] c0 [text_line ''Handshake accepted.'', text_line ''Auth OK.''] c3" by blast
  from client_tells_closed [OF c3 assms(5-7), of ev] obtain c' where c': "state_of c' = PW_STATE_CLOSED"
    "client_tells.leads [bring (frame_header_bytes f @ pl) ev, flush ev, bring (frame_bytes PW_OPCODE_PONG) ev, flush ev] c3
      [text_line (''Received Echo: '' @ shown pl), text_line ''Received PONG. Initiating graceful CLOSE.''] c'" by blast
  from client_tells.leads_end [OF client_tells.leads_trans [OF run c'(2)] c'(1), of es]
  have e: "client_session ?evs c0 = Some c'" "session_prints client_round client_round_prints ?evs c0 =
      Some [text_line ''Handshake accepted.'', text_line ''Auth OK.'', text_line (''Received Echo: '' @ shown pl),
        text_line ''Received PONG. Initiating graceful CLOSE.'']"
    by (simp_all del: client_session.simps)
  from session_ended_closed [OF e(1)] c'(1) have "session_ended client_round ?evs c0" by blast
  with True start e show ?thesis
    by (simp add: client_main_def client_goodbye_def Let_def text_line_def shown_def
        del: client_session.simps session_ended.simps)
qed

theorem client_main_completes_witness:
  "let ev = quiet_poll; calls = \<lparr>cc_socket = 3, cc_inet_pton = (\<lambda>a. 1), cc_connect = (\<lambda>fd a. 0)\<rparr>
   in client_main calls (\<lambda>fd cmd w. (0, w)) (transport_with []) \<lparr>conn_state = PW_STATE_CLOSED\<rparr>
        [flush ev, bring (server_hello_bytes server_hello_zero) ev, flush ev,
         bring (frame_bytes PW_OPCODE_AUTH_OK) ev, flush ev,
         bring (frame_header_bytes client_data_frame @ client_msg) ev, flush ev,
         bring (frame_bytes PW_OPCODE_PONG) ev, flush ev] () =
      Some ([Printf (''Connected to server.'' @ [CHR 0x0A]), Printf (''Handshake accepted.'' @ [CHR 0x0A]),
        Printf (''Auth OK.'' @ [CHR 0x0A]), Printf (''Received Echo: Hello from client!'' @ [CHR 0x0A]),
        Printf (''Received PONG. Initiating graceful CLOSE.'' @ [CHR 0x0A]),
        Close 3, Printf (''Client exited.'' @ [CHR 0x0A])], Some 0)"
proof -
  have b: "length (tr_read_buffer (transport_with [])) = 4096" "length (tr_write_buffer (transport_with [])) = 4096"
    by (simp_all add: transport_with_def)
  have junk: "hello_junk quiet_poll" by (simp add: hello_junk_def quiet_poll_def)
  have d: "is_message client_data_frame client_msg" "fr_opcode client_data_frame = opcode_byte PW_OPCODE_DATA_TEXT"
    "length client_msg < 128"
    by (simp_all add: is_message_def client_data_frame_def client_msg_def frame_init_def)
  have hello: "map (\<lambda>b. char_of (unat b)) (takeWhile (\<lambda>b. b \<noteq> 0) client_msg) = ''Hello from client!''"
    by code_simp
  show ?thesis
    using client_main_completes [OF b junk server_hello_wf_zero d, of
        "\<lparr>cc_socket = 3, cc_inet_pton = (\<lambda>a. 1), cc_connect = (\<lambda>fd a. 0)\<rparr>" "\<lambda>fd cmd w. (0, w)"
        "\<lparr>conn_state = PW_STATE_CLOSED\<rparr>" "[]" "()"]
    by (simp add: hello)
qed

end
