(* ===== verification/PW_Network.thy ===== *)
theory PW_Network
  imports PW_Client_Run PW_Server_Run
begin

text \<open>
  The two programs on a network. What one program has sent and the other has not yet received is in
  flight, in one queue per direction. The programs take their rounds in any order; a \<open>recv\<close> brings any
  part of what is in flight, or nothing, and a \<open>send\<close> takes any part of what it is offered, or
  nothing. When a program has left its loop its descriptor is closed: then the other one may come to the end
  of the stream, once it has received everything. The locale \<open>conversant\<close> says what a round of a program
  does when it speaks and when it listens; both programs are its interpretations.
\<close>

section \<open>The network\<close>

record network =
  nw_client :: session
  nw_client_runs :: bool
  nw_server :: session
  nw_server_runs :: bool
  nw_up :: "byte list"
  nw_down :: "byte list"

text \<open>A round of \<open>poll\<close> that brings a part of the queue, or its end when the other side is gone.\<close>

definition carries :: "bool \<Rightarrow> byte list \<Rightarrow> poll_event \<Rightarrow> bool" where
  "carries gone q ev \<longleftrightarrow> 0 \<le> pe_result ev \<and> hello_junk ev \<and> send_ok (pe_send ev) \<and>
     (\<forall>fd n. case pe_recv ev fd n of
        Received bs e \<Rightarrow> length bs \<le> n \<and> bs = take (length bs) q \<and> (bs = [] \<longrightarrow> n = 0 \<or> gone \<and> q = [])
      | RecvFailed e \<Rightarrow> e = EAGAIN \<or> gone \<and> q = [])"

text \<open>What the programs send in a round: the client writes before it reads, the server after it has read.
  Both write only if there was something to write before the round.\<close>

definition said_by :: "poll_event \<Rightarrow> session \<Rightarrow> byte list" where
  "said_by ev se =
     (case pe_send ev (tr_fd (se_tr se)) (unsent (se_tr se)) of
        Sent n e \<Rightarrow> take n (unsent (se_tr se))
      | SendFailed e \<Rightarrow> [])"

definition client_says :: "poll_event \<Rightarrow> session \<Rightarrow> byte list" where
  "client_says ev se = (if pe_out ev \<and> 0 < tr_write_len (se_tr se) then said_by ev se else [])"

definition server_says :: "poll_event \<Rightarrow> session \<Rightarrow> byte list" where
  "server_says ev se =
     (if pe_out ev \<and> 0 < tr_write_len (se_tr se)
      then case read_half server_read_loop ev se of Some (True, se1) \<Rightarrow> said_by ev se1 | _ \<Rightarrow> []
      else [])"

text \<open>A step is a round of one of the programs, labelled with the number of bytes that it moves.\<close>

inductive net_step :: "nat \<Rightarrow> network \<Rightarrow> network \<Rightarrow> bool" where
  client_moves: "net_step (length (client_says ev (nw_client nw)) + length (hears ev (nw_client nw))) nw
    (nw\<lparr>nw_client := c, nw_client_runs := go_on \<and> open_session c, nw_up := nw_up nw @ client_says ev (nw_client nw),
        nw_down := drop (length (hears ev (nw_client nw))) (nw_down nw)\<rparr>)"
    if "nw_client_runs nw" and "carries (\<not> nw_server_runs nw) (nw_down nw) ev"
      and "client_round ev (nw_client nw) = Some (go_on, c)"
| server_moves: "net_step (length (server_says ev (nw_server nw)) + length (hears ev (nw_server nw))) nw
    (nw\<lparr>nw_server := s, nw_server_runs := go_on \<and> open_session s, nw_down := nw_down nw @ server_says ev (nw_server nw),
        nw_up := drop (length (hears ev (nw_server nw))) (nw_up nw)\<rparr>)"
    if "nw_server_runs nw" and "carries (\<not> nw_client_runs nw) (nw_up nw) ev"
      and "server_round ev (nw_server nw) = Some (go_on, s)"

inductive net_run :: "network \<Rightarrow> nat \<Rightarrow> network \<Rightarrow> bool" for nw :: network where
  net_start: "net_run nw 0 nw"
| net_further: "net_run nw (n + k) nw2" if "net_run nw n nw1" and "net_step k nw1 nw2"

section \<open>Speaking and listening\<close>

definition speaking :: "byte list \<Rightarrow> pw_transport \<Rightarrow> bool" where
  "speaking rest tr \<longleftrightarrow> transport_ok tr \<and> 0 \<le> tr_fd tr \<and> unread tr = [] \<and> unsent tr = rest \<and>
     (rest = [] \<longrightarrow> tr_write_pos tr = 0)"

definition listening :: "byte list \<Rightarrow> pw_transport \<Rightarrow> bool" where
  "listening got tr \<longleftrightarrow> transport_ok tr \<and> 0 \<le> tr_fd tr \<and> unread tr = got \<and> tr_write_len tr = 0 \<and> tr_write_pos tr = 0"

lemma speaking_done: "speaking [] tr \<longleftrightarrow> listening [] tr"
  using length_unsent [of tr] by (auto simp: speaking_def listening_def unsent_def)

lemma speakingD:
  assumes "speaking rest tr"
  shows "transport_ok tr" "0 \<le> tr_fd tr" "unread tr = []" "unsent tr = rest" "tr_read_len tr = 0"
    "tr_write_len tr = length rest"
  using assms length_unread [of tr] length_unsent [of tr] by (auto simp: speaking_def)

lemma listeningD:
  assumes "listening got tr"
  shows "transport_ok tr" "0 \<le> tr_fd tr" "unread tr = got" "tr_read_len tr = length got" "tr_write_len tr = 0"
    "n \<le> 4096 \<Longrightarrow> writable tr n"
  using assms length_unread [of tr] by (auto simp: listening_def writable_def)

text \<open>The rounds in which nothing arrives and the stream has not come to its end.\<close>

definition hush :: "int \<Rightarrow> poll_event \<Rightarrow> bool" where
  "hush fd ev \<longleftrightarrow> pe_in ev \<longrightarrow> pe_recv ev fd 4096 = RecvFailed EAGAIN \<or> pe_recv ev fd 4096 = Received [] EAGAIN"

lemma carries_hush: "carries False [] ev \<Longrightarrow> hush fd ev"
  unfolding carries_def hush_def by (fastforce split: recv_result.splits)

lemma carries_hears: "carries gone [] ev \<Longrightarrow> hears ev se = []"
  by (auto simp: carries_def hears_def received_by_def split: recv_result.splits)

lemma hush_reads:
  assumes "speaking rest tr" and "hush (tr_fd tr) ev" and "pe_in ev"
  shows "\<exists>r tr'. pw_transport_read (pe_recv ev) (pe_errno ev) (Some tr) = Some (r, EAGAIN, Some tr') \<and>
    speaking rest tr' \<and> same_writing tr tr'"
proof -
  note s = speakingD [OF assms(1)]
  from assms(2,3) have h: "pe_recv ev (tr_fd tr) 4096 = RecvFailed EAGAIN \<or> pe_recv ev (tr_fd tr) 4096 = Received [] EAGAIN"
    by (simp add: hush_def)
  then have fits: "recv_fits (pe_recv ev) tr" using s(5) by (auto simp: recv_fits_def)
  have "received_by (pe_recv ev) tr = []" using h s(5) by (auto simp: received_by_def)
  with read_any [OF transport_halves(1) [OF s(1)] s(2) fits, of "pe_errno ev"] obtain r e tr' where
    r: "pw_transport_read (pe_recv ev) (pe_errno ev) (Some tr) = Some (r, e, Some tr')"
    "reading_ok tr'" "unread tr' = unread tr" "same_writing tr tr'" by auto
  have h': "pe_recv ev (tr_fd tr) (4096 - tr_read_len tr) \<in> {RecvFailed EAGAIN, Received [] EAGAIN}"
    using h s(5) by simp
  have "e = EAGAIN"
  proof (rule read_cases [OF s(1,2) fits, of "pe_errno ev"])
    assume "tr_read_len tr = 4096"
    with s(5) show ?thesis by simp
  next
    fix bs e' tr1
    assume a: "pe_recv ev (tr_fd tr) (4096 - tr_read_len tr) = Received bs e'"
      "pw_transport_read (pe_recv ev) (pe_errno ev) (Some tr) = Some (int (length bs), e', Some tr1)"
    from a(2) r(1) have "e = e'" by simp
    with a(1) h' show ?thesis by auto
  next
    fix e' tr1
    assume a: "pe_recv ev (tr_fd tr) (4096 - tr_read_len tr) = RecvFailed e'"
      "pw_transport_read (pe_recv ev) (pe_errno ev) (Some tr) = Some (if e' = EAGAIN then - EAGAIN else -1, e', Some tr1)"
    from a(2) r(1) have "e = e'" by simp
    with a(1) h' show ?thesis by auto
  qed
  moreover have "transport_ok tr'"
    using r(2) same_writingD [OF r(4)] iffD1 [OF transport_ok_halves s(1)] iffD2 [OF transport_ok_halves [of tr']] by simp
  then have "speaking rest tr'"
    using assms(1) r(3) same_writingD(2,3,5) [OF r(4)] by (simp add: speaking_def)
  ultimately show ?thesis using r by blast
qed

lemma poll_write_speaks:
  assumes "speaking rest (se_tr se)" and "rest \<noteq> []" and "send_ok (pe_send ev)"
  shows "\<exists>tr. poll_write ev se = Some \<lparr>se_conn = (if unsent tr = [] then closing_done (se_conn se) else se_conn se), se_tr = tr\<rparr> \<and>
    speaking (unsent tr) tr \<and> rest = said_by ev se @ unsent tr \<and> tr_fd tr = tr_fd (se_tr se)"
proof -
  note s = speakingD [OF assms(1)]
  show ?thesis
  proof (rule write_cases [OF s(1,2) assms(3), of "pe_errno ev"])
    assume "tr_write_len (se_tr se) = 0"
    with s(6) assms(2) show ?thesis by simp
  next
    fix n e tr'
    assume w: "pe_send ev (tr_fd (se_tr se)) (unsent (se_tr se)) = Sent n e" "n \<le> length (unsent (se_tr se))"
      "pw_transport_write (pe_send ev) (pe_errno ev) (Some (se_tr se)) = Some (int n, e, Some tr')"
      "transport_ok tr'" "unsent tr' = drop n (unsent (se_tr se))" "unread tr' = unread (se_tr se)"
      "tr_fd tr' = tr_fd (se_tr se)" "tr_write_len tr' = tr_write_len (se_tr se) - n"
      "n = tr_write_len (se_tr se) \<Longrightarrow> tr_write_pos tr' = 0"
    then have "speaking (unsent tr') tr'" using s by (auto simp: speaking_def)
    moreover have "unsent tr' = [] \<longleftrightarrow> tr_write_len tr' = 0" using length_unsent [OF w(4)] by (metis length_0_conv)
    ultimately show ?thesis
      using w(1,3,5,7) s(4) by (intro exI [of _ tr'])
        (cases se, simp add: poll_write_def Let_def closing_done_def goto_state_eq to_closed said_by_def)
  next
    fix e
    assume w: "pe_send ev (tr_fd (se_tr se)) (unsent (se_tr se)) = SendFailed e"
      "pw_transport_write (pe_send ev) (pe_errno ev) (Some (se_tr se)) =
        Some (if e = EAGAIN then - EAGAIN else -1, e, Some (se_tr se))"
    with s assms show ?thesis
      by (intro exI [of _ "se_tr se"]) (cases se, simp add: poll_write_def Let_def said_by_def)
  qed
qed

lemma said_by_same: "same_writing (se_tr se) (se_tr se') \<Longrightarrow> said_by ev se' = said_by ev se"
  by (simp add: said_by_def same_writingD cong: send_result.case_cong)

text \<open>A program that has read a message whole in some state queues an answer and changes its state, and
  leaves a part of it alone.\<close>

definition reacts :: "program_step \<Rightarrow> pw_connection \<Rightarrow> byte list \<Rightarrow> byte list \<Rightarrow> pw_connection \<Rightarrow> bool" where
  "reacts step c m out c' \<longleftrightarrow> (\<forall>ev tr. hello_junk ev \<longrightarrow>
     (listening m tr \<longrightarrow> step ev \<lparr>se_conn = c, se_tr = tr\<rparr> =
        Some (True, \<lparr>se_conn = c', se_tr = queue_out out (transport_consume tr (length m))\<rparr>)) \<and>
     (\<forall>k < length m. listening (take k m) tr \<longrightarrow>
        step ev \<lparr>se_conn = c, se_tr = tr\<rparr> = Some (False, \<lparr>se_conn = c, se_tr = tr\<rparr>)))"

lemma speaks_write:
  assumes "speaking rest (se_tr se)" and "send_ok (pe_send ev)"
  shows "\<exists>tr. (if out \<and> 0 < tr_write_len (se_tr se) then poll_write ev se else Some se) =
      Some \<lparr>se_conn = (if rest \<noteq> [] \<and> unsent tr = [] then closing_done (se_conn se) else se_conn se), se_tr = tr\<rparr> \<and>
    speaking (unsent tr) tr \<and> rest = (if out \<and> 0 < tr_write_len (se_tr se) then said_by ev se else []) @ unsent tr \<and>
    tr_fd tr = tr_fd (se_tr se)"
proof (cases "out \<and> 0 < tr_write_len (se_tr se)")
  case True
  then have "rest \<noteq> []" using speakingD(6) [OF assms(1)] by auto
  with True poll_write_speaks [OF assms(1) _ assms(2)] show ?thesis by simp
next
  case False
  with assms(1) speakingD(4) [OF assms(1)] show ?thesis by (intro exI [of _ "se_tr se"]) auto
qed

context read_loop begin

lemma read_half_hush:
  assumes "speaking rest (se_tr se)" and "hush (tr_fd (se_tr se)) ev"
  shows "\<exists>tr. read_half loop ev se = Some (True, se\<lparr>se_tr := tr\<rparr>) \<and> speaking rest tr \<and> same_writing (se_tr se) tr"
proof (cases "pe_in ev")
  case False
  with assms(1) show ?thesis by (intro exI [of _ "se_tr se"]) (simp add: read_half_def same_writing_def)
next
  case True
  from hush_reads [OF assms True] obtain r tr where
    r: "pw_transport_read (pe_recv ev) (pe_errno ev) (Some (se_tr se)) = Some (r, EAGAIN, Some tr)"
    "speaking rest tr" "same_writing (se_tr se) tr" by blast
  have "loop ev (se\<lparr>se_tr := tr\<rparr>) = Some (se\<lparr>se_tr := tr\<rparr>)"
    using speakingD(5) [OF r(2)] by (simp add: loop_unfold [of ev "se\<lparr>se_tr := tr\<rparr>"])
  with True r show ?thesis by (intro exI [of _ tr]) (simp add: read_half_def)
qed

end

text \<open>The state of a speaker that has written the rest of its message.\<close>

definition spoken :: "byte list \<Rightarrow> pw_connection_state \<Rightarrow> pw_connection_state" where
  "spoken rest s = (if rest = [] \<and> s = PW_STATE_CLOSING then PW_STATE_CLOSED else s)"

text \<open>The contract of a program in a conversation: a round without anything to write is the read half, and a
  round in which nothing arrives is the write half.\<close>

locale conversant = read_loop +
  fixes round :: program_step
    and says :: "poll_event \<Rightarrow> session \<Rightarrow> byte list"
  assumes round_listens: "0 \<le> pe_result ev \<Longrightarrow> tr_write_len (se_tr se) = 0 \<Longrightarrow> round ev se = read_half loop ev se"
    and says_listens: "tr_write_len (se_tr se) = 0 \<Longrightarrow> says ev se = []"
    and round_speaks: "0 \<le> pe_result ev \<Longrightarrow> send_ok (pe_send ev) \<Longrightarrow> speaking rest (se_tr se) \<Longrightarrow> hush (tr_fd (se_tr se)) ev \<Longrightarrow>
      \<exists>tr. round ev se = Some (True, \<lparr>se_conn = (if rest \<noteq> [] \<and> unsent tr = [] then closing_done (se_conn se) else se_conn se),
          se_tr = tr\<rparr>) \<and> speaking (unsent tr) tr \<and> rest = says ev se @ unsent tr"
begin

lemma loop_waits:
  assumes "reacts step (se_conn se) m out c'" and "hello_junk ev" and "listening (take k m) (se_tr se)" and "k < length m"
  shows "loop ev se = Some se"
proof (cases "k = 0")
  case True
  with assms(3) listeningD(4) [OF assms(3)] show ?thesis by (simp add: loop_unfold [of ev se])
next
  case False
  with assms(4) listeningD(4) [OF assms(3)] have "tr_read_len (se_tr se) \<noteq> 0" by (auto simp: min_def)
  moreover have "step ev se = Some (False, se)"
    using assms unfolding reacts_def by (metis session.surjective old.unit.exhaust)
  ultimately show ?thesis by (simp add: loop_unfold [of ev se])
qed

lemma loop_answers:
  assumes "reacts step (se_conn se) m out c'" and "hello_junk ev" and "listening m (se_tr se)"
    and "m \<noteq> []" and "length out \<le> 4096"
  shows "\<exists>tr. loop ev se = Some \<lparr>se_conn = c', se_tr = tr\<rparr> \<and> speaking out tr"
proof -
  let ?tr = "transport_consume (se_tr se) (length m)"
  define se' where "se' = \<lparr>se_conn = c', se_tr = queue_out out ?tr\<rparr>"
  note l = listeningD [OF assms(3)]
  have step: "step ev se = Some (True, se')"
    using assms(1-3) unfolding reacts_def se'_def by (metis session.surjective old.unit.exhaust)
  from consume_ok [OF l(1) eq_refl [OF l(4) [symmetric]]] l
  have t: "listening [] ?tr" using assms(3) by (simp add: listening_def transport_consume_def)
  note w = queue_out_writable [OF listeningD(6) [OF t, of "length out + 0"]]
  have "unsent ?tr = []" using t by (simp only: speaking_done [symmetric] speakingD(4))
  with w assms(5) t have s: "speaking out (queue_out out ?tr)"
    by (simp add: speaking_def writable_def listening_def)
  have "tr_read_len (se_tr se') = 0" using speakingD(5) [OF s] by (simp add: se'_def)
  with step l(4) assms(4) have "loop ev se = Some se'"
    by (simp add: loop_unfold [of ev se] loop_unfold [of ev se'])
  with s show ?thesis by (auto simp: se'_def)
qed

text \<open>What a listener does with a part that has arrived: it answers when the message is complete.\<close>

lemma loop_hears:
  assumes "listening (got @ bs) tr" and "got @ bs @ rest = m" and "m \<noteq> []" and "length out \<le> 4096"
    and "hello_junk ev" and "reacts step (se_conn se) m out c'"
  shows "if got @ bs = m then \<exists>tr'. loop ev (se\<lparr>se_tr := tr\<rparr>) = Some \<lparr>se_conn = c', se_tr = tr'\<rparr> \<and> speaking out tr'
    else loop ev (se\<lparr>se_tr := tr\<rparr>) = Some (se\<lparr>se_tr := tr\<rparr>)"
proof (cases "got @ bs = m")
  case True
  with loop_answers [of "se\<lparr>se_tr := tr\<rparr>" m out c' ev] assms show ?thesis by simp
next
  case False
  have c: "got @ bs = take (length (got @ bs)) m" using assms(2) by (metis append.assoc append_eq_conv_conj)
  with False have k: "length (got @ bs) < length m" by (metis linorder_not_less take_all_iff)
  with loop_waits [of "se\<lparr>se_tr := tr\<rparr>" m out c' ev "length (got @ bs)"] assms(1,5,6) c False
  show ?thesis by simp
qed

text \<open>The read of a listener: it gets a part of the queue, possibly nothing, and goes on to its loop.\<close>

lemma listener_reads:
  assumes "carries gone q ev" and "gone \<Longrightarrow> q \<noteq> []" and "listening got (se_tr se)" and "length got < 4096"
  shows "\<exists>bs tr. hears ev se = bs \<and> bs = take (length bs) q \<and> listening (got @ bs) tr \<and>
    (read_half loop ev se = map_option (Pair True) (loop ev (se\<lparr>se_tr := tr\<rparr>)) \<or>
     bs = [] \<and> read_half loop ev se = Some (True, se\<lparr>se_tr := tr\<rparr>))"
proof (cases "pe_in ev")
  case False
  then have "hears ev se = []" "read_half loop ev se = Some (True, se)" by (simp_all add: hears_def read_half_def)
  with assms(3) show ?thesis by (intro exI [of _ "[]"] exI [of _ "se_tr se"]) simp
next
  case True
  note l = listeningD [OF assms(3)]
  have p: "0 \<le> pe_result ev" using assms(1) by (simp add: carries_def)
  from assms(1) have recv: "case pe_recv ev (tr_fd (se_tr se)) (4096 - length got) of
      Received bs e \<Rightarrow> length bs \<le> 4096 - length got \<and> bs = take (length bs) q \<and> bs \<noteq> []
    | RecvFailed e \<Rightarrow> e = EAGAIN"
    using assms(2,4) by (fastforce simp: carries_def split: recv_result.splits)
  then have fits: "recv_fits (pe_recv ev) (se_tr se)" using l(4) by (auto simp: recv_fits_def)
  show ?thesis
  proof (rule read_cases [OF l(1,2) fits, of "pe_errno ev"])
    assume "tr_read_len (se_tr se) = 4096"
    with assms(4) l(4) show ?thesis by simp
  next
    fix bs e tr'
    assume r: "tr_read_len (se_tr se) < 4096" "pe_recv ev (tr_fd (se_tr se)) (4096 - tr_read_len (se_tr se)) = Received bs e"
      "pw_transport_read (pe_recv ev) (pe_errno ev) (Some (se_tr se)) = Some (int (length bs), e, Some tr')"
      "transport_ok tr'" "unread tr' = unread (se_tr se) @ bs" "tr_fd tr' = tr_fd (se_tr se)"
      "tr_write_pos tr' = tr_write_pos (se_tr se)" "tr_write_len tr' = tr_write_len (se_tr se)"
    have bs: "bs = take (length bs) q" "bs \<noteq> []" using recv r(2) l(4) by simp_all
    have "hears ev se = bs" using True p r(1,2) l(2) by (simp add: hears_def received_by_def)
    moreover have "listening (got @ bs) tr'" using r(4-8) assms(3) by (simp add: listening_def)
    moreover have "read_half loop ev se = map_option (Pair True) (loop ev (se\<lparr>se_tr := tr'\<rparr>))"
      using True r(3) bs(2) by (cases "loop ev (se\<lparr>se_tr := tr'\<rparr>)") (simp_all add: read_half_def)
    ultimately show ?thesis using bs(1) by blast
  next
    fix e tr'
    assume r: "tr_read_len (se_tr se) < 4096" "pe_recv ev (tr_fd (se_tr se)) (4096 - tr_read_len (se_tr se)) = RecvFailed e"
      "pw_transport_read (pe_recv ev) (pe_errno ev) (Some (se_tr se)) = Some (if e = EAGAIN then - EAGAIN else -1, e, Some tr')"
      "transport_ok tr'" "unread tr' = unread (se_tr se)" "tr_fd tr' = tr_fd (se_tr se)"
      "tr_write_pos tr' = tr_write_pos (se_tr se)" "tr_write_len tr' = tr_write_len (se_tr se)"
    have e: "e = EAGAIN" using recv r(2) l(4) by simp
    have "hears ev se = []" using r(1,2) l(2) by (simp add: hears_def received_by_def)
    moreover have "listening (got @ []) tr'" using r(4-8) assms(3) by (simp add: listening_def)
    moreover have "read_half loop ev se = map_option (Pair True) (loop ev (se\<lparr>se_tr := tr'\<rparr>))"
      using True r(3) e by (cases "loop ev (se\<lparr>se_tr := tr'\<rparr>)") (simp_all add: read_half_def)
    ultimately show ?thesis by (intro exI [of _ "[]"] exI [of _ tr']) simp
  qed
qed

text \<open>A round of the listener: it takes a part of what is in flight, and answers when the message is complete.\<close>

lemma listens:
  assumes "carries gone q ev" and "gone \<Longrightarrow> q \<noteq> []" and "listening got (se_tr se)"
    and "got @ q @ rest = m" and "got \<noteq> m" and "length m \<le> 4096" and "length out \<le> 4096"
    and "reacts step (se_conn se) m out c'"
  shows "\<exists>bs. hears ev se = bs \<and> bs = take (length bs) q \<and> says ev se = [] \<and>
    (if got @ bs = m then \<exists>tr. round ev se = Some (True, \<lparr>se_conn = c', se_tr = tr\<rparr>) \<and> speaking out tr
     else \<exists>tr. round ev se = Some (True, se\<lparr>se_tr := tr\<rparr>) \<and> listening (got @ bs) tr)"
proof -
  note l = listeningD [OF assms(3)]
  from assms(1) have p: "0 \<le> pe_result ev" and j: "hello_junk ev" by (simp_all add: carries_def)
  have round: "round ev se = read_half loop ev se" "says ev se = []"
    using round_listens [OF p l(5)] says_listens [OF l(5)] by simp_all
  have m: "m \<noteq> []" using assms(4,5) by auto
  have "length got < length m" using assms(4,5) by auto
  with assms(6) have space: "length got < 4096" by simp
  from listener_reads [OF assms(1-3) space] obtain bs tr where
    bs: "hears ev se = bs" "bs = take (length bs) q" and t: "listening (got @ bs) tr"
    and r: "read_half loop ev se = map_option (Pair True) (loop ev (se\<lparr>se_tr := tr\<rparr>)) \<or>
      bs = [] \<and> read_half loop ev se = Some (True, se\<lparr>se_tr := tr\<rparr>)" by blast
  have "got @ bs @ drop (length bs) q @ rest = m" using assms(4) bs(2) by (metis append.assoc append_take_drop_id)
  note h = loop_hears [OF t this m assms(7) j assms(8)]
  from r show ?thesis
  proof
    assume "read_half loop ev se = map_option (Pair True) (loop ev (se\<lparr>se_tr := tr\<rparr>))"
    with h bs round t show ?thesis by (intro exI [of _ bs]) (auto split: if_splits)
  next
    assume "bs = [] \<and> read_half loop ev se = Some (True, se\<lparr>se_tr := tr\<rparr>)"
    with bs round t assms(5) show ?thesis by (intro exI [of _ bs]) auto
  qed
qed

text \<open>The two rounds with the states: what is spoken is taken off the rest, what is heard is a first part of
  the queue.\<close>

lemma speaks_part:
  assumes "carries gone [] ev" and "hush (tr_fd (se_tr se)) ev" and "speaking rest (se_tr se)" and "state_of se = spoken rest st"
  shows "\<exists>se' rest'. round ev se = Some (True, se') \<and> speaking rest' (se_tr se') \<and> state_of se' = spoken rest' st \<and>
    rest = says ev se @ rest' \<and> hears ev se = []"
proof -
  from assms(1) have ev: "0 \<le> pe_result ev" "send_ok (pe_send ev)" by (simp_all add: carries_def)
  from round_speaks [OF ev assms(3,2)] obtain tr where
    r: "round ev se = Some (True, \<lparr>se_conn = (if rest \<noteq> [] \<and> unsent tr = [] then closing_done (se_conn se) else se_conn se),
      se_tr = tr\<rparr>)" "speaking (unsent tr) tr" "rest = says ev se @ unsent tr" by blast
  define se' where "se' = \<lparr>se_conn = (if rest \<noteq> [] \<and> unsent tr = [] then closing_done (se_conn se) else se_conn se), se_tr = tr\<rparr>"
  have "state_of se' = spoken (unsent tr) st"
    using assms(4) r(3) by (auto simp: closing_done_def spoken_def se'_def)
  moreover have "se_tr se' = tr" by (simp add: se'_def)
  ultimately show ?thesis
    using r carries_hears [OF assms(1)] unfolding se'_def [symmetric] by metis
qed

lemma listens_part:
  assumes "carries gone q ev" and "gone \<Longrightarrow> q \<noteq> []" and "listening got (se_tr se)"
    and "got @ q @ rest = m" and "got \<noteq> m" and "length m \<le> 4096" and "length out \<le> 4096"
    and "reacts step \<lparr>conn_state = state_of se\<rparr> m out \<lparr>conn_state = st'\<rparr>"
  shows "\<exists>se' bs. round ev se = Some (True, se') \<and> hears ev se = bs \<and> bs @ drop (length bs) q = q \<and> says ev se = [] \<and>
    (if got @ bs = m then q = bs \<and> rest = [] \<and> speaking out (se_tr se') \<and> state_of se' = st'
     else listening (got @ bs) (se_tr se') \<and> state_of se' = state_of se)"
proof -
  have "\<lparr>conn_state = state_of se\<rparr> = se_conn se" by simp
  from listens [OF assms(1-7) assms(8) [unfolded this]] obtain bs where
    bs: "hears ev se = bs" "bs = take (length bs) q" "says ev se = []"
    and r: "if got @ bs = m then \<exists>tr. round ev se = Some (True, \<lparr>se_conn = \<lparr>conn_state = st'\<rparr>, se_tr = tr\<rparr>) \<and> speaking out tr
      else \<exists>tr. round ev se = Some (True, se\<lparr>se_tr := tr\<rparr>) \<and> listening (got @ bs) tr" by blast
  have q: "bs @ drop (length bs) q = q" using bs(2) by (metis append_take_drop_id)
  show ?thesis
  proof (cases "got @ bs = m")
    case True
    with assms(4) q have "got @ bs @ drop (length bs) q @ rest = got @ bs" by (metis append.assoc)
    then have "drop (length bs) q = []" "rest = []" by simp_all
    with True r bs q show ?thesis by auto
  next
    case False
    with r bs q show ?thesis by auto
  qed
qed

end

section \<open>The programs in a conversation\<close>

interpretation client_talk: conversant client_step client_read_loop client_round client_says
proof unfold_locales
  fix ev :: poll_event and rest and se :: session
  assume a: "0 \<le> pe_result ev" "send_ok (pe_send ev)" "speaking rest (se_tr se)" "hush (tr_fd (se_tr se)) ev"
  let ?out = "pe_out ev \<and> 0 < tr_write_len (se_tr se)"
  from speaks_write [OF a(3,2), of "pe_out ev"] obtain tr where
    w: "(if ?out then poll_write ev se else Some se) = Some \<lparr>se_conn =
      (if rest \<noteq> [] \<and> unsent tr = [] then closing_done (se_conn se) else se_conn se), se_tr = tr\<rparr>"
    "speaking (unsent tr) tr" "rest = (if ?out then said_by ev se else []) @ unsent tr" "tr_fd tr = tr_fd (se_tr se)" by blast
  let ?se1 = "\<lparr>se_conn = (if rest \<noteq> [] \<and> unsent tr = [] then closing_done (se_conn se) else se_conn se), se_tr = tr\<rparr>"
  from client_loop.read_half_hush [of "unsent tr" ?se1 ev] a(4) w(2,4) obtain tr' where
    r: "read_half client_read_loop ev ?se1 = Some (True, ?se1\<lparr>se_tr := tr'\<rparr>)" "speaking (unsent tr) tr'" by auto
  have u: "unsent tr' = unsent tr" using speakingD(4) [OF r(2)] .
  from w(1) r(1) a(1) have "client_round ev se = Some (True, ?se1\<lparr>se_tr := tr'\<rparr>)"
    by (simp add: client_round_halves del: if_split)
  with r(2) u w(3) show "\<exists>tr. client_round ev se = Some (True, \<lparr>se_conn = (if rest \<noteq> [] \<and> unsent tr = []
      then closing_done (se_conn se) else se_conn se), se_tr = tr\<rparr>) \<and> speaking (unsent tr) tr \<and>
      rest = client_says ev se @ unsent tr"
    by (intro exI [of _ tr']) (simp add: client_says_def)
qed (simp_all add: client_round_halves client_says_def)

interpretation server_talk: conversant server_step server_read_loop server_round server_says
proof unfold_locales
  fix ev :: poll_event and se :: session
  assume "0 \<le> pe_result ev" and "tr_write_len (se_tr se) = 0"
  then show "server_round ev se = read_half server_read_loop ev se"
    by (cases "read_half server_read_loop ev se") (auto simp: server_round_halves)
next
  fix ev :: poll_event and rest and se :: session
  assume a: "0 \<le> pe_result ev" "send_ok (pe_send ev)" "speaking rest (se_tr se)" "hush (tr_fd (se_tr se)) ev"
  from server_loop.read_half_hush [OF a(3,4)] obtain tr where
    r: "read_half server_read_loop ev se = Some (True, se\<lparr>se_tr := tr\<rparr>)" "speaking rest tr" "same_writing (se_tr se) tr" by blast
  let ?se1 = "se\<lparr>se_tr := tr\<rparr>"
  have l: "tr_write_len tr = tr_write_len (se_tr se)" using r(3) by (rule same_writingD)
  let ?out = "pe_out ev \<and> 0 < tr_write_len (se_tr ?se1)"
  from speaks_write [of rest ?se1 ev "pe_out ev"] r(2) a(2) obtain tr' where
    w: "(if ?out then poll_write ev ?se1 else Some ?se1) = Some \<lparr>se_conn =
      (if rest \<noteq> [] \<and> unsent tr' = [] then closing_done (se_conn se) else se_conn se), se_tr = tr'\<rparr>"
    "speaking (unsent tr') tr'" "rest = (if ?out then said_by ev ?se1 else []) @ unsent tr'" by auto
  let ?se2 = "\<lparr>se_conn = (if rest \<noteq> [] \<and> unsent tr' = [] then closing_done (se_conn se) else se_conn se), se_tr = tr'\<rparr>"
  have "server_round ev se = map_option (Pair True) (if ?out then poll_write ev ?se1 else Some ?se1)"
    using a(1) r(1) l by (cases "poll_write ev ?se1") (simp_all add: server_round_halves)
  with w(1) have "server_round ev se = Some (True, ?se2)" by simp
  moreover have "server_says ev se = (if ?out then said_by ev ?se1 else [])"
    using r(1) l by (simp add: server_says_def)
  ultimately show "\<exists>tr. server_round ev se = Some (True, \<lparr>se_conn = (if rest \<noteq> [] \<and> unsent tr = []
      then closing_done (se_conn se) else se_conn se), se_tr = tr\<rparr>) \<and> speaking (unsent tr) tr \<and>
      rest = server_says ev se @ unsent tr"
    using w(2,3) by (intro exI [of _ tr']) simp
qed (simp_all add: server_says_def)

text \<open>A server whose client has gone may leave its loop before it has written everything.\<close>

lemma server_hangs_up:
  assumes "carries True [] ev" and "speaking rest (se_tr se)" and "\<not> hush (tr_fd (se_tr se)) ev"
  shows "server_says ev se = [] \<and> (\<exists>tr. server_round ev se = Some (False, se\<lparr>se_tr := tr\<rparr>))"
proof -
  note s = speakingD [OF assms(2)]
  from assms(3) have i: "pe_in ev" by (simp add: hush_def)
  from assms(1) have p: "0 \<le> pe_result ev" by (simp add: carries_def)
  have recv: "case pe_recv ev (tr_fd (se_tr se)) 4096 of Received bs e \<Rightarrow> bs = [] \<and> e \<noteq> EAGAIN | RecvFailed e \<Rightarrow> e \<noteq> EAGAIN"
    using assms(1,3) by (fastforce simp: carries_def hush_def split: recv_result.splits)
  then have fits: "recv_fits (pe_recv ev) (se_tr se)" using s(5) by (auto simp: recv_fits_def)
  have "\<exists>tr. read_half server_read_loop ev se = Some (False, se\<lparr>se_tr := tr\<rparr>)"
    by (rule read_cases [OF s(1,2) fits, of "pe_errno ev"]) (use recv s(5) i in \<open>auto simp: read_half_def\<close>)
  with p show ?thesis by (auto simp: server_round_halves server_says_def)
qed

end
