(* ===== verification/PW_Conversation.thy ===== *)
theory PW_Conversation
  imports PW_Network
begin

text \<open>
  The conversation of the two reference programs on a network. It is one message at a time, so the
  invariant says which message is under way and how it is split between the speaker, the queue and the
  listener. From it follow, for every interleaving and every cut of the bytes, that no program leaves an
  array or its loop, that their states go in step, and that the conversation comes to its end.
\<close>

section \<open>What the programs react to\<close>

lemma server_reacts_hello:
  assumes "client_hello_wf h" and "ch_version h = 1"
  shows "reacts server_step \<lparr>conn_state = PW_STATE_HANDSHAKING\<rparr> (client_hello_bytes h) (server_hello_bytes (hello_answer h))
    \<lparr>conn_state = PW_STATE_AUTHENTICATING\<rparr>"
proof -
  have "server_step ev \<lparr>se_conn = \<lparr>conn_state = PW_STATE_HANDSHAKING\<rparr>, se_tr = tr\<rparr> =
      Some (False, \<lparr>se_conn = \<lparr>conn_state = PW_STATE_HANDSHAKING\<rparr>, se_tr = tr\<rparr>)"
    if "hello_junk ev" "k < length (client_hello_bytes h)" "listening (take k (client_hello_bytes h)) tr" for ev k tr
  proof -
    note l = listeningD [OF that(3)]
    have "tr_read_pos tr + tr_read_len tr \<le> length (tr_read_buffer tr)" using transport_okD [OF l(1)] by simp
    from parse_client_hello_dec [OF this, of "pe_client_hello ev (tr_read_len tr)"] that(1) l(3)
      client_hello_dec_truncated [OF assms(1) that(2), of "pe_client_hello ev (tr_read_len tr)"]
    show ?thesis
      by (cases "client_hello_dec (take k (client_hello_bytes h)) (pe_client_hello ev (tr_read_len tr))")
        (simp add: server_step_def server_handshaking_def Let_def unread_def hello_junk_def)
  qed
  then show ?thesis
    using assms server_handshake_step [of "\<lparr>se_conn = \<lparr>conn_state = PW_STATE_HANDSHAKING\<rparr>, se_tr = tr\<rparr>" h ev "[]" for tr ev]
      listeningD(3,6)
    by (auto simp: reacts_def hello_junk_def)
qed

lemma client_reacts_hello:
  assumes "server_hello_wf h"
  shows "reacts client_step \<lparr>conn_state = PW_STATE_HANDSHAKING\<rparr> (server_hello_bytes h) client_auth_message
    \<lparr>conn_state = PW_STATE_AUTHENTICATING\<rparr>"
proof -
  have len: "length (server_hello_bytes h) = 42" using assms by (rule length_server_hello_bytes)
  have "client_step ev \<lparr>se_conn = \<lparr>conn_state = PW_STATE_HANDSHAKING\<rparr>, se_tr = tr\<rparr> =
      Some (False, \<lparr>se_conn = \<lparr>conn_state = PW_STATE_HANDSHAKING\<rparr>, se_tr = tr\<rparr>)"
    if "hello_junk ev" "k < 42" "listening (take k (server_hello_bytes h)) tr" for ev k tr
  proof -
    note l = listeningD [OF that(3)]
    have "tr_read_pos tr + tr_read_len tr \<le> length (tr_read_buffer tr)" using transport_okD [OF l(1)] by simp
    from parse_server_hello_dec [OF this, of "pe_server_hello ev (tr_read_len tr)"] that(1) l(3)
      server_hello_dec_truncated [OF that(2), of "server_hello_bytes h" "pe_server_hello ev (tr_read_len tr)"]
    show ?thesis
      by (cases "server_hello_dec (take k (server_hello_bytes h)) (pe_server_hello ev (tr_read_len tr))")
        (simp add: client_step_def client_handshaking_def Let_def unread_def hello_junk_def)
  qed
  then show ?thesis
    using assms len client_handshake_step [of "\<lparr>se_conn = \<lparr>conn_state = PW_STATE_HANDSHAKING\<rparr>, se_tr = tr\<rparr>" h ev "[]" for tr ev]
      listeningD(3,6)
    by (auto simp: reacts_def hello_junk_def)
qed

lemma frame_waits:
  assumes "listening (take k (frame_header_bytes f @ pl)) tr" and "k < length (frame_header_bytes f @ pl)" and "is_message f pl"
  shows "frame_branch junk act \<lparr>se_conn = c, se_tr = tr\<rparr> = Some (False, \<lparr>se_conn = c, se_tr = tr\<rparr>)"
  using frame_branch_partial [of "\<lparr>se_conn = c, se_tr = tr\<rparr>" k f pl] listeningD(1,3) [OF assms(1)] assms(2,3) by simp

lemma server_reacts_auth:
  "reacts server_step \<lparr>conn_state = PW_STATE_AUTHENTICATING\<rparr> client_auth_message (frame_bytes PW_OPCODE_AUTH_OK)
    \<lparr>conn_state = PW_STATE_READY\<rparr>"
proof -
  let ?f = "frame_init PW_VERSION_1 PW_FLAG_FIN PW_OPCODE_AUTH 0 17" and ?a = "auth_bytes (PW_AUTH_METHOD_BEARER, secret_token)"
  have la: "length ?a = 17" by (simp add: length_auth_bytes length_secret_token)
  then have g: "grants secret_token ?a" and m: "is_message ?f ?a" and o: "fr_opcode ?f = opcode_byte PW_OPCODE_AUTH"
    by (simp_all add: grants_def length_secret_token is_message_def frame_init_def)
  have "server_step ev \<lparr>se_conn = \<lparr>conn_state = PW_STATE_AUTHENTICATING\<rparr>, se_tr = tr\<rparr> =
      Some (True, \<lparr>se_conn = \<lparr>conn_state = PW_STATE_READY\<rparr>,
        se_tr = queue_out (frame_bytes PW_OPCODE_AUTH_OK) (transport_consume tr (length client_auth_message))\<rparr>)"
    if "listening client_auth_message tr" for ev tr
    using server_auth_step [of "\<lparr>se_conn = \<lparr>conn_state = PW_STATE_AUTHENTICATING\<rparr>, se_tr = tr\<rparr>" ?f ?a "[]" ev] g m o
      listeningD(3,6) [OF that] by (simp add: Let_def client_auth_message_def server_reply_def)
  moreover have "server_step ev \<lparr>se_conn = \<lparr>conn_state = PW_STATE_AUTHENTICATING\<rparr>, se_tr = tr\<rparr> =
      Some (False, \<lparr>se_conn = \<lparr>conn_state = PW_STATE_AUTHENTICATING\<rparr>, se_tr = tr\<rparr>)"
    if "k < length client_auth_message" "listening (take k client_auth_message) tr" for ev k tr
    using frame_waits [of k ?f ?a tr] that m unfolding client_auth_message_def by (simp add: server_step_def Let_def)
  ultimately show ?thesis by (simp add: reacts_def)
qed

lemma server_reacts_frame:
  assumes "served (f, pl)" and "length (server_answer (f, pl)) \<le> 4096"
  shows "reacts server_step \<lparr>conn_state = PW_STATE_READY\<rparr> (frame_header_bytes f @ pl) (server_answer (f, pl))
    \<lparr>conn_state = PW_STATE_READY\<rparr>"
proof -
  have m: "is_message f pl" using assms(1) by (simp add: served_def)
  have "server_step ev \<lparr>se_conn = \<lparr>conn_state = PW_STATE_READY\<rparr>, se_tr = tr\<rparr> =
      Some (True, \<lparr>se_conn = \<lparr>conn_state = PW_STATE_READY\<rparr>,
        se_tr = queue_out (server_answer (f, pl)) (transport_consume tr (length (frame_header_bytes f @ pl)))\<rparr>)"
    if "listening (frame_header_bytes f @ pl) tr" for ev tr
    using server_ready_step [of "\<lparr>se_conn = \<lparr>conn_state = PW_STATE_READY\<rparr>, se_tr = tr\<rparr>" f pl "[]" ev] assms
      listeningD(3,6) [OF that] by simp
  moreover have "server_step ev \<lparr>se_conn = \<lparr>conn_state = PW_STATE_READY\<rparr>, se_tr = tr\<rparr> =
      Some (False, \<lparr>se_conn = \<lparr>conn_state = PW_STATE_READY\<rparr>, se_tr = tr\<rparr>)"
    if "k < length (frame_header_bytes f @ pl)" "listening (take k (frame_header_bytes f @ pl)) tr" for ev k tr
    using frame_waits [OF that(2,1) m] by (simp add: server_step_def Let_def)
  ultimately show ?thesis by (simp add: reacts_def del: length_append)
qed

lemma server_reacts_close:
  assumes "is_message f []" and "fr_opcode f = opcode_byte PW_OPCODE_CLOSE"
  shows "reacts server_step \<lparr>conn_state = PW_STATE_READY\<rparr> (frame_header_bytes f) (frame_bytes PW_OPCODE_CLOSE)
    \<lparr>conn_state = PW_STATE_CLOSING\<rparr>"
proof -
  have "server_step ev \<lparr>se_conn = \<lparr>conn_state = PW_STATE_READY\<rparr>, se_tr = tr\<rparr> =
      Some (True, \<lparr>se_conn = \<lparr>conn_state = PW_STATE_CLOSING\<rparr>,
        se_tr = queue_out (frame_bytes PW_OPCODE_CLOSE) (transport_consume tr (length (frame_header_bytes f)))\<rparr>)"
    if "listening (frame_header_bytes f) tr" for ev tr
    using server_close_step [of "\<lparr>se_conn = \<lparr>conn_state = PW_STATE_READY\<rparr>, se_tr = tr\<rparr>" f "[]" "[]" ev] assms
      listeningD(3,6) [OF that] by (simp add: server_reply_def)
  moreover have "server_step ev \<lparr>se_conn = \<lparr>conn_state = PW_STATE_READY\<rparr>, se_tr = tr\<rparr> =
      Some (False, \<lparr>se_conn = \<lparr>conn_state = PW_STATE_READY\<rparr>, se_tr = tr\<rparr>)"
    if "k < length (frame_header_bytes f)" "listening (take k (frame_header_bytes f)) tr" for ev k tr
    using frame_waits [of k f "[]" tr] that assms(1) by (simp add: server_step_def Let_def)
  ultimately show ?thesis by (simp add: reacts_def)
qed

lemma client_reacts_frame:
  assumes "s = PW_STATE_AUTHENTICATING \<or> s = PW_STATE_READY" and "is_message f pl" and "length pl < 128"
    and "client_answer s f = (out, s')"
  shows "reacts client_step \<lparr>conn_state = s\<rparr> (frame_header_bytes f @ pl) out \<lparr>conn_state = s'\<rparr>"
proof -
  have "client_step ev \<lparr>se_conn = \<lparr>conn_state = s\<rparr>, se_tr = tr\<rparr> = Some (True, \<lparr>se_conn = \<lparr>conn_state = s'\<rparr>,
      se_tr = queue_out out (transport_consume tr (length (frame_header_bytes f @ pl)))\<rparr>)"
    if "listening (frame_header_bytes f @ pl) tr" for ev tr
    using client_frame_step [of "\<lparr>se_conn = \<lparr>conn_state = s\<rparr>, se_tr = tr\<rparr>" f pl "[]" ev] assms
      listeningD(3,6) [OF that] by simp
  moreover have "client_step ev \<lparr>se_conn = \<lparr>conn_state = s\<rparr>, se_tr = tr\<rparr> =
      Some (False, \<lparr>se_conn = \<lparr>conn_state = s\<rparr>, se_tr = tr\<rparr>)"
    if "k < length (frame_header_bytes f @ pl)" "listening (take k (frame_header_bytes f @ pl)) tr" for ev k tr
    using frame_waits [OF that(2,1) assms(2)] assms(1) by (auto simp: client_step_def Let_def)
  ultimately show ?thesis by (simp add: reacts_def del: length_append)
qed

section \<open>The conversation\<close>

text \<open>The messages in their order, the even ones from the client, with the states of client and server while
  a message is under way.\<close>

definition script :: "(byte list \<times> pw_connection_state \<times> pw_connection_state) list" where
  "script =
     [(client_hello_bytes client_hello_sent, PW_STATE_HANDSHAKING, PW_STATE_HANDSHAKING),
      (server_hello_bytes (hello_answer client_hello_sent), PW_STATE_HANDSHAKING, PW_STATE_AUTHENTICATING),
      (client_auth_message, PW_STATE_AUTHENTICATING, PW_STATE_AUTHENTICATING),
      (frame_bytes PW_OPCODE_AUTH_OK, PW_STATE_AUTHENTICATING, PW_STATE_READY),
      (frame_header_bytes client_data_frame @ client_msg, PW_STATE_READY, PW_STATE_READY),
      (frame_header_bytes client_data_frame @ client_msg, PW_STATE_READY, PW_STATE_READY),
      (frame_bytes PW_OPCODE_PING, PW_STATE_READY, PW_STATE_READY),
      (frame_bytes PW_OPCODE_PONG, PW_STATE_READY, PW_STATE_READY),
      (frame_bytes PW_OPCODE_CLOSE, PW_STATE_CLOSING, PW_STATE_READY),
      (frame_bytes PW_OPCODE_CLOSE, PW_STATE_CLOSED, PW_STATE_CLOSING)]"

definition message :: "nat \<Rightarrow> byte list" where
  "message i = fst (script ! i)"

definition client_at :: "nat \<Rightarrow> pw_connection_state" where
  "client_at i = fst (snd (script ! i))"

definition server_at :: "nat \<Rightarrow> pw_connection_state" where
  "server_at i = snd (snd (script ! i))"

lemmas script_simps = script_def message_def client_at_def server_at_def

lemma length_script:
  "length (message 0) = 24" "length (message 1) = 42" "length (message 2) = 24" "length (message 3) = 7"
  "length (message 4) = 25" "length (message 5) = 25" "length (message 6) = 7" "length (message 7) = 7"
  "length (message 8) = 7" "length (message 9) = 7"
proof -
  have h: "length (frame_bytes opc) = 7" for opc
    by (simp add: frame_header_bytes_def frame_init_def varint_bytes.simps word_le_nat_alt)
  have a: "length (frame_header_bytes (frame_init PW_VERSION_1 PW_FLAG_FIN PW_OPCODE_AUTH 0 17)) = 7"
    by (simp add: frame_header_bytes_def frame_init_def varint_bytes.simps word_le_nat_alt)
  have d: "length (frame_header_bytes client_data_frame) = 7"
    by (simp add: frame_header_bytes_def client_data_frame_def client_msg_def frame_init_def varint_bytes.simps word_le_nat_alt)
  show "length (message 0) = 24"
    by (simp add: script_simps client_hello_bytes_def client_hello_sent_def)
  show "length (message 1) = 42" by (simp add: script_simps length_server_hello_bytes)
  show "length (message 2) = 24"
    by (simp add: script_simps client_auth_message_def a [simplified] length_auth_bytes length_secret_token)
  show "length (message 3) = 7" "length (message 6) = 7" "length (message 7) = 7"
    "length (message 8) = 7" "length (message 9) = 7"
    by (simp_all add: script_simps h [simplified])
  show "length (message 4) = 25" "length (message 5) = 25"
    by (simp_all add: script_simps d client_msg_def)
qed

lemma script_index: "i < (10 :: nat) \<Longrightarrow> i \<in> {0, 1, 2, 3, 4, 5, 6, 7, 8, 9}"
  by auto

lemma message_bounds: "i < 10 \<Longrightarrow> 0 < length (message i) \<and> length (message i) \<le> 42"
  using length_script by (auto dest!: script_index)

lemma server_reacts_script:
  assumes "i < 10" and "even i"
  shows "reacts server_step \<lparr>conn_state = server_at i\<rparr> (message i) (message (Suc i)) \<lparr>conn_state = server_at (Suc i)\<rparr> \<and>
    client_at (Suc i) = spoken [] (client_at i) \<and> Suc i < 10"
proof -
  let ?fr = "\<lambda>opc. frame_init PW_VERSION_1 PW_FLAG_FIN opc 0 0"
  have m: "is_message (?fr opc) []" "fr_opcode (?fr opc) = opcode_byte opc" "fr_stream_id (?fr opc) = 0" for opc
    by (simp_all add: is_message_def frame_init_def)
  have "served (client_data_frame, client_msg)"
    and d: "server_answer (client_data_frame, client_msg) = frame_header_bytes client_data_frame @ client_msg"
    by (simp_all add: served_def is_message_def client_data_frame_def client_msg_def frame_init_def is_data_def server_answer_def)
  with length_script(5) have data: "reacts server_step \<lparr>conn_state = PW_STATE_READY\<rparr> (frame_header_bytes client_data_frame @ client_msg)
      (frame_header_bytes client_data_frame @ client_msg) \<lparr>conn_state = PW_STATE_READY\<rparr>"
    using server_reacts_frame [of client_data_frame client_msg] by (simp add: script_simps)
  have "served (?fr PW_OPCODE_PING, [])"
    and p: "server_answer (?fr PW_OPCODE_PING, []) = frame_bytes PW_OPCODE_PONG"
    using m by (simp_all add: served_def is_data_def server_answer_def server_reply_def)
  with length_script(8) have ping: "reacts server_step \<lparr>conn_state = PW_STATE_READY\<rparr> (frame_bytes PW_OPCODE_PING)
      (frame_bytes PW_OPCODE_PONG) \<lparr>conn_state = PW_STATE_READY\<rparr>"
    using server_reacts_frame [of "?fr PW_OPCODE_PING" "[]"] by (simp add: script_simps)
  have hello: "client_hello_wf client_hello_sent" "ch_version client_hello_sent = 1"
    by (simp_all add: client_hello_wf_def client_hello_sent_def)
  from script_index [OF assms(1)] assms(2) have "i = 0 \<or> i = 2 \<or> i = 4 \<or> i = 6 \<or> i = 8" by auto
  then show ?thesis
    using server_reacts_hello [OF hello] server_reacts_auth data ping
      server_reacts_close [of "?fr PW_OPCODE_CLOSE", OF m(1,2)]
    by (auto simp: script_simps spoken_def)
qed

lemma client_reacts_script:
  assumes "i < 9" and "odd i"
  shows "reacts client_step \<lparr>conn_state = client_at i\<rparr> (message i) (message (Suc i)) \<lparr>conn_state = client_at (Suc i)\<rparr> \<and>
    server_at (Suc i) = spoken [] (server_at i)"
proof -
  let ?fr = "\<lambda>opc. frame_init PW_VERSION_1 PW_FLAG_FIN opc 0 0"
  have m: "is_message (?fr opc) []" "fr_opcode (?fr opc) = opcode_byte opc" for opc
    by (simp_all add: is_message_def frame_init_def)
  have d: "is_message client_data_frame client_msg" "length client_msg < 128"
    "fr_opcode client_data_frame = opcode_byte PW_OPCODE_DATA_TEXT"
    by (simp_all add: is_message_def client_data_frame_def client_msg_def frame_init_def)
  note ok = client_reacts_frame [of PW_STATE_AUTHENTICATING "?fr PW_OPCODE_AUTH_OK" "[]", OF _ m(1)]
  note data = client_reacts_frame [of PW_STATE_READY, OF _ d(1,2)]
  note pong = client_reacts_frame [of PW_STATE_READY "?fr PW_OPCODE_PONG" "[]", OF _ m(1)]
  from script_index [of i] assms have "i = 1 \<or> i = 3 \<or> i = 5 \<or> i = 7" by auto
  then show ?thesis
    using client_reacts_hello [OF hello_answer_wf [of client_hello_sent]] ok data pong m(2) d(3)
    by (auto simp: script_simps spoken_def client_answer_def)
qed

text \<open>The states in which a program is in its loop.\<close>

lemma script_open:
  assumes "i < 10"
  shows "server_at i \<noteq> PW_STATE_CLOSED \<and> server_at i \<noteq> PW_STATE_DISCONNECTED \<and> client_at i \<noteq> PW_STATE_DISCONNECTED \<and>
    (client_at i = PW_STATE_CLOSED \<longleftrightarrow> i = 9) \<and> (server_at i = PW_STATE_CLOSING \<longleftrightarrow> i = 9) \<and>
    (client_at i = PW_STATE_CLOSING \<longleftrightarrow> i = 8)"
  using script_index [OF assms] by (auto simp: script_simps)

section \<open>The invariant of a conversation\<close>

text \<open>Message \<open>i\<close> is under way: the listener has got the first part of it, the second is in flight, and the
  speaker has the rest still to write.\<close>

definition under_way :: "nat \<Rightarrow> byte list \<Rightarrow> byte list \<Rightarrow> byte list \<Rightarrow> network \<Rightarrow> bool" where
  "under_way i got q rest nw \<longleftrightarrow> i < 10 \<and> got @ q @ rest = message i \<and> got \<noteq> message i \<and> (i = 9 \<longrightarrow> got = []) \<and>
     nw_client_runs nw = open_session (nw_client nw) \<and> nw_server_runs nw = open_session (nw_server nw) \<and>
     (if even i
      then speaking rest (se_tr (nw_client nw)) \<and> listening got (se_tr (nw_server nw)) \<and>
        nw_up nw = q \<and> nw_down nw = [] \<and>
        state_of (nw_client nw) = spoken rest (client_at i) \<and> state_of (nw_server nw) = server_at i
      else speaking rest (se_tr (nw_server nw)) \<and> listening got (se_tr (nw_client nw)) \<and>
        nw_down nw = q \<and> nw_up nw = [] \<and>
        state_of (nw_server nw) = spoken rest (server_at i) \<and> state_of (nw_client nw) = client_at i)"

text \<open>The server has seen the end of the stream before it has written its CLOSE.\<close>

definition cut_short :: "network \<Rightarrow> bool" where
  "cut_short nw \<longleftrightarrow> \<not> nw_client_runs nw \<and> \<not> nw_server_runs nw \<and> state_of (nw_client nw) = PW_STATE_CLOSED \<and>
     state_of (nw_server nw) = PW_STATE_CLOSING"

text \<open>The bytes that are still to be written or read.\<close>

definition later :: "nat \<Rightarrow> nat" where
  "later i = sum_list (map (length \<circ> message) [Suc i..<10])"

definition to_move :: "nat \<Rightarrow> byte list \<Rightarrow> byte list \<Rightarrow> nat" where
  "to_move i q rest = 2 * length rest + length q + 2 * later i"

lemma later_step: "i < 9 \<Longrightarrow> later i = length (message (Suc i)) + later (Suc i)"
  by (simp add: later_def upt_conv_Cons)

lemma under_way_lengths: "under_way i got q rest nw \<Longrightarrow> length got + length q + length rest = length (message i)"
  unfolding under_way_def by (metis length_append add.assoc)

lemma script_move:
  assumes "i < 9"
  shows "length (message i) \<le> 4096" "length (message (Suc i)) \<le> 4096" "message (Suc i) \<noteq> []"
  using message_bounds [of i] message_bounds [of "Suc i"] assms by auto

text \<open>The rounds of the client and of the server, as speaker and as listener.\<close>

lemma client_speaks_move:
  assumes "under_way i got q rest nw" and "even i" and "carries (\<not> nw_server_runs nw) (nw_down nw) ev"
  shows "\<exists>c q' rest'. client_round ev (nw_client nw) = Some (True, c) \<and>
    under_way i got q' rest' (nw\<lparr>nw_client := c, nw_client_runs := open_session c,
      nw_up := nw_up nw @ client_says ev (nw_client nw), nw_down := drop (length (hears ev (nw_client nw))) (nw_down nw)\<rparr>) \<and>
    length (client_says ev (nw_client nw)) + length (hears ev (nw_client nw)) + to_move i q' rest' = to_move i q rest"
proof -
  have "nw_server_runs nw" "nw_down nw = []"
    using assms(1,2) script_open [of i] by (auto simp: under_way_def open_session_def)
  with assms(3) have quiet: "carries False [] ev" by simp
  have s: "speaking rest (se_tr (nw_client nw))" "state_of (nw_client nw) = spoken rest (client_at i)"
    using assms(1,2) by (simp_all add: under_way_def)
  from client_talk.speaks_part [OF quiet carries_hush [OF quiet] s] obtain c rest' where
    c: "client_round ev (nw_client nw) = Some (True, c)" "speaking rest' (se_tr c)" "state_of c = spoken rest' (client_at i)"
      "rest = client_says ev (nw_client nw) @ rest'" "hears ev (nw_client nw) = []" by blast
  have "under_way i got (q @ client_says ev (nw_client nw)) rest' (nw\<lparr>nw_client := c, nw_client_runs := open_session c,
      nw_up := nw_up nw @ client_says ev (nw_client nw), nw_down := drop (length (hears ev (nw_client nw))) (nw_down nw)\<rparr>)"
    using assms(1,2) c(2-5) by (simp add: under_way_def)
  moreover have "length rest = length (client_says ev (nw_client nw)) + length rest'" by (subst c(4)) simp
  ultimately show ?thesis using c(1,5) by (auto simp: to_move_def intro!: exI)
qed

lemma server_speaks_move:
  assumes "under_way i got q rest nw" and "odd i" and "carries (\<not> nw_client_runs nw) (nw_up nw) ev"
    and "hush (tr_fd (se_tr (nw_server nw))) ev"
  shows "\<exists>s q' rest'. server_round ev (nw_server nw) = Some (True, s) \<and>
    under_way i got q' rest' (nw\<lparr>nw_server := s, nw_server_runs := open_session s,
      nw_down := nw_down nw @ server_says ev (nw_server nw), nw_up := drop (length (hears ev (nw_server nw))) (nw_up nw)\<rparr>) \<and>
    length (server_says ev (nw_server nw)) + length (hears ev (nw_server nw)) + to_move i q' rest' = to_move i q rest"
proof -
  have s: "speaking rest (se_tr (nw_server nw))" "state_of (nw_server nw) = spoken rest (server_at i)" "nw_up nw = []"
    using assms(1,2) by (simp_all add: under_way_def)
  from server_talk.speaks_part [OF assms(3) [unfolded s(3)] assms(4) s(1,2)] obtain c rest' where
    c: "server_round ev (nw_server nw) = Some (True, c)" "speaking rest' (se_tr c)" "state_of c = spoken rest' (server_at i)"
      "rest = server_says ev (nw_server nw) @ rest'" "hears ev (nw_server nw) = []" by blast
  have "under_way i got (q @ server_says ev (nw_server nw)) rest' (nw\<lparr>nw_server := c, nw_server_runs := open_session c,
      nw_down := nw_down nw @ server_says ev (nw_server nw), nw_up := drop (length (hears ev (nw_server nw))) (nw_up nw)\<rparr>)"
    using assms(1,2) c(2-5) by (simp add: under_way_def)
  moreover have "length rest = length (server_says ev (nw_server nw)) + length rest'" by (subst c(4)) simp
  ultimately show ?thesis using c(1,5) by (auto simp: to_move_def intro!: exI)
qed

lemma client_listens_move:
  assumes "under_way i got q rest nw" and "odd i" and "nw_client_runs nw" and "carries (\<not> nw_server_runs nw) (nw_down nw) ev"
  shows "\<exists>c i' got' q' rest'. client_round ev (nw_client nw) = Some (True, c) \<and>
    under_way i' got' q' rest' (nw\<lparr>nw_client := c, nw_client_runs := open_session c,
      nw_up := nw_up nw @ client_says ev (nw_client nw), nw_down := drop (length (hears ev (nw_client nw))) (nw_down nw)\<rparr>) \<and>
    length (client_says ev (nw_client nw)) + length (hears ev (nw_client nw)) + to_move i' q' rest' = to_move i q rest"
proof -
  from assms(1,2) have w: "i < 10" "got @ q @ rest = message i" "got \<noteq> message i" "listening got (se_tr (nw_client nw))"
    "state_of (nw_client nw) = client_at i" "nw_down nw = q" "speaking rest (se_tr (nw_server nw))"
    "state_of (nw_server nw) = spoken rest (server_at i)" "nw_up nw = []"
    "nw_client_runs nw = open_session (nw_client nw)" "nw_server_runs nw = open_session (nw_server nw)"
    by (simp_all add: under_way_def)
  have i9: "i < 9" using script_open [OF w(1)] w(1,5,10) assms(3) by (cases "i = 9") (auto simp: open_session_def)
  then have "nw_server_runs nw" using script_open [OF w(1)] w(8,11) by (auto simp: open_session_def spoken_def)
  with assms(4) w(6) have c: "carries False q ev" by simp
  from client_reacts_script [OF i9 assms(2)]
  have re: "reacts client_step \<lparr>conn_state = state_of (nw_client nw)\<rparr> (message i) (message (Suc i)) \<lparr>conn_state = client_at (Suc i)\<rparr>"
    and sv: "server_at (Suc i) = spoken [] (server_at i)" using w(5) by simp_all
  from client_talk.listens_part [OF c _ w(4,2,3) script_move(1,2) [OF i9] re] obtain c bs where
    l: "client_round ev (nw_client nw) = Some (True, c)" "hears ev (nw_client nw) = bs" "bs @ drop (length bs) q = q"
      "client_says ev (nw_client nw) = []"
    and r: "if got @ bs = message i then q = bs \<and> rest = [] \<and> speaking (message (Suc i)) (se_tr c) \<and> state_of c = client_at (Suc i)
      else listening (got @ bs) (se_tr c) \<and> state_of c = state_of (nw_client nw)" by blast
  let ?nw = "nw\<lparr>nw_client := c, nw_client_runs := open_session c, nw_up := nw_up nw @ client_says ev (nw_client nw),
    nw_down := drop (length (hears ev (nw_client nw))) (nw_down nw)\<rparr>"
  have len: "length bs + length (drop (length bs) q) = length q" by (metis l(3) length_append)
  show ?thesis
  proof (cases "got @ bs = message i")
    case True
    with r l w sv i9 assms(2) script_move(3) [OF i9] have "under_way (Suc i) [] [] (message (Suc i)) ?nw"
      by (simp add: under_way_def speaking_done spoken_def)
    with True r l later_step [OF i9] show ?thesis by (auto simp: to_move_def intro!: exI)
  next
    case False
    have "(got @ bs) @ drop (length bs) q @ rest = message i" using w(2) l(3) by (metis append.assoc)
    with False r l w i9 assms(2) have "under_way i (got @ bs) (drop (length bs) q) rest ?nw"
      by (simp add: under_way_def)
    with l len show ?thesis by (auto simp: to_move_def intro!: exI)
  qed
qed

lemma server_listens_move:
  assumes "under_way i got q rest nw" and "even i" and "carries (\<not> nw_client_runs nw) (nw_up nw) ev"
  shows "\<exists>s i' got' q' rest'. server_round ev (nw_server nw) = Some (True, s) \<and>
    under_way i' got' q' rest' (nw\<lparr>nw_server := s, nw_server_runs := open_session s,
      nw_down := nw_down nw @ server_says ev (nw_server nw), nw_up := drop (length (hears ev (nw_server nw))) (nw_up nw)\<rparr>) \<and>
    length (server_says ev (nw_server nw)) + length (hears ev (nw_server nw)) + to_move i' q' rest' = to_move i q rest"
proof -
  from assms(1,2) have w: "i < 10" "got @ q @ rest = message i" "got \<noteq> message i" "listening got (se_tr (nw_server nw))"
    "state_of (nw_server nw) = server_at i" "nw_up nw = q" "speaking rest (se_tr (nw_client nw))"
    "state_of (nw_client nw) = spoken rest (client_at i)" "nw_down nw = []"
    "nw_client_runs nw = open_session (nw_client nw)" "nw_server_runs nw = open_session (nw_server nw)"
    by (simp_all add: under_way_def)
  from assms(2) w(1) have i9: "i < 9" by (cases "i = 9") auto
  have gone: "q \<noteq> []" if "\<not> nw_client_runs nw"
  proof -
    from that w(8,10) script_open [OF w(1)] i9 have "rest = []" by (auto simp: open_session_def spoken_def split: if_splits)
    with w(2,3) show ?thesis by auto
  qed
  from server_reacts_script [OF w(1) assms(2)]
  have re: "reacts server_step \<lparr>conn_state = state_of (nw_server nw)\<rparr> (message i) (message (Suc i)) \<lparr>conn_state = server_at (Suc i)\<rparr>"
    and sv: "client_at (Suc i) = spoken [] (client_at i)" using w(5) by simp_all
  from server_talk.listens_part [OF assms(3) [unfolded w(6)] gone w(4,2,3) script_move(1,2) [OF i9] re] obtain s bs where
    l: "server_round ev (nw_server nw) = Some (True, s)" "hears ev (nw_server nw) = bs" "bs @ drop (length bs) q = q"
      "server_says ev (nw_server nw) = []"
    and r: "if got @ bs = message i then q = bs \<and> rest = [] \<and> speaking (message (Suc i)) (se_tr s) \<and> state_of s = server_at (Suc i)
      else listening (got @ bs) (se_tr s) \<and> state_of s = state_of (nw_server nw)" by blast
  let ?nw = "nw\<lparr>nw_server := s, nw_server_runs := open_session s, nw_down := nw_down nw @ server_says ev (nw_server nw),
    nw_up := drop (length (hears ev (nw_server nw))) (nw_up nw)\<rparr>"
  have len: "length bs + length (drop (length bs) q) = length q" by (metis l(3) length_append)
  show ?thesis
  proof (cases "got @ bs = message i")
    case True
    with r l w sv i9 assms(2) script_move(3) [OF i9] have "under_way (Suc i) [] [] (message (Suc i)) ?nw"
      by (simp add: under_way_def speaking_done spoken_def)
    with True r l later_step [OF i9] show ?thesis by (auto simp: to_move_def intro!: exI)
  next
    case False
    have "(got @ bs) @ drop (length bs) q @ rest = message i" using w(2) l(3) by (metis append.assoc)
    with False r l w i9 assms(2) have "under_way i (got @ bs) (drop (length bs) q) rest ?nw"
      by (simp add: under_way_def)
    with l len show ?thesis by (auto simp: to_move_def intro!: exI)
  qed
qed

lemma server_ends_move:
  assumes "under_way i got q rest nw" and "odd i" and "nw_server_runs nw" and "carries (\<not> nw_client_runs nw) (nw_up nw) ev"
    and "\<not> hush (tr_fd (se_tr (nw_server nw))) ev"
  shows "i = 9 \<and> (\<exists>s. server_round ev (nw_server nw) = Some (False, s) \<and>
    cut_short (nw\<lparr>nw_server := s, nw_server_runs := False,
      nw_down := nw_down nw @ server_says ev (nw_server nw), nw_up := drop (length (hears ev (nw_server nw))) (nw_up nw)\<rparr>) \<and>
    length (server_says ev (nw_server nw)) + length (hears ev (nw_server nw)) = 0)"
proof -
  from assms(1,2) have w: "i < 10" "state_of (nw_client nw) = client_at i" "speaking rest (se_tr (nw_server nw))"
    "state_of (nw_server nw) = spoken rest (server_at i)" "nw_up nw = []"
    "nw_client_runs nw = open_session (nw_client nw)" "nw_server_runs nw = open_session (nw_server nw)"
    by (simp_all add: under_way_def)
  have gone: "\<not> nw_client_runs nw" using assms(4,5) w(5) carries_hush by auto
  then have i: "i = 9" using script_open [OF w(1)] w(2,6) by (auto simp: open_session_def)
  have st: "client_at 9 = PW_STATE_CLOSED" "server_at 9 = PW_STATE_CLOSING" by (simp_all add: script_simps)
  have c: "carries True [] ev" using assms(4) gone w(5) by simp
  from server_hangs_up [OF c w(3) assms(5)] obtain tr where
    "server_says ev (nw_server nw) = []" "server_round ev (nw_server nw) = Some (False, nw_server nw\<lparr>se_tr := tr\<rparr>)" by blast
  moreover have "hears ev (nw_server nw) = []" using c by (rule carries_hears)
  moreover have "state_of (nw_server nw) = PW_STATE_CLOSING"
    using w(4,7) assms(3) i st by (auto simp: open_session_def spoken_def split: if_splits)
  ultimately show ?thesis using i st w(2) gone by (auto simp: cut_short_def)
qed

section \<open>Runs\<close>

text \<open>Every byte of a message is moved twice, from the speaker into the queue and from there to the listener;
  the last message is not read any more.\<close>

definition conversation_inv :: "nat \<Rightarrow> network \<Rightarrow> bool" where
  "conversation_inv n nw \<longleftrightarrow> (\<exists>i got q rest. under_way i got q rest nw \<and> n + to_move i q rest = 350) \<or>
     cut_short nw \<and> n \<le> 343"

lemma last_to_move:
  assumes "under_way 9 got q rest nw"
  shows "to_move 9 q rest = 7 + length rest"
proof -
  have "got = []" using assms by (simp add: under_way_def)
  with under_way_lengths [OF assms] length_script(10) show ?thesis by (simp add: to_move_def later_def)
qed

lemma to_move_least:
  assumes "under_way i got q rest nw"
  shows "7 \<le> to_move i q rest"
proof (cases "i = 9")
  case True
  with assms last_to_move show ?thesis by simp
next
  case False
  with assms have "9 \<in> set [Suc i..<10]" by (auto simp: under_way_def)
  then have "length (message 9) \<in> set (map (length \<circ> message) [Suc i..<10])" by (metis comp_apply imageI list.set_map)
  from member_le_sum_list [OF this] length_script(10) show ?thesis by (simp add: to_move_def later_def)
qed

lemma conversation_step:
  assumes "net_step k nw nw'" and "conversation_inv n nw"
  shows "conversation_inv (n + k) nw'"
proof -
  have "\<not> cut_short nw" using assms(1) by cases (auto simp: cut_short_def)
  with assms(2) obtain i got q rest where w: "under_way i got q rest nw" and n: "n + to_move i q rest = 350"
    by (auto simp: conversation_inv_def)
  have keep: "conversation_inv (n + k) nw'"
    if "under_way i' got' q' rest' nw'" "k + to_move i' q' rest' = to_move i q rest" for i' got' q' rest'
    using that n unfolding conversation_inv_def by (intro disjI1 exI conjI) (assumption, simp)
  from assms(1) show ?thesis
  proof cases
    case (client_moves ev go_on c)
    from client_speaks_move [OF w _ client_moves(4)] client_listens_move [OF w _ client_moves(3,4)] obtain c' i' got' q' rest' where
      "client_round ev (nw_client nw) = Some (True, c')"
      "under_way i' got' q' rest' (nw\<lparr>nw_client := c', nw_client_runs := open_session c',
        nw_up := nw_up nw @ client_says ev (nw_client nw), nw_down := drop (length (hears ev (nw_client nw))) (nw_down nw)\<rparr>)"
      "length (client_says ev (nw_client nw)) + length (hears ev (nw_client nw)) + to_move i' q' rest' = to_move i q rest"
      by (cases "even i") blast+
    with client_moves(1,2,5) show ?thesis by (intro keep [of i' got' q' rest']) simp_all
  next
    case (server_moves ev go_on s)
    show ?thesis
    proof (cases "odd i \<and> \<not> hush (tr_fd (se_tr (nw_server nw))) ev")
      case True
      with server_ends_move [OF w _ server_moves(3,4)] server_moves(1,2,5)
      have "i = 9" "cut_short nw'" "k = 0" by auto
      with n last_to_move [of got q rest nw] w show ?thesis by (simp add: conversation_inv_def)
    next
      case False
      with server_speaks_move [OF w _ server_moves(4)] server_listens_move [OF w _ server_moves(4)] obtain s' i' got' q' rest' where
        "server_round ev (nw_server nw) = Some (True, s')"
        "under_way i' got' q' rest' (nw\<lparr>nw_server := s', nw_server_runs := open_session s',
          nw_down := nw_down nw @ server_says ev (nw_server nw), nw_up := drop (length (hears ev (nw_server nw))) (nw_up nw)\<rparr>)"
        "length (server_says ev (nw_server nw)) + length (hears ev (nw_server nw)) + to_move i' q' rest' = to_move i q rest"
        by (cases "even i") blast+
      with server_moves(1,2,5) show ?thesis by (intro keep [of i' got' q' rest']) simp_all
    qed
  qed
qed

lemma conversation_run: "net_run nw n nw' \<Longrightarrow> conversation_inv 0 nw \<Longrightarrow> conversation_inv n nw'"
  by (induction rule: net_run.induct) (auto intro: conversation_step)

text \<open>No run gets stuck: while a program is in its loop, a round can move a byte.\<close>

lemma flush_carries: "carries gone q (flush quiet_poll)"
  by (simp add: carries_def flush_def quiet_poll_def hello_junk_def send_ok_def)

lemma bring_carries: "q \<noteq> [] \<Longrightarrow> carries gone q (bring q quiet_poll)"
  by (simp add: carries_def bring_def quiet_poll_def hello_junk_def send_ok_def min_def)

lemma flush_says:
  assumes "speaking rest (se_tr se)" and "rest \<noteq> []"
  shows "client_says (flush quiet_poll) se = rest" "server_says (flush quiet_poll) se = rest"
  using speakingD(4,6) [OF assms(1)] assms(2)
  by (simp_all add: client_says_def server_says_def said_by_def flush_def read_half_def)

lemma bring_hears:
  assumes "listening got (se_tr se)" and "length got < 4096" and "q \<noteq> []"
  shows "0 < length (hears (bring q quiet_poll) se)"
  using listeningD(2,4) [OF assms(1)] assms(2,3) by (simp add: hears_def bring_def received_by_def)

lemma client_turn_goes_on:
  assumes w: "under_way i got q rest nw" and even: "even i"
  shows "\<exists>k nw'. 0 < k \<and> net_step k nw nw'"
proof -
  have i: "i < 10" and runs: "nw_client_runs nw = open_session (nw_client nw)" "nw_server_runs nw = open_session (nw_server nw)"
    using w by (simp_all add: under_way_def)
  have got: "length got < 4096" using under_way_lengths [OF w] message_bounds [OF i] by simp
  have i9: "i \<noteq> 9" using even by auto
  have s: "speaking rest (se_tr (nw_client nw))" "listening got (se_tr (nw_server nw))" "nw_up nw = q"
    "nw_server_runs nw" "rest \<noteq> [] \<Longrightarrow> nw_client_runs nw" "rest = [] \<Longrightarrow> q \<noteq> []"
    using w even script_open [OF i] i9 runs by (auto simp: under_way_def open_session_def spoken_def)
  show ?thesis
  proof (cases "rest = []")
    case False
    from client_speaks_move [OF w even flush_carries] obtain c where
      "client_round (flush quiet_poll) (nw_client nw) = Some (True, c)" by blast
    from net_step.client_moves [OF s(5) [OF False] flush_carries this] flush_says(1) [OF s(1) False] False
    show ?thesis by (metis add_gr_0 length_greater_0_conv)
  next
    case q: True
    from server_listens_move [OF w even, of "bring q quiet_poll"] bring_carries [OF s(6) [OF q]] s(3) obtain c where
      "server_round (bring q quiet_poll) (nw_server nw) = Some (True, c)" by blast
    from net_step.server_moves [OF s(4) _ this] bring_carries [OF s(6) [OF q]] s(3) bring_hears [OF s(2) got s(6) [OF q]]
    show ?thesis by (metis add_gr_0)
  qed
qed

lemma server_turn_goes_on:
  assumes w: "under_way i got q rest nw" and odd: "odd i" and "nw_client_runs nw \<or> nw_server_runs nw"
  shows "\<exists>k nw'. 0 < k \<and> net_step k nw nw'"
proof -
  have i: "i < 10" and runs: "nw_client_runs nw = open_session (nw_client nw)" "nw_server_runs nw = open_session (nw_server nw)"
    using w by (simp_all add: under_way_def)
  note op = script_open [OF i]
  have got: "length got < 4096" using under_way_lengths [OF w] message_bounds [OF i] by simp
  have s: "speaking rest (se_tr (nw_server nw))" "listening got (se_tr (nw_client nw))" "nw_down nw = q"
    "rest \<noteq> [] \<Longrightarrow> nw_server_runs nw" "rest = [] \<Longrightarrow> q \<noteq> []"
    using w odd op runs by (auto simp: under_way_def open_session_def spoken_def)
  have cl: "nw_client_runs nw" if "rest = []"
    using w odd op runs assms(3) that by (auto simp: under_way_def open_session_def spoken_def split: if_splits)
  show ?thesis
  proof (cases "rest = []")
    case r: False
    have "hush (tr_fd (se_tr (nw_server nw))) (flush quiet_poll)" by (simp add: hush_def flush_def)
    from server_speaks_move [OF w odd flush_carries this] obtain c where
      "server_round (flush quiet_poll) (nw_server nw) = Some (True, c)" by blast
    from net_step.server_moves [OF s(4) [OF r] flush_carries this] flush_says(2) [OF s(1) r] r
    show ?thesis by (metis add_gr_0 length_greater_0_conv)
  next
    case q: True
    from client_listens_move [OF w odd cl [OF q], of "bring q quiet_poll"] bring_carries [OF s(5) [OF q]] s(3) obtain c where
      "client_round (bring q quiet_poll) (nw_client nw) = Some (True, c)" by blast
    from net_step.client_moves [OF cl [OF q] _ this] bring_carries [OF s(5) [OF q]] s(3) bring_hears [OF s(2) got s(5) [OF q]]
    show ?thesis by (metis add_gr_0)
  qed
qed

lemma conversation_goes_on:
  assumes "conversation_inv n nw" and "nw_client_runs nw \<or> nw_server_runs nw"
  shows "\<exists>k nw'. 0 < k \<and> net_step k nw nw'"
proof -
  from assms have "\<not> cut_short nw" by (auto simp: cut_short_def)
  with assms(1) obtain i got q rest where w: "under_way i got q rest nw" by (auto simp: conversation_inv_def)
  then show ?thesis using client_turn_goes_on server_turn_goes_on assms(2) by blast
qed

text \<open>The start: a client that has started, and a server session as the code asks for it.\<close>

definition net_begin :: "session \<Rightarrow> session \<Rightarrow> network" where
  "net_begin c s = \<lparr>nw_client = c, nw_client_runs = True, nw_server = s, nw_server_runs = True, nw_up = [], nw_down = []\<rparr>"

lemma conversation_start:
  assumes "client_start fcntl jt jc sock w = Some c"
    and "length (tr_read_buffer jt) = 4096" and "length (tr_write_buffer jt) = 4096" and "0 \<le> sock"
    and "state_of s = PW_STATE_HANDSHAKING" and "idle (se_tr s)"
  shows "conversation_inv 0 (net_begin c s)"
proof -
  from client_start_ok [OF assms(2-4), of fcntl jc w] assms(1) have
    c: "state_of c = PW_STATE_HANDSHAKING" "transport_ok (se_tr c)" "tr_read_len (se_tr c) = 0" "0 \<le> tr_fd (se_tr c)"
      "unsent (se_tr c) = client_hello_bytes client_hello_sent" by auto
  have m: "message 0 = client_hello_bytes client_hello_sent" "client_at 0 = PW_STATE_HANDSHAKING" "server_at 0 = PW_STATE_HANDSHAKING"
    by (simp_all add: script_simps)
  have ne: "message 0 \<noteq> []" using length_script(1) by auto
  have "unread (se_tr c) = []" using c(3) by (simp add: unread_def)
  with c m ne have "speaking (message 0) (se_tr c)" by (simp add: speaking_def)
  moreover have "listening [] (se_tr s)"
    using assms(6) by (simp add: idle_def listening_def unread_def)
  ultimately have "under_way 0 [] [] (message 0) (net_begin c s)"
    using c(1) assms(5) m ne by (simp add: under_way_def net_begin_def spoken_def open_session_def)
  moreover have "[Suc 0..<10] = [1, 2, 3, 4, 5, 6, 7, 8, 9]" by (simp add: upt_rec)
  then have "to_move 0 [] (message 0) = 350"
    using length_script by (simp add: to_move_def later_def)
  ultimately show ?thesis unfolding conversation_inv_def by (metis add_0)
qed

text \<open>The states in which client and server may be at the same time.\<close>

definition in_step_states :: "(pw_connection_state \<times> pw_connection_state) list" where
  "in_step_states =
     [(PW_STATE_HANDSHAKING, PW_STATE_HANDSHAKING), (PW_STATE_HANDSHAKING, PW_STATE_AUTHENTICATING),
      (PW_STATE_AUTHENTICATING, PW_STATE_AUTHENTICATING), (PW_STATE_AUTHENTICATING, PW_STATE_READY),
      (PW_STATE_READY, PW_STATE_READY), (PW_STATE_CLOSING, PW_STATE_READY), (PW_STATE_CLOSED, PW_STATE_READY),
      (PW_STATE_CLOSED, PW_STATE_CLOSING), (PW_STATE_CLOSED, PW_STATE_CLOSED)]"

lemma script_states:
  "client_at 0 = PW_STATE_HANDSHAKING" "client_at (Suc 0) = PW_STATE_HANDSHAKING" "client_at 2 = PW_STATE_AUTHENTICATING"
  "client_at 3 = PW_STATE_AUTHENTICATING" "client_at 4 = PW_STATE_READY" "client_at 5 = PW_STATE_READY"
  "client_at 6 = PW_STATE_READY" "client_at 7 = PW_STATE_READY" "client_at 8 = PW_STATE_CLOSING" "client_at 9 = PW_STATE_CLOSED"
  "server_at 0 = PW_STATE_HANDSHAKING" "server_at (Suc 0) = PW_STATE_AUTHENTICATING" "server_at 2 = PW_STATE_AUTHENTICATING"
  "server_at 3 = PW_STATE_READY" "server_at 4 = PW_STATE_READY" "server_at 5 = PW_STATE_READY"
  "server_at 6 = PW_STATE_READY" "server_at 7 = PW_STATE_READY" "server_at 8 = PW_STATE_READY" "server_at 9 = PW_STATE_CLOSING"
  by (simp_all add: client_at_def server_at_def script_def)

lemma in_step_script:
  assumes "i < 10"
  shows "(spoken rest (client_at i), server_at i) \<in> set in_step_states \<or> odd i"
    and "(client_at i, spoken rest (server_at i)) \<in> set in_step_states \<or> even i"
proof -
  have "i = 0 \<or> i = Suc 0 \<or> i = 2 \<or> i = 3 \<or> i = 4 \<or> i = 5 \<or> i = 6 \<or> i = 7 \<or> i = 8 \<or> i = 9"
    using script_index [OF assms] by simp
  then show "(spoken rest (client_at i), server_at i) \<in> set in_step_states \<or> odd i"
    "(client_at i, spoken rest (server_at i)) \<in> set in_step_states \<or> even i"
    by (elim disjE; simp add: script_states spoken_def in_step_states_def)+
qed

lemma in_step_under_way:
  assumes "under_way i got q rest nw"
  shows "(state_of (nw_client nw), state_of (nw_server nw)) \<in> set in_step_states"
proof (cases "even i")
  case True
  with assms in_step_script(1) [of i rest] show ?thesis by (simp add: under_way_def)
next
  case False
  with assms in_step_script(2) [of i rest] show ?thesis by (simp add: under_way_def)
qed

section \<open>Properties\<close>

text \<open>C3: The two programs never leave an array or lose step on any network: from the start of the client, and a
  server session in HANDSHAKING, however the rounds of the two interleave, however reads and writes cut the bytes, and
  whatever the stack contains, every further round of a program that is in its loop returns, the client
  never leaves its loop early, and the states of the two are one of nine pairs, so that the client is only ready
  when the server is, and the server never falls behind by more than one message.\<close>

theorem conversation_in_step:
  assumes "client_start fcntl jt jc sock w = Some c"
    and "length (tr_read_buffer jt) = 4096" and "length (tr_write_buffer jt) = 4096" and "0 \<le> sock"
    and "state_of s = PW_STATE_HANDSHAKING" and "idle (se_tr s)"
    and "net_run (net_begin c s) n nw"
  shows "(nw_client_runs nw \<longrightarrow> carries (\<not> nw_server_runs nw) (nw_down nw) ev \<longrightarrow>
      (\<exists>c'. client_round ev (nw_client nw) = Some (True, c'))) \<and>
    (nw_server_runs nw \<longrightarrow> carries (\<not> nw_client_runs nw) (nw_up nw) ev' \<longrightarrow>
      (\<exists>go_on s'. server_round ev' (nw_server nw) = Some (go_on, s') \<and> (go_on \<or> \<not> nw_client_runs nw))) \<and>
    (state_of (nw_client nw), state_of (nw_server nw)) \<in> set in_step_states"
proof -
  from conversation_run [OF assms(7) conversation_start [OF assms(1-6)]] have inv: "conversation_inv n nw" .
  show ?thesis
  proof (cases "cut_short nw")
    case True
    then show ?thesis by (simp add: cut_short_def in_step_states_def)
  next
    case False
    with inv obtain i got q rest where u: "under_way i got q rest nw" by (auto simp: conversation_inv_def)
    have client: "\<exists>c'. client_round ev (nw_client nw) = Some (True, c')"
      if "nw_client_runs nw" "carries (\<not> nw_server_runs nw) (nw_down nw) ev"
      using client_speaks_move [OF u _ that(2)] client_listens_move [OF u _ that] by (cases "even i") blast+
    have server: "\<exists>go_on s'. server_round ev' (nw_server nw) = Some (go_on, s') \<and> (go_on \<or> \<not> nw_client_runs nw)"
      if r: "nw_server_runs nw" "carries (\<not> nw_client_runs nw) (nw_up nw) ev'"
    proof (cases "odd i \<and> \<not> hush (tr_fd (se_tr (nw_server nw))) ev'")
      case True
      with server_ends_move [OF u _ r] have "\<exists>s'. server_round ev' (nw_server nw) = Some (False, s')" by blast
      moreover have "\<not> nw_client_runs nw"
        using True r(2) u carries_hush [of ev'] by (auto simp: under_way_def)
      ultimately show ?thesis by blast
    next
      case False
      with server_speaks_move [OF u _ r(2)] server_listens_move [OF u _ r(2)] show ?thesis by (cases "even i") blast+
    qed
    with client server in_step_under_way [OF u] show ?thesis by blast
  qed
qed

text \<open>C2: The conversation comes to its end on any network: at most 343 bytes are moved, whatever the
  interleaving and the pieces, and as long as one of the programs is in its loop some round moves a byte. When
  neither is, the client is CLOSED, and the server is CLOSED, after exactly 343 bytes, or has seen the end of
  the stream before it had written its CLOSE, which the client does not wait for.\<close>

theorem conversation_completes:
  assumes "client_start fcntl jt jc sock w = Some c"
    and "length (tr_read_buffer jt) = 4096" and "length (tr_write_buffer jt) = 4096" and "0 \<le> sock"
    and "state_of s = PW_STATE_HANDSHAKING" and "idle (se_tr s)"
    and "net_run (net_begin c s) n nw"
  shows "n \<le> 343 \<and>
    (if nw_client_runs nw \<or> nw_server_runs nw then \<exists>k nw'. 0 < k \<and> net_step k nw nw'
     else state_of (nw_client nw) = PW_STATE_CLOSED \<and>
       (state_of (nw_server nw) = PW_STATE_CLOSED \<and> n = 343 \<or> state_of (nw_server nw) = PW_STATE_CLOSING))"
proof -
  from conversation_run [OF assms(7) conversation_start [OF assms(1-6)]] have inv: "conversation_inv n nw" .
  show ?thesis
  proof (cases "cut_short nw")
    case True
    have "n \<le> 343"
    proof -
      from inv consider "cut_short nw \<and> n \<le> 343" | i got q rest where "under_way i got q rest nw" "n + to_move i q rest = 350"
        by (auto simp: conversation_inv_def)
      then show ?thesis
      proof cases
        case (2 i got q rest)
        with to_move_least [OF 2(1)] show ?thesis by simp
      qed simp
    qed
    with True show ?thesis by (simp add: cut_short_def)
  next
    case False
    with inv obtain i got q rest where u: "under_way i got q rest nw" "n + to_move i q rest = 350"
      by (auto simp: conversation_inv_def)
    have "n \<le> 343" using to_move_least [OF u(1)] u(2) by simp
    moreover have "state_of (nw_client nw) = PW_STATE_CLOSED \<and> state_of (nw_server nw) = PW_STATE_CLOSED \<and> n = 343"
      if over: "\<not> nw_client_runs nw" "\<not> nw_server_runs nw"
    proof -
      have i: "i < 10" using u(1) by (simp add: under_way_def)
      have "i = 9 \<and> rest = []"
        using u(1) over script_open [OF i] by (auto simp: under_way_def open_session_def spoken_def split: if_splits)
      moreover have "client_at 9 = PW_STATE_CLOSED" "server_at 9 = PW_STATE_CLOSING" by (simp_all add: script_simps)
      ultimately show ?thesis using u last_to_move [of got q rest nw] by (auto simp: under_way_def spoken_def)
    qed
    ultimately show ?thesis using conversation_goes_on [OF inv] by auto
  qed
qed

theorem conversation_in_step_witness:
  "let s = \<lparr>se_conn = \<lparr>conn_state = PW_STATE_HANDSHAKING\<rparr>, se_tr = transport_with []\<rparr>
   in \<exists>c c'. client_start (\<lambda>fd cmd w. (0, w)) (transport_with [7]) \<lparr>conn_state = PW_STATE_CLOSED\<rparr> 5 () = Some c \<and>
      net_run (net_begin c s) 0 (net_begin c s) \<and> client_round (flush quiet_poll) c = Some (True, c') \<and>
      (\<exists>go_on s'. server_round (flush quiet_poll) s = Some (go_on, s'))"
proof -
  define s where "s = \<lparr>se_conn = \<lparr>conn_state = PW_STATE_HANDSHAKING\<rparr>, se_tr = transport_with []\<rparr>"
  have b: "length (tr_read_buffer (transport_with [7])) = 4096" "length (tr_write_buffer (transport_with [7])) = 4096"
    by (simp_all add: transport_with_def)
  have s: "state_of s = PW_STATE_HANDSHAKING" "idle (se_tr s)" by (simp_all add: s_def idle_def)
  from client_start_ok [OF b, of 5 "\<lambda>fd cmd w. (0, w)" "\<lparr>conn_state = PW_STATE_CLOSED\<rparr>" "()"] obtain c where
    c: "client_start (\<lambda>fd cmd w. (0, w)) (transport_with [7]) \<lparr>conn_state = PW_STATE_CLOSED\<rparr> 5 () = Some c" by auto
  from conversation_in_step [OF c b _ s net_start, of "flush quiet_poll" "flush quiet_poll"] c
    flush_carries [of False "[]"] show ?thesis
    unfolding s_def [symmetric] Let_def by (auto simp: net_begin_def net_start)
qed

theorem conversation_completes_witness:
  "let s = \<lparr>se_conn = \<lparr>conn_state = PW_STATE_HANDSHAKING\<rparr>, se_tr = transport_with []\<rparr>
   in \<exists>c k nw. client_start (\<lambda>fd cmd w. (0, w)) (transport_with [7]) \<lparr>conn_state = PW_STATE_CLOSED\<rparr> 5 () = Some c \<and>
      net_run (net_begin c s) k nw \<and> 0 < k \<and> k \<le> 343"
proof -
  define s where "s = \<lparr>se_conn = \<lparr>conn_state = PW_STATE_HANDSHAKING\<rparr>, se_tr = transport_with []\<rparr>"
  have b: "length (tr_read_buffer (transport_with [7])) = 4096" "length (tr_write_buffer (transport_with [7])) = 4096"
    by (simp_all add: transport_with_def)
  have s: "state_of s = PW_STATE_HANDSHAKING" "idle (se_tr s)" by (simp_all add: s_def idle_def)
  from client_start_ok [OF b, of 5 "\<lambda>fd cmd w. (0, w)" "\<lparr>conn_state = PW_STATE_CLOSED\<rparr>" "()"] obtain c where
    c: "client_start (\<lambda>fd cmd w. (0, w)) (transport_with [7]) \<lparr>conn_state = PW_STATE_CLOSED\<rparr> 5 () = Some c" by auto
  have "nw_client_runs (net_begin c s)" by (simp add: net_begin_def)
  with conversation_completes [OF c b _ s net_start] obtain k nw where k: "0 < k" "net_step k (net_begin c s) nw" by auto
  from net_further [OF net_start this(2)] have r: "net_run (net_begin c s) k nw" by simp
  from conversation_completes [OF c b _ s r] have "k \<le> 343" by simp
  with c k(1) r show ?thesis unfolding s_def [symmetric] Let_def by blast
qed

end
