(* ===== verification/PW_Integration.thy ===== *)
theory PW_Integration
  imports PW_Server PW_Client
begin

text \<open>
  The integration tests, \<open>native/tests/test_integration.c\<close>: four test functions with the part of a client and the
  session of the thread that serves them. A result is \<open>None\<close> when an array is left, \<open>Inl\<close> with its text when an assertion
  fails, which ends the process, and \<open>Inr\<close> otherwise. The test functions do not look at the result of \<open>poll\<close>: when the call fails
  \<open>revents\<close> holds what it held before, so that any event may be seen then; else \<open>poll\<close> reports only what it is asked for.
\<close>

section \<open>The test functions\<close>

datatype integration_test =
  Valid_handshake | Invalid_version_handshake | Resume_success_handshake | Resume_fail_handshake

text \<open>The token "test_token".\<close>

definition integration_token :: "byte list" where
  "integration_token = [0x74, 0x65, 0x73, 0x74, 0x5F, 0x74, 0x6F, 0x6B, 0x65, 0x6E]"

text \<open>The hello of each test; what an initialiser does not name is 0, and \<open>memset\<close> fills the session id.\<close>

fun integration_hello :: "integration_test \<Rightarrow> pw_client_hello" where
  "integration_hello Valid_handshake =
     \<lparr>ch_magic = (PW_MAGIC_BYTE_1, PW_MAGIC_BYTE_2), ch_version = PW_VERSION_1,
      ch_capabilities = PW_CAP_AUTH_BEARER, ch_client_nonce = replicate 16 0,
      ch_has_resume_token = False, ch_resume_session_id = replicate 16 0\<rparr>"
| "integration_hello Invalid_version_handshake =
     \<lparr>ch_magic = (PW_MAGIC_BYTE_1, PW_MAGIC_BYTE_2), ch_version = 0x99,
      ch_capabilities = PW_CAP_AUTH_BEARER, ch_client_nonce = replicate 16 0,
      ch_has_resume_token = False, ch_resume_session_id = replicate 16 0\<rparr>"
| "integration_hello Resume_success_handshake =
     \<lparr>ch_magic = (PW_MAGIC_BYTE_1, PW_MAGIC_BYTE_2), ch_version = PW_VERSION_1,
      ch_capabilities = PW_CAP_AUTH_BEARER, ch_client_nonce = replicate 16 0,
      ch_has_resume_token = True, ch_resume_session_id = replicate 16 0x11\<rparr>"
| "integration_hello Resume_fail_handshake =
     \<lparr>ch_magic = (PW_MAGIC_BYTE_1, PW_MAGIC_BYTE_2), ch_version = PW_VERSION_1,
      ch_capabilities = PW_CAP_AUTH_BEARER, ch_client_nonce = replicate 16 0,
      ch_has_resume_token = True, ch_resume_session_id = replicate 16 0x99\<rparr>"

definition integration_start ::
  "integration_test \<Rightarrow> (int \<Rightarrow> fcntl_cmd \<Rightarrow> 'w \<Rightarrow> int \<times> 'w) \<Rightarrow> pw_transport \<Rightarrow> pw_connection \<Rightarrow> int \<Rightarrow> 'w \<Rightarrow> session option" where
  "integration_start test fcntl junk_tr junk_conn sock w = do {
     tr \<leftarrow> fst (pw_transport_init fcntl (Some junk_tr) sock w);
     conn \<leftarrow> pw_connection_init (Some junk_conn);
     let conn = goto_state PW_STATE_HANDSHAKING (goto_state PW_STATE_CONNECTING conn);
     (n, wb) \<leftarrow> pw_handshake_serialize_client_hello (integration_hello test) (tr_write_buffer tr) 0 PW_BUFFER_SIZE;
     Some \<lparr>se_conn = conn, se_tr = tr\<lparr>tr_write_buffer := wb, tr_write_len := n\<rparr>\<rparr>
   }"

text \<open>\<open>assert\<close>: the text of the first condition that does not hold.\<close>

fun assertion_failed :: "(string \<times> bool) list \<Rightarrow> string option" where
  "assertion_failed [] = None"
| "assertion_failed ((msg, b) # as) = (if b then assertion_failed as else Some msg)"

type_synonym 'a asserted = "(string + 'a) option"

text \<open>The branches for the server hello: parse, assert, consume, act.\<close>

definition hello_branch ::
  "pw_server_hello \<Rightarrow> (pw_server_hello \<Rightarrow> (string \<times> bool) list) \<Rightarrow> (session \<Rightarrow> session option) \<Rightarrow> session
   \<Rightarrow> (bool \<times> session) asserted" where
  "hello_branch junk asserts act se = do {
     let tr = se_tr se;
     (parsed, s_hello) \<leftarrow> pw_handshake_parse_server_hello (tr_read_buffer tr) (tr_read_pos tr) (tr_read_len tr) junk;
     if 0 < parsed
     then case assertion_failed (asserts s_hello) of
         Some msg \<Rightarrow> Some (Inl msg)
       | None \<Rightarrow> do {
           se \<leftarrow> act (se\<lparr>se_tr := transport_consume tr parsed\<rparr>);
           Some (Inr (True, se))
         }
     else Some (Inr (False, se))
   }"

text \<open>The branches for frames: find a complete one and act on it, which includes consuming it.\<close>

definition consume_frame :: "nat \<Rightarrow> pw_frame \<Rightarrow> session \<Rightarrow> session" where
  "consume_frame parsed frame se =
     se\<lparr>se_tr := transport_consume (se_tr se) (size_add parsed (unat (fr_length frame)))\<rparr>"

definition asserted_frame_branch ::
  "pw_frame \<Rightarrow> (nat \<Rightarrow> pw_frame \<Rightarrow> session \<Rightarrow> session asserted) \<Rightarrow> session \<Rightarrow> (bool \<times> session) asserted" where
  "asserted_frame_branch junk act se = do {
     found \<leftarrow> parse_frame junk (se_tr se);
     (case found of
        Some (parsed, frame) \<Rightarrow> map_option (map_sum id (Pair True)) (act parsed frame se)
      | None \<Rightarrow> Some (Inr (False, se)))
   }"

definition send_frame :: "pw_frame \<Rightarrow> session \<Rightarrow> session option" where
  "send_frame frame se = do {
     tr \<leftarrow> send_header frame (se_tr se);
     Some (se\<lparr>se_tr := tr\<rparr>)
   }"

definition request_state :: "pw_connection_state \<Rightarrow> session \<Rightarrow> session" where
  "request_state s se = se\<lparr>se_conn := goto_state s (se_conn se)\<rparr>"

definition bare_frame :: "pw_opcode \<Rightarrow> pw_frame" where
  "bare_frame opc = frame_init PW_VERSION_1 PW_FLAG_FIN opc 0 0"

text \<open>\<open>do_valid_handshake\<close>, branch by branch.\<close>

definition valid_hello_act :: "session \<Rightarrow> session option" where
  "valid_hello_act se = do {
     let se = request_state PW_STATE_AUTHENTICATING se;
     let auth_req = \<lparr>ar_method = PW_AUTH_METHOD_BEARER, ar_token_len = of_nat (length integration_token),
                     ar_token = Some (integration_token @ [0], 0)\<rparr>;
     (auth_len, auth_payload) \<leftarrow> pw_auth_serialize_request auth_req (replicate 128 0) 0 128;
     tr \<leftarrow> send_header (frame_init PW_VERSION_1 PW_FLAG_FIN PW_OPCODE_AUTH 0 (of_nat auth_len)) (se_tr se);
     tr \<leftarrow> send_bytes auth_payload 0 auth_len tr;
     Some (se\<lparr>se_tr := tr\<rparr>)
   }"

definition TEST :: "byte list" where
  "TEST = [0x54, 0x45, 0x53, 0x54]"

definition valid_auth_frame :: "nat \<Rightarrow> pw_frame \<Rightarrow> session \<Rightarrow> session asserted" where
  "valid_auth_frame parsed frame se =
     (if fr_opcode frame \<noteq> opcode_byte PW_OPCODE_AUTH_OK then Some (Inl ''frame.opcode == PW_OPCODE_AUTH_OK'')
      else do {
        let se = consume_frame parsed frame (request_state PW_STATE_READY se);
        tr \<leftarrow> send_header (frame_init PW_VERSION_1 PW_FLAG_FIN PW_OPCODE_DATA_TEXT 0 4) (se_tr se);
        tr \<leftarrow> send_bytes (TEST @ [0]) 0 4 tr;
        Some (Inr (se\<lparr>se_tr := tr\<rparr>))
      })"

definition valid_ready_frame :: "nat \<Rightarrow> pw_frame \<Rightarrow> session \<Rightarrow> session asserted" where
  "valid_ready_frame parsed frame se =
     (if fr_opcode frame = opcode_byte PW_OPCODE_DATA_TEXT
      then if fr_length frame \<noteq> 4 then Some (Inl ''frame.length == 4'')
        else do {
          same \<leftarrow> memcmp_eq (tr_read_buffer (se_tr se)) (tr_read_pos (se_tr se) + parsed) (TEST @ [0]) 0 4;
          if \<not> same then Some (Inl ''memcmp(payload, \"TEST\", 4) == 0'')
          else do {
            se \<leftarrow> send_frame (bare_frame PW_OPCODE_PING) se;
            Some (Inr (consume_frame parsed frame se))
          }
        }
      else if fr_opcode frame = opcode_byte PW_OPCODE_PONG
      then do {
        se \<leftarrow> send_frame (bare_frame PW_OPCODE_CLOSE) se;
        Some (Inr (consume_frame parsed frame (request_state PW_STATE_CLOSING se)))
      }
      else Some (Inr (consume_frame parsed frame se)))"

definition closing_frame :: "nat \<Rightarrow> pw_frame \<Rightarrow> session \<Rightarrow> session asserted" where
  "closing_frame parsed frame se =
     (if fr_opcode frame \<noteq> opcode_byte PW_OPCODE_CLOSE then Some (Inl ''frame.opcode == PW_OPCODE_CLOSE'')
      else Some (Inr (consume_frame parsed frame se)))"

text \<open>The other tests: a rejected hello ends in CLOSING, a resumed session is READY without authentication, and
  one that is not resumed starts over; both are closed at once.\<close>

definition resume_success_act :: "session \<Rightarrow> session option" where
  "resume_success_act se = do {
     se \<leftarrow> send_frame (bare_frame PW_OPCODE_CLOSE) (request_state PW_STATE_READY se);
     Some (request_state PW_STATE_CLOSING se)
   }"

definition resume_fail_act :: "session \<Rightarrow> session option" where
  "resume_fail_act se = do {
     se \<leftarrow> send_frame (bare_frame PW_OPCODE_CLOSE) (request_state PW_STATE_AUTHENTICATING se);
     Some (request_state PW_STATE_CLOSING se)
   }"

definition drop_unread :: "session \<Rightarrow> session" where
  "drop_unread se = se\<lparr>se_tr := (se_tr se)\<lparr>tr_read_len := 0\<rparr>\<rparr>"

text \<open>One turn of the inner loop of each test. A state without a branch consumes nothing, which ends the loop.\<close>

definition integration_step :: "integration_test \<Rightarrow> poll_event \<Rightarrow> session \<Rightarrow> (bool \<times> session) asserted" where
  "integration_step test ev se =
     (let k = tr_read_len (se_tr se); hello = pe_server_hello ev k; frame = pe_frame ev k
      in case (test, state_of se) of
           (Valid_handshake, PW_STATE_HANDSHAKING) \<Rightarrow>
             hello_branch hello (\<lambda>sh. [(''s_hello.status == 0'', sh_status sh = 0)]) valid_hello_act se
         | (Valid_handshake, PW_STATE_AUTHENTICATING) \<Rightarrow> asserted_frame_branch frame valid_auth_frame se
         | (Valid_handshake, PW_STATE_READY) \<Rightarrow> asserted_frame_branch frame valid_ready_frame se
         | (Valid_handshake, PW_STATE_CLOSING) \<Rightarrow> asserted_frame_branch frame closing_frame se
         | (Invalid_version_handshake, PW_STATE_HANDSHAKING) \<Rightarrow>
             hello_branch hello (\<lambda>sh. [(''s_hello.status == PW_ERR_PROTOCOL_ERROR'', sh_status sh = PW_ERR_PROTOCOL_ERROR)])
               (\<lambda>se. Some (request_state PW_STATE_CLOSING se)) se
         | (Invalid_version_handshake, PW_STATE_CLOSING) \<Rightarrow> Some (Inr (True, drop_unread se))
         | (Resume_success_handshake, PW_STATE_HANDSHAKING) \<Rightarrow>
             hello_branch hello (\<lambda>sh. [(''s_hello.status == 0'', sh_status sh = 0),
               (''s_hello.resume_accepted == true'', sh_resume_accepted sh)]) resume_success_act se
         | (Resume_success_handshake, PW_STATE_CLOSING) \<Rightarrow> asserted_frame_branch frame closing_frame se
         | (Resume_fail_handshake, PW_STATE_HANDSHAKING) \<Rightarrow>
             hello_branch hello (\<lambda>sh. [(''s_hello.status == 0'', sh_status sh = 0),
               (''s_hello.resume_accepted == false'', \<not> sh_resume_accepted sh)]) resume_fail_act se
         | (Resume_fail_handshake, PW_STATE_CLOSING) \<Rightarrow> Some (Inr (True, drop_unread se))
         | _ \<Rightarrow> Some (Inr (False, se)))"

section \<open>The inner loop\<close>

lemma act_read_len:
  "send_frame f se = Some se' \<Longrightarrow> tr_read_len (se_tr se') = tr_read_len (se_tr se)"
  "valid_hello_act se = Some se' \<Longrightarrow> tr_read_len (se_tr se') = tr_read_len (se_tr se)"
  "resume_success_act se = Some se' \<Longrightarrow> tr_read_len (se_tr se') = tr_read_len (se_tr se)"
  "resume_fail_act se = Some se' \<Longrightarrow> tr_read_len (se_tr se') = tr_read_len (se_tr se)"
  by (auto simp: send_frame_def valid_hello_act_def resume_success_act_def resume_fail_act_def request_state_def Let_def
      split: bind_splits dest!: send_header_read_len send_bytes_read_len)

lemma hello_branch_read_len:
  assumes "hello_branch junk asserts act se = Some (Inr (c, se'))"
    and "\<And>se se'. act se = Some se' \<Longrightarrow> tr_read_len (se_tr se') = tr_read_len (se_tr se)"
  shows "tr_read_len (se_tr se') \<le> tr_read_len (se_tr se)"
proof -
  from assms(1) consider "se' = se"
    | parsed sh h where "pw_handshake_parse_server_hello (tr_read_buffer (se_tr se)) (tr_read_pos (se_tr se))
          (tr_read_len (se_tr se)) h = Some (parsed, sh)"
        "act (se\<lparr>se_tr := transport_consume (se_tr se) parsed\<rparr>) = Some se'"
    by (auto simp: hello_branch_def Let_def split: bind_splits if_splits option.splits)
  then show ?thesis
  proof cases
    case 2
    from assms(2) [OF 2(2)] parse_server_hello_bound [OF 2(1)] show ?thesis
      by (simp add: transport_consume_def size_sub_le_same)
  qed simp
qed

lemma consume_frame_read_len:
  "tr_read_len (se_tr (consume_frame n f se)) = size_sub (tr_read_len (se_tr se)) (size_add n (unat (fr_length f)))"
  by (simp add: consume_frame_def transport_consume_def)

lemma request_state_simps [simp]: "se_tr (request_state s se) = se_tr se" "se_conn (request_state s se) = goto_state s (se_conn se)"
  by (simp_all add: request_state_def)

lemma frame_act_read_len:
  assumes "act = valid_auth_frame \<or> act = valid_ready_frame \<or> act = closing_frame" and "act n f se = Some (Inr se')"
  shows "tr_read_len (se_tr se') = size_sub (tr_read_len (se_tr se)) (size_add n (unat (fr_length f)))"
  using assms
  by (auto simp: valid_auth_frame_def valid_ready_frame_def closing_frame_def Let_def consume_frame_read_len
      split: if_splits bind_splits dest!: send_header_read_len send_bytes_read_len act_read_len(1))

lemma asserted_frame_branch_read_len:
  assumes "asserted_frame_branch junk act se = Some (Inr (c, se'))"
    and "act = valid_auth_frame \<or> act = valid_ready_frame \<or> act = closing_frame"
  shows "tr_read_len (se_tr se') \<le> tr_read_len (se_tr se)"
proof -
  from assms(1) consider "se' = se"
    | n f where "parse_frame junk (se_tr se) = Some (Some (n, f))" "act n f se = Some (Inr se')"
    by (auto simp: asserted_frame_branch_def map_sum_def split: bind_splits option.splits sum.splits)
  then show ?thesis
  proof cases
    case 2
    from frame_act_read_len [OF assms(2) 2(2)] parse_frame_consumes [OF 2(1)] show ?thesis
      by (simp add: size_sub_le_same)
  qed simp
qed

lemma integration_step_read_len:
  assumes "integration_step test ev se = Some (Inr (c, se'))"
  shows "tr_read_len (se_tr se') \<le> tr_read_len (se_tr se)"
  using assms
  by (cases test; cases "state_of se")
    (auto simp: integration_step_def Let_def drop_unread_def intro: hello_branch_read_len act_read_len
      asserted_frame_branch_read_len)

function integration_read_loop :: "integration_test \<Rightarrow> poll_event \<Rightarrow> session \<Rightarrow> session asserted" where
  "integration_read_loop test ev se =
     (if tr_read_len (se_tr se) = 0 then Some (Inr se)
      else case integration_step test ev se of
             None \<Rightarrow> None
           | Some (Inl msg) \<Rightarrow> Some (Inl msg)
           | Some (Inr (go_on, se')) \<Rightarrow>
               if go_on \<and> tr_read_len (se_tr se') \<noteq> tr_read_len (se_tr se)
               then integration_read_loop test ev se' else Some (Inr se'))"
  by pat_completeness auto
termination
  by (relation "measure (\<lambda>(test, ev, se). tr_read_len (se_tr se))")
    (auto dest: integration_step_read_len intro: le_neq_implies_less)

declare integration_read_loop.simps [simp del]

text \<open>A round: write, then read. Then the loop, which only asks for CLOSED; the answer tells whether it has come to its
  end, and is else that of the rounds so far.\<close>

definition integration_round :: "integration_test \<Rightarrow> poll_event \<Rightarrow> session \<Rightarrow> (bool \<times> session) asserted" where
  "integration_round test ev se = do {
     se \<leftarrow> (if pe_out ev \<and> (pe_result ev < 0 \<or> 0 < tr_write_len (se_tr se)) then poll_write ev se else Some se);
     if pe_in ev
     then do {
       (r, errno, t) \<leftarrow> pw_transport_read (pe_recv ev) (pe_errno ev) (Some (se_tr se));
       tr \<leftarrow> t;
       if r \<le> 0 \<and> errno \<noteq> EAGAIN then Some (Inr (False, se\<lparr>se_tr := tr\<rparr>))
       else map_option (map_sum id (Pair True)) (integration_read_loop test ev (se\<lparr>se_tr := tr\<rparr>))
     }
     else Some (Inr (True, se))
   }"

fun integration_session :: "integration_test \<Rightarrow> poll_event list \<Rightarrow> session \<Rightarrow> (bool \<times> session) asserted" where
  "integration_session test evs se =
     (if state_of se = PW_STATE_CLOSED then Some (Inr (True, se))
      else case evs of
        [] \<Rightarrow> Some (Inr (False, se))
      | ev # evs \<Rightarrow>
          (case integration_round test ev se of
             None \<Rightarrow> None
           | Some (Inl msg) \<Rightarrow> Some (Inl msg)
           | Some (Inr (go_on, se')) \<Rightarrow> if go_on then integration_session test evs se' else Some (Inr (True, se'))))"

declare integration_session.simps [simp del]

text \<open>A test function from its \<open>connect\<close> to the line it prints. \<open>None\<close> in the place of the line stands for a loop
  that has not come to its end in the given rounds.\<close>

record 'w integration_run =
  ir_connect :: int
  ir_sock :: int
  ir_world :: 'w
  ir_transport :: pw_transport
  ir_connection :: pw_connection
  ir_events :: "poll_event list"

fun passed_line :: "integration_test \<Rightarrow> string" where
  "passed_line Valid_handshake = ''Valid handshake test passed.''"
| "passed_line Invalid_version_handshake = ''Invalid version handshake test passed.''"
| "passed_line Resume_success_handshake = ''Resume success test passed.''"
| "passed_line Resume_fail_handshake = ''Resume fallback test passed.''"

definition do_handshake ::
  "(int \<Rightarrow> fcntl_cmd \<Rightarrow> 'w \<Rightarrow> int \<times> 'w) \<Rightarrow> integration_test \<Rightarrow> 'w integration_run \<Rightarrow> string option asserted" where
  "do_handshake fcntl test run =
     (if ir_connect run \<noteq> 0 then Some (Inl ''connect(sock, (struct sockaddr *)&serv_addr, sizeof(serv_addr)) == 0'')
      else do {
        se \<leftarrow> integration_start test fcntl (ir_transport run) (ir_connection run) (ir_sock run) (ir_world run);
        r \<leftarrow> integration_session test (ir_events run) se;
        Some (map_sum id (\<lambda>(ended, se). if ended then Some (passed_line test) else None) r)
      })"

text \<open>The four tests in order, and the lines that are printed.\<close>

fun run_tests ::
  "(int \<Rightarrow> fcntl_cmd \<Rightarrow> 'w \<Rightarrow> int \<times> 'w) \<Rightarrow> (integration_test \<times> 'w integration_run) list \<Rightarrow> string list asserted" where
  "run_tests fcntl [] = Some (Inr [''Integration tests passed.''])"
| "run_tests fcntl ((test, run) # runs) =
     (case do_handshake fcntl test run of
        None \<Rightarrow> None
      | Some (Inl msg) \<Rightarrow> Some (Inl msg)
      | Some (Inr None) \<Rightarrow> Some (Inr [])
      | Some (Inr (Some line)) \<Rightarrow> map_option (map_sum id (Cons line)) (run_tests fcntl runs))"

definition integration_main ::
  "(int \<Rightarrow> fcntl_cmd \<Rightarrow> 'w \<Rightarrow> int \<times> 'w) \<Rightarrow> (integration_test \<Rightarrow> 'w integration_run) \<Rightarrow> string list asserted" where
  "integration_main fcntl runs =
     run_tests fcntl (map (\<lambda>test. (test, runs test))
       [Valid_handshake, Invalid_version_handshake, Resume_success_handshake, Resume_fail_handshake])"

section \<open>The thread that serves\<close>

text \<open>\<open>server_thread\<close>: the session of an accepted connection, like that of the daemon but with resumption, with the
  payload not printed and with a branch for CLOSING.\<close>

definition thread_accept ::
  "(int \<Rightarrow> fcntl_cmd \<Rightarrow> 'w \<Rightarrow> int \<times> 'w) \<Rightarrow> pw_transport \<Rightarrow> pw_connection \<Rightarrow> int \<Rightarrow> 'w \<Rightarrow> session option" where
  "thread_accept fcntl junk_tr junk_conn client_fd w = do {
     tr \<leftarrow> fst (pw_transport_init fcntl (Some junk_tr) client_fd w);
     conn \<leftarrow> pw_connection_init (Some junk_conn);
     Some \<lparr>se_conn = goto_state PW_STATE_HANDSHAKING conn, se_tr = tr\<rparr>
   }"

definition thread_hello_for :: "pw_client_hello \<Rightarrow> pw_server_hello option" where
  "thread_hello_for client_hello = do {
     accepted \<leftarrow> (if ch_has_resume_token client_hello
                 then do { b \<leftarrow> rd (ch_resume_session_id client_hello) 0; Some (b \<noteq> 0x99) }
                 else Some False);
     Some \<lparr>sh_magic = (PW_MAGIC_BYTE_1, PW_MAGIC_BYTE_2), sh_version = PW_VERSION_1,
           sh_capabilities = ch_capabilities client_hello, sh_server_nonce = replicate 16 0,
           sh_session_id = replicate 16 0, sh_status = 0, sh_resume_accepted = accepted\<rparr>
   }"

definition thread_handshaking :: "pw_client_hello \<Rightarrow> session \<Rightarrow> (bool \<times> session) option" where
  "thread_handshaking junk se = do {
     let tr = se_tr se;
     (parsed, client_hello) \<leftarrow> pw_handshake_parse_client_hello (tr_read_buffer tr) (tr_read_pos tr) (tr_read_len tr) junk;
     if 0 < parsed
     then do {
       let tr = transport_consume tr parsed;
       server_hello \<leftarrow> thread_hello_for client_hello;
       let (s, server_hello) =
         (if ch_version client_hello \<noteq> PW_VERSION_1
          then (PW_STATE_CLOSING, server_hello\<lparr>sh_status := PW_ERR_PROTOCOL_ERROR\<rparr>)
          else if sh_resume_accepted server_hello then (PW_STATE_READY, server_hello)
          else (PW_STATE_AUTHENTICATING, server_hello));
       (written, wb) \<leftarrow> pw_handshake_serialize_server_hello server_hello (tr_write_buffer tr) (tr_write_len tr)
                          (size_sub PW_BUFFER_SIZE (tr_write_len tr));
       Some (True, \<lparr>se_conn = goto_state s (se_conn se),
                    se_tr = tr\<lparr>tr_write_buffer := wb, tr_write_len := tr_write_len tr + written\<rparr>\<rparr>)
     }
     else Some (False, se)
   }"

definition thread_auth_frame :: "pw_auth_request \<Rightarrow> nat \<Rightarrow> pw_frame \<Rightarrow> session \<Rightarrow> session option" where
  "thread_auth_frame junk parsed frame se =
     (if fr_opcode frame = opcode_byte PW_OPCODE_AUTH
      then do {
        (k, req) \<leftarrow> pw_auth_parse_request (tr_read_buffer (se_tr se)) (tr_read_pos (se_tr se) + parsed)
                      (unat (fr_length frame)) junk;
        ok \<leftarrow> pw_auth_validate_bearer (Some req) (Some (integration_token @ [0]));
        if ok then send_frame (bare_frame PW_OPCODE_AUTH_OK) (request_state PW_STATE_READY se) else Some se
      }
      else Some se)"

definition thread_ready_frame :: "nat \<Rightarrow> pw_frame \<Rightarrow> session \<Rightarrow> session option" where
  "thread_ready_frame parsed frame se =
     (if fr_opcode frame = opcode_byte PW_OPCODE_DATA_TEXT
      then do {
        tr \<leftarrow> send_header frame (se_tr se);
        tr \<leftarrow> send_bytes (tr_read_buffer tr) (tr_read_pos tr + parsed) (unat (fr_length frame)) tr;
        Some (se\<lparr>se_tr := tr\<rparr>)
      }
      else if fr_opcode frame = opcode_byte PW_OPCODE_PING then send_frame (bare_frame PW_OPCODE_PONG) se
      else if fr_opcode frame = opcode_byte PW_OPCODE_CLOSE
      then do {
        se \<leftarrow> send_frame (bare_frame PW_OPCODE_CLOSE) se;
        Some (request_state PW_STATE_CLOSING se)
      }
      else Some se)"

definition thread_step :: "poll_event \<Rightarrow> session \<Rightarrow> (bool \<times> session) option" where
  "thread_step ev se =
     (let k = tr_read_len (se_tr se)
      in case state_of se of
           PW_STATE_HANDSHAKING \<Rightarrow> thread_handshaking (pe_client_hello ev k) se
         | PW_STATE_AUTHENTICATING \<Rightarrow> frame_branch (pe_frame ev k) (thread_auth_frame (pe_request ev k)) se
         | PW_STATE_READY \<Rightarrow> frame_branch (pe_frame ev k) thread_ready_frame se
         | PW_STATE_CLOSING \<Rightarrow> frame_branch (pe_frame ev k) (\<lambda>parsed frame. Some) se
         | _ \<Rightarrow> Some (False, se))"

lemma thread_act_read_len:
  "thread_auth_frame junk n f se = Some se' \<Longrightarrow> tr_read_len (se_tr se') = tr_read_len (se_tr se)"
  "thread_ready_frame n f se = Some se' \<Longrightarrow> tr_read_len (se_tr se') = tr_read_len (se_tr se)"
  by (auto simp: thread_auth_frame_def thread_ready_frame_def Let_def split: if_splits bind_splits
      dest!: send_header_read_len send_bytes_read_len act_read_len(1))

lemma thread_step_read_len:
  assumes "thread_step ev se = Some (c, se')"
  shows "tr_read_len (se_tr se') \<le> tr_read_len (se_tr se)"
proof (cases "state_of se")
  case PW_STATE_HANDSHAKING
  with assms show ?thesis
    by (auto simp: thread_step_def thread_handshaking_def Let_def transport_consume_def
        split: bind_splits if_splits)
      (rule size_sub_le_same, erule parse_client_hello_bound)+
next
  case PW_STATE_AUTHENTICATING
  with assms show ?thesis
    by (auto simp: thread_step_def Let_def intro: frame_branch_read_len thread_act_read_len(1))
next
  case PW_STATE_READY
  with assms show ?thesis
    by (auto simp: thread_step_def Let_def intro: frame_branch_read_len thread_act_read_len(2))
next
  case PW_STATE_CLOSING
  with assms show ?thesis
    by (auto simp: thread_step_def Let_def intro: frame_branch_read_len)
qed (use assms in \<open>auto simp: thread_step_def\<close>)

function thread_read_loop :: "poll_event \<Rightarrow> session \<Rightarrow> session option" where
  "thread_read_loop ev se =
     (if tr_read_len (se_tr se) = 0 then Some se
      else case thread_step ev se of
             None \<Rightarrow> None
           | Some (go_on, se') \<Rightarrow>
               if go_on \<and> tr_read_len (se_tr se') \<noteq> tr_read_len (se_tr se)
               then thread_read_loop ev se' else Some se')"
  by pat_completeness auto
termination
  by (relation "measure (\<lambda>(ev, se). tr_read_len (se_tr se))")
    (auto dest: thread_step_read_len intro: le_neq_implies_less)

declare thread_read_loop.simps [simp del]

text \<open>When \<open>poll\<close> has nothing to report or fails, the thread asks again.\<close>

definition thread_round :: "poll_event \<Rightarrow> session \<Rightarrow> (bool \<times> session) option" where
  "thread_round ev se =
     (let pollout = pe_out ev \<and> 0 < tr_write_len (se_tr se)
      in if pe_result ev \<le> 0 then Some (True, se)
      else do {
        (go_on, se) \<leftarrow>
          (if pe_in ev
           then do {
             (r, errno, t) \<leftarrow> pw_transport_read (pe_recv ev) (pe_errno ev) (Some (se_tr se));
             tr \<leftarrow> t;
             if r \<le> 0 \<and> errno \<noteq> EAGAIN \<and> errno \<noteq> EWOULDBLOCK then Some (False, se\<lparr>se_tr := tr\<rparr>)
             else do {
               se \<leftarrow> thread_read_loop ev (se\<lparr>se_tr := tr\<rparr>);
               Some (True, se)
             }
           }
           else Some (True, se));
        if \<not> go_on then Some (False, se)
        else if pollout
        then do {
          se \<leftarrow> poll_write ev se;
          Some (True, se)
        }
        else Some (True, se)
      })"

fun thread_session :: "poll_event list \<Rightarrow> session \<Rightarrow> session option" where
  "thread_session [] se = Some se"
| "thread_session (ev # evs) se =
     (if state_of se = PW_STATE_CLOSED \<or> state_of se = PW_STATE_DISCONNECTED then Some se
      else case thread_round ev se of
             None \<Rightarrow> None
           | Some (go_on, se') \<Rightarrow> if go_on then thread_session evs se' else Some se')"

section \<open>Starting a test\<close>

lemma integration_hello_wf [simp]: "client_hello_wf (integration_hello test)"
  by (cases test) (simp_all add: client_hello_wf_def)

lemma length_integration_hello: "length (client_hello_bytes (integration_hello test)) \<in> {24, 40}"
  using length_client_hello_bytes [OF integration_hello_wf, of test] by (auto split: if_splits)

lemma integration_start_ok:
  assumes "length (tr_read_buffer jt) = 4096" and "length (tr_write_buffer jt) = 4096" and "0 \<le> sock"
  shows "\<exists>c. integration_start test fcntl jt jc sock w = Some c \<and> state_of c = PW_STATE_HANDSHAKING \<and>
    transport_ok (se_tr c) \<and> tr_read_len (se_tr c) = 0 \<and> 0 \<le> tr_fd (se_tr c) \<and>
    unsent (se_tr c) = client_hello_bytes (integration_hello test) \<and> tr_write_pos (se_tr c) = 0"
proof -
  let ?b = "client_hello_bytes (integration_hello test)"
  have l: "length ?b \<le> 4096" using length_integration_hello [of test] by auto
  have ser: "pw_handshake_serialize_client_hello (integration_hello test) (tr_write_buffer jt) 0 4096 =
      Some (length ?b, put_bytes (tr_write_buffer jt) 0 ?b)"
    using serialize_client_hello_bytes [of 0 4096 "tr_write_buffer jt" "integration_hello test"] l assms(2) by simp
  show ?thesis
    using ser l assms bytes_at_put_bytes_same [of 0 ?b "tr_write_buffer jt"]
    by (simp add: integration_start_def pw_transport_init_def pw_connection_init_def goto_state_eq lifecycle.simps
        transport_ok_def unsent_def length_put_bytes Let_def)
qed

section \<open>A server that says nothing\<close>

text \<open>What a connection that is closed at once lets a client read.\<close>

definition silent :: "poll_event \<Rightarrow> bool" where
  "silent ev \<longleftrightarrow> send_ok (pe_send ev) \<and> (\<forall>fd n bs e. pe_recv ev fd n = Received bs e \<longrightarrow> bs = [])"

definition stream_end :: "poll_event \<Rightarrow> bool" where
  "stream_end ev \<longleftrightarrow> pe_in ev \<and> (\<forall>fd n. case pe_recv ev fd n of Received bs e \<Rightarrow> bs = [] \<and> e \<noteq> EAGAIN | RecvFailed e \<Rightarrow> e \<noteq> EAGAIN)"

lemma stream_endD:
  assumes "stream_end ev" and "pe_recv ev fd n = Received bs e \<or> pe_recv ev fd n = RecvFailed e"
  shows "e \<noteq> EAGAIN"
proof -
  from assms(1) have "case pe_recv ev fd n of Received bs e \<Rightarrow> bs = [] \<and> e \<noteq> EAGAIN | RecvFailed e \<Rightarrow> e \<noteq> EAGAIN"
    by (simp add: stream_end_def)
  with assms(2) show ?thesis by auto
qed

definition waits :: "session \<Rightarrow> bool" where
  "waits se \<longleftrightarrow> state_of se = PW_STATE_HANDSHAKING \<and> transport_ok (se_tr se) \<and> 0 \<le> tr_fd (se_tr se) \<and>
     tr_read_len (se_tr se) = 0"

lemma waits_write:
  assumes "waits se" and "send_ok (pe_send ev)"
  shows "\<exists>se'. poll_write ev se = Some se' \<and> waits se'"
proof -
  from assms(1) have ok: "transport_ok (se_tr se)" "0 \<le> tr_fd (se_tr se)" by (simp_all add: waits_def)
  show ?thesis
    by (rule write_cases [OF ok assms(2), of "pe_errno ev"])
      (use assms(1) in \<open>auto simp: waits_def poll_write_def Let_def\<close>)
qed

lemma waits_round:
  assumes "waits se" and "silent ev"
  shows "\<exists>go_on se'. integration_round test ev se = Some (Inr (go_on, se')) \<and> waits se' \<and> (stream_end ev \<longrightarrow> \<not> go_on)"
proof -
  from assms(2) have send: "send_ok (pe_send ev)" by (simp add: silent_def)
  from assms(1) waits_write [OF assms(1) send] obtain se1 where
    w: "(if pe_out ev \<and> (pe_result ev < 0 \<or> 0 < tr_write_len (se_tr se)) then poll_write ev se else Some se) = Some se1"
    and se1: "waits se1" by (cases "pe_out ev \<and> (pe_result ev < 0 \<or> 0 < tr_write_len (se_tr se))") auto
  from se1 have ok: "transport_ok (se_tr se1)" "0 \<le> tr_fd (se_tr se1)" and len: "tr_read_len (se_tr se1) = 0"
    by (simp_all add: waits_def)
  have fits: "recv_fits (pe_recv ev) (se_tr se1)" using assms(2) by (fastforce simp: silent_def recv_fits_def)
  obtain r e tr where rd: "pw_transport_read (pe_recv ev) (pe_errno ev) (Some (se_tr se1)) = Some (r, e, Some tr)"
    "waits (se1\<lparr>se_tr := tr\<rparr>)" "r \<le> 0" "stream_end ev \<longrightarrow> e \<noteq> EAGAIN"
  proof (rule read_cases [OF ok fits, of "pe_errno ev"])
    assume "tr_read_len (se_tr se1) = 4096"
    with len show ?thesis by simp
  next
    fix bs e tr
    assume a: "pe_recv ev (tr_fd (se_tr se1)) (4096 - tr_read_len (se_tr se1)) = Received bs e"
      "pw_transport_read (pe_recv ev) (pe_errno ev) (Some (se_tr se1)) = Some (int (length bs), e, Some tr)"
      "transport_ok tr" "unread tr = unread (se_tr se1) @ bs" "tr_fd tr = tr_fd (se_tr se1)"
    from a(1) assms(2) have bs: "bs = []" by (auto simp: silent_def)
    have "tr_read_len tr = 0" using length_unread [OF a(3)] length_unread [OF ok(1)] a(4) bs len by simp
    moreover have "stream_end ev \<longrightarrow> e \<noteq> EAGAIN" using a(1) stream_endD by blast
    ultimately show ?thesis using that a bs ok se1 by (simp add: waits_def)
  next
    fix e tr
    assume a: "pe_recv ev (tr_fd (se_tr se1)) (4096 - tr_read_len (se_tr se1)) = RecvFailed e"
      "pw_transport_read (pe_recv ev) (pe_errno ev) (Some (se_tr se1)) = Some (if e = EAGAIN then - EAGAIN else -1, e, Some tr)"
      "transport_ok tr" "unread tr = unread (se_tr se1)" "tr_fd tr = tr_fd (se_tr se1)"
    have "tr_read_len tr = 0" using length_unread [OF a(3)] length_unread [OF ok(1)] a(4) len by simp
    moreover have "stream_end ev \<longrightarrow> e \<noteq> EAGAIN" using a(1) stream_endD by blast
    moreover have "(if e = EAGAIN then - EAGAIN else -1) \<le> 0" by simp
    ultimately show ?thesis using that a ok se1 by (simp add: waits_def)
  qed
  have "integration_read_loop test ev (se1\<lparr>se_tr := tr\<rparr>) = Some (Inr (se1\<lparr>se_tr := tr\<rparr>))"
    using rd(2) by (simp add: integration_read_loop.simps waits_def)
  with w rd se1 show ?thesis
    by (auto simp: integration_round_def stream_end_def)
qed

lemma waits_session:
  assumes "waits se" and "\<forall>ev \<in> set evs. silent ev"
  shows "\<exists>ended se'. integration_session test evs se = Some (Inr (ended, se')) \<and> waits se' \<and>
    ((\<exists>ev \<in> set evs. stream_end ev) \<longrightarrow> ended)"
  using assms
proof (induction evs arbitrary: se)
  case Nil
  then show ?case by (auto simp: integration_session.simps [of test "[]"] waits_def)
next
  case (Cons ev evs)
  from Cons.prems(1) have "state_of se \<noteq> PW_STATE_CLOSED" by (simp add: waits_def)
  moreover from waits_round [OF Cons.prems(1), of ev test] Cons.prems(2) obtain go_on se1 where
    "integration_round test ev se = Some (Inr (go_on, se1))" "waits se1" "stream_end ev \<longrightarrow> \<not> go_on" by auto
  ultimately show ?case
    using Cons.IH [of se1] Cons.prems(2)
    by (cases go_on) (auto simp: integration_session.simps [of test "ev # evs"])
qed

lemma thread_never_runs:
  "\<exists>se. thread_accept fcntl junk_tr junk_conn client_fd w = Some se \<and>
     state_of se = PW_STATE_DISCONNECTED \<and> tr_write_len (se_tr se) = 0 \<and> (\<forall>evs. thread_session evs se = Some se)"
proof -
  have "thread_session evs se = Some se" if "state_of se = PW_STATE_DISCONNECTED" for evs se
    using that by (cases evs) simp_all
  then show ?thesis
    by (simp add: thread_accept_def pw_transport_init_def pw_connection_init_def goto_state_eq from_disconnected)
qed

section \<open>Tests that cannot close\<close>

text \<open>The states in which the three tests that ask for a refused transition remain.\<close>

definition stuck :: "integration_test \<Rightarrow> pw_connection_state \<Rightarrow> bool" where
  "stuck test s \<longleftrightarrow> test \<noteq> Valid_handshake \<and>
     (s = PW_STATE_HANDSHAKING \<or> test = Resume_fail_handshake \<and> s = PW_STATE_AUTHENTICATING)"

lemma send_frame_conn: "send_frame f se = Some se' \<Longrightarrow> se_conn se' = se_conn se"
  by (auto simp: send_frame_def split: bind_splits)

lemma hello_branch_result:
  assumes "hello_branch junk asserts act se = Some (Inr (c, se'))" and "se' \<noteq> se"
  obtains tr where "act (se\<lparr>se_tr := tr\<rparr>) = Some se'"
  using assms by (auto simp: hello_branch_def Let_def split: bind_splits if_splits option.splits)

lemma stuck_step:
  assumes "stuck test (state_of se)" and "integration_step test ev se = Some (Inr (c, se'))"
  shows "stuck test (state_of se')"
proof (cases "state_of se = PW_STATE_HANDSHAKING \<and> se' \<noteq> se")
  case True
  then have hs: "state_of se = PW_STATE_HANDSHAKING" and ne: "se' \<noteq> se" by simp_all
  have closing: "goto_state PW_STATE_CLOSING conn = conn" if "conn_state conn = PW_STATE_HANDSHAKING" for conn
    using that by (simp add: goto_state_eq lifecycle.simps)
  have ready: "goto_state PW_STATE_READY (se_conn se) = se_conn se"
    using hs by (simp add: goto_state_eq lifecycle.simps)
  have auth: "goto_state PW_STATE_AUTHENTICATING (se_conn se) = (se_conn se)\<lparr>conn_state := PW_STATE_AUTHENTICATING\<rparr>"
    using hs by (simp add: goto_state_eq lifecycle.simps)
  have closing': "goto_state PW_STATE_CLOSING ((se_conn se)\<lparr>conn_state := PW_STATE_AUTHENTICATING\<rparr>) =
      (se_conn se)\<lparr>conn_state := PW_STATE_AUTHENTICATING\<rparr>"
    by (simp add: goto_state_eq lifecycle.simps)
  show ?thesis
  proof (cases test)
    case Valid_handshake
    with assms(1) show ?thesis by (simp add: stuck_def)
  next
    case Invalid_version_handshake
    from assms(2) hs show ?thesis
      unfolding Invalid_version_handshake integration_step_def Let_def
      by (auto elim!: hello_branch_result [OF _ ne] simp: stuck_def closing)
  next
    case Resume_success_handshake
    from assms(2) hs show ?thesis
      unfolding Resume_success_handshake integration_step_def Let_def
      by (auto elim!: hello_branch_result [OF _ ne] simp: stuck_def closing ready resume_success_act_def
          split: bind_splits dest!: send_frame_conn)
  next
    case Resume_fail_handshake
    from assms(2) hs show ?thesis
      unfolding Resume_fail_handshake integration_step_def Let_def
      by (auto elim!: hello_branch_result [OF _ ne] simp: stuck_def closing' auth resume_fail_act_def
          split: bind_splits dest!: send_frame_conn)
  qed
next
  case False
  with assms show ?thesis by (auto simp: stuck_def integration_step_def)
qed

lemma stuck_loop:
  "stuck test (state_of se) \<Longrightarrow> integration_read_loop test ev se = Some (Inr se') \<Longrightarrow> stuck test (state_of se')"
proof (induction test ev se rule: integration_read_loop.induct)
  case (1 test ev se)
  show ?case
  proof (cases "tr_read_len (se_tr se) = 0")
    case False
    with 1(3) obtain go_on se1 where step: "integration_step test ev se = Some (Inr (go_on, se1))"
      and rest: "(if go_on \<and> tr_read_len (se_tr se1) \<noteq> tr_read_len (se_tr se)
        then integration_read_loop test ev se1 else Some (Inr se1)) = Some (Inr se')"
      by (auto simp: integration_read_loop.simps [of test ev se] split: option.splits sum.splits)
    from stuck_step [OF 1(2) step] have "stuck test (state_of se1)" .
    with rest 1(1) [OF False step refl refl] show ?thesis by (auto split: if_splits)
  qed (use 1 in \<open>simp add: integration_read_loop.simps [of test ev se]\<close>)
qed

lemma stuck_write:
  assumes "poll_write ev se = Some se'" and "stuck test (state_of se)"
  shows "stuck test (state_of se')"
  using assms by (auto simp: poll_write_def Let_def stuck_def split: bind_splits if_splits)

text \<open>The read of a round, after its write half, is one with which a test function leaves its loop.\<close>

definition read_ends :: "poll_event \<Rightarrow> session \<Rightarrow> bool" where
  "read_ends ev se \<longleftrightarrow> pe_in ev \<and> (\<exists>se1 r errno t.
     (if pe_out ev \<and> (pe_result ev < 0 \<or> 0 < tr_write_len (se_tr se)) then poll_write ev se else Some se) = Some se1 \<and>
     pw_transport_read (pe_recv ev) (pe_errno ev) (Some (se_tr se1)) = Some (r, errno, t) \<and> r \<le> 0 \<and> errno \<noteq> EAGAIN)"

lemma stuck_round:
  assumes "stuck test (state_of se)" and "integration_round test ev se = Some (Inr (go_on, se'))"
  shows "stuck test (state_of se')" and "go_on \<or> read_ends ev se"
proof -
  from assms(2) obtain se1 where
    w: "(if pe_out ev \<and> (pe_result ev < 0 \<or> 0 < tr_write_len (se_tr se)) then poll_write ev se else Some se) = Some se1"
    and rest: "(if pe_in ev
     then do {
       (r, errno, t) \<leftarrow> pw_transport_read (pe_recv ev) (pe_errno ev) (Some (se_tr se1));
       tr \<leftarrow> t;
       if r \<le> 0 \<and> errno \<noteq> EAGAIN then Some (Inr (False, se1\<lparr>se_tr := tr\<rparr>))
       else map_option (map_sum id (Pair True)) (integration_read_loop test ev (se1\<lparr>se_tr := tr\<rparr>))
     }
     else Some (Inr (True, se1))) = Some (Inr (go_on, se'))"
    unfolding integration_round_def by (auto simp: bind_eq_Some_conv)
  have se1: "stuck test (state_of se1)" using w stuck_write assms(1) by (auto split: if_splits)
  have "stuck test (state_of se') \<and> (go_on \<or> read_ends ev se)"
  proof (cases "pe_in ev")
    case True
    with rest obtain r errno tr where rd: "pw_transport_read (pe_recv ev) (pe_errno ev) (Some (se_tr se1)) = Some (r, errno, Some tr)"
      and res: "(if r \<le> 0 \<and> errno \<noteq> EAGAIN then Some (Inr (False, se1\<lparr>se_tr := tr\<rparr>))
       else map_option (map_sum id (Pair True)) (integration_read_loop test ev (se1\<lparr>se_tr := tr\<rparr>))) = Some (Inr (go_on, se'))"
      by (auto simp: bind_eq_Some_conv)
    show ?thesis
    proof (cases "r \<le> 0 \<and> errno \<noteq> EAGAIN")
      case over: True
      have "read_ends ev se" unfolding read_ends_def using True w rd over by blast
      with over res se1 show ?thesis by auto
    next
      case False
      with res obtain x where "integration_read_loop test ev (se1\<lparr>se_tr := tr\<rparr>) = Some x"
        "map_sum id (Pair True) x = Inr (go_on, se')" by auto
      then have "integration_read_loop test ev (se1\<lparr>se_tr := tr\<rparr>) = Some (Inr se')" "go_on" by (cases x; auto)+
      with stuck_loop [of test "se1\<lparr>se_tr := tr\<rparr>" ev se'] se1 show ?thesis by simp
    qed
  qed (use rest se1 in auto)
  then show "stuck test (state_of se')" and "go_on \<or> read_ends ev se" by simp_all
qed

text \<open>So a test function that comes to its end from there does so in the round whose read ends it.\<close>

lemma stuck_session:
  assumes "stuck test (state_of se)" and "integration_session test evs se = Some (Inr (True, se'))"
  shows "\<exists>evs1 ev evs2 c. evs = evs1 @ ev # evs2 \<and> integration_session test evs1 se = Some (Inr (False, c)) \<and> read_ends ev c"
  using assms
proof (induction evs arbitrary: se)
  case Nil
  then show ?case by (auto simp: integration_session.simps [of test "[]"] stuck_def)
next
  case (Cons ev evs)
  from Cons.prems(1) have st: "state_of se \<noteq> PW_STATE_CLOSED" by (auto simp: stuck_def)
  with Cons.prems(2) obtain go_on se1 where r: "integration_round test ev se = Some (Inr (go_on, se1))"
    and rest: "(if go_on then integration_session test evs se1 else Some (Inr (True, se1))) = Some (Inr (True, se'))"
    by (auto simp: integration_session.simps [of test "ev # evs"] split: option.splits sum.splits)
  note step = stuck_round [OF Cons.prems(1) r]
  show ?case
  proof (cases go_on)
    case True
    from Cons.IH [OF step(1)] rest True obtain evs1 e evs2 c where
      "evs = evs1 @ e # evs2" "integration_session test evs1 se1 = Some (Inr (False, c))" "read_ends e c" by auto
    with r st True show ?thesis
      by (intro exI [of _ "ev # evs1"] exI [of _ e] exI [of _ evs2] exI [of _ c])
        (simp add: integration_session.simps [of test "ev # evs1"])
  next
    case False
    with step(2) st show ?thesis
      by (intro exI [of _ "[]"] exI [of _ ev] exI [of _ evs] exI [of _ se])
        (simp add: integration_session.simps [of test "[]"])
  qed
qed

section \<open>Properties\<close>

text \<open>C28: The integration tests pass although nothing is tested. The session of the thread is refused at its start, as
  in the daemon, and ends without reading or writing a byte, whatever arrives. The test functions, which then see a
  connection that brings no byte and ends, come to their end without an assertion on an answer and all four
  lines are printed, with the one of \<open>main\<close> behind them.\<close>

theorem integration_tests_vacuous:
  assumes "\<forall>test. ir_connect (runs test) = 0 \<and> 0 \<le> ir_sock (runs test) \<and>
      length (tr_read_buffer (ir_transport (runs test))) = 4096 \<and> length (tr_write_buffer (ir_transport (runs test))) = 4096"
    and "\<forall>test. (\<forall>ev \<in> set (ir_events (runs test)). silent ev) \<and> (\<exists>ev \<in> set (ir_events (runs test)). stream_end ev)"
  shows "integration_main fcntl runs = Some (Inr [''Valid handshake test passed.'',
      ''Invalid version handshake test passed.'', ''Resume success test passed.'', ''Resume fallback test passed.'',
      ''Integration tests passed.'']) \<and>
    (\<forall>jt jc client_fd w. \<exists>se. thread_accept fcntl jt jc client_fd w = Some se \<and> tr_write_len (se_tr se) = 0 \<and>
      (\<forall>evs. thread_session evs se = Some se))"
proof
  have pass: "do_handshake fcntl test (runs test) = Some (Inr (Some (passed_line test)))" for test
  proof -
    from assms(1) integration_start_ok [of "ir_transport (runs test)" "ir_sock (runs test)" test fcntl
        "ir_connection (runs test)" "ir_world (runs test)"] obtain c where
      c: "integration_start test fcntl (ir_transport (runs test)) (ir_connection (runs test)) (ir_sock (runs test))
        (ir_world (runs test)) = Some c" "waits c" by (auto simp: waits_def)
    from waits_session [OF c(2), of "ir_events (runs test)" test] assms(2) obtain se' where
      "integration_session test (ir_events (runs test)) c = Some (Inr (True, se'))" by auto
    with c(1) assms(1) show ?thesis by (simp add: do_handshake_def)
  qed
  show "integration_main fcntl runs = Some (Inr [''Valid handshake test passed.'',
      ''Invalid version handshake test passed.'', ''Resume success test passed.'', ''Resume fallback test passed.'',
      ''Integration tests passed.''])"
    by (simp only: integration_main_def list.map run_tests.simps pass option.case sum.case option.map map_sum.simps
        passed_line.simps id_apply)
  show "\<forall>jt jc client_fd w. \<exists>se. thread_accept fcntl jt jc client_fd w = Some se \<and> tr_write_len (se_tr se) = 0 \<and>
      (\<forall>evs. thread_session evs se = Some se)"
    using thread_never_runs [of fcntl] by (intro allI) blast
qed

theorem integration_tests_vacuous_witness:
  "let runs = (\<lambda>test. \<lparr>ir_connect = 0, ir_sock = 3, ir_world = (), ir_transport = transport_with [],
         ir_connection = \<lparr>conn_state = PW_STATE_READY\<rparr>,
         ir_events = [quiet_poll\<lparr>pe_result := 1, pe_in := True, pe_recv := (\<lambda>fd n. Received [] 0)\<rparr>]\<rparr>)
   in \<exists>lines. integration_main (\<lambda>fd cmd w. (0, w)) runs = Some (Inr lines) \<and> last lines = ''Integration tests passed.''"
proof -
  define runs where "runs = (\<lambda>test :: integration_test. \<lparr>ir_connect = 0, ir_sock = 3, ir_world = (), ir_transport = transport_with [],
         ir_connection = \<lparr>conn_state = PW_STATE_READY\<rparr>,
         ir_events = [quiet_poll\<lparr>pe_result := 1, pe_in := True, pe_recv := (\<lambda>fd n. Received [] 0)\<rparr>]\<rparr>)"
  have a: "\<forall>test. ir_connect (runs test) = 0 \<and> 0 \<le> ir_sock (runs test) \<and>
      length (tr_read_buffer (ir_transport (runs test))) = 4096 \<and> length (tr_write_buffer (ir_transport (runs test))) = 4096"
    by (simp add: runs_def transport_with_def)
  have b: "\<forall>test. (\<forall>ev \<in> set (ir_events (runs test)). silent ev) \<and> (\<exists>ev \<in> set (ir_events (runs test)). stream_end ev)"
    by (simp add: runs_def silent_def stream_end_def send_ok_def quiet_poll_def)
  from integration_tests_vacuous [OF a b, of "\<lambda>fd cmd w. (0, w)"] show ?thesis
    unfolding runs_def [symmetric] Let_def by auto
qed

end
