(* ===== verification/PW_Integration_Run.thy ===== *)
theory PW_Integration_Run
  imports PW_Integration PW_Stream
begin

text \<open>
  What the integration tests would show if the thread's sessions ran: from the state HANDSHAKING that the thread asks
  for, its session and the valid test complete their conversation with every assertion on the way. The thread and
  the test functions are two more interpretations of the locale \<open>speaker\<close> of PW_Dialogue.
\<close>

section \<open>The thread and the tests as speakers\<close>

lemma thread_run_bring:
  assumes "open_session se" and "idle (se_tr se)" and "bs \<noteq> []" and "length bs \<le> 4096"
  shows "\<exists>tr. arrived bs tr \<and> thread_session [bring bs ev] se = thread_read_loop (bring bs ev) (se\<lparr>se_tr := tr\<rparr>)"
proof -
  from read_arrives [OF assms(2,4)] obtain tr where
    "arrived bs tr" "pw_transport_read (\<lambda>fd n. Received (take n bs) 0) (pe_errno ev) (Some (se_tr se)) = Some (int (length bs), 0, Some tr)"
    by blast
  then show ?thesis
    using assms by (intro exI [of _ tr])
      (auto simp: thread_round_def bring_def Let_def idle_def open_session_def split: bind_split option.splits)
qed

interpretation thread: speaker thread_step thread_session
proof unfold_locales
  fix se :: session and bs :: "byte list" and ev :: poll_event
  assume a: "open_session se" "idle (se_tr se)" "bs \<noteq> []" "length bs \<le> 4096"
  from thread_run_bring [OF a, of ev] obtain tr where
    tr: "arrived bs tr" "thread_session [bring bs ev] se = thread_read_loop (bring bs ev) (se\<lparr>se_tr := tr\<rparr>)" by blast
  have "thread_session [bring bs ev] se = Some se'"
    if "thread_step (bring bs ev) (se\<lparr>se_tr := tr\<rparr>) = Some (True, se')" "tr_read_len (se_tr se') = 0" for se'
    using that tr(2) arrived_read_len [OF tr(1)] a(3)
    by (simp add: thread_read_loop.simps [of _ "se\<lparr>se_tr := tr\<rparr>"] thread_read_loop.simps [of _ se'])
  with tr(1) show "\<exists>tr. arrived bs tr \<and> (\<forall>se'. thread_step (bring bs ev) (se\<lparr>se_tr := tr\<rparr>) = Some (True, se') \<longrightarrow>
      tr_read_len (se_tr se') = 0 \<longrightarrow> thread_session [bring bs ev] se = Some se')" by blast
next
  fix se :: session and ev :: poll_event
  assume "open_session se" and "0 < tr_write_len (se_tr se)"
  then show "thread_session [flush ev] se = poll_write (flush ev) se"
    by (cases "poll_write (flush ev) se") (simp_all add: open_session_def thread_round_def flush_def)
qed

text \<open>The results without a failed assertion.\<close>

definition no_assert :: "'a asserted \<Rightarrow> 'a option" where
  "no_assert r = (case r of Some (Inr x) \<Rightarrow> Some x | _ \<Rightarrow> None)"

lemma no_assert_simps [simp]: "no_assert None = None" "no_assert (Some (Inl msg)) = None" "no_assert (Some (Inr x)) = Some x"
  by (simp_all add: no_assert_def)

lemma no_assert_iff: "no_assert r = Some x \<longleftrightarrow> r = Some (Inr x)"
  by (auto simp: no_assert_def split: option.splits sum.splits)

definition passing_step :: "integration_test \<Rightarrow> poll_event \<Rightarrow> session \<Rightarrow> (bool \<times> session) option" where
  "passing_step test ev se = no_assert (integration_step test ev se)"

definition passing_session :: "integration_test \<Rightarrow> poll_event list \<Rightarrow> session \<Rightarrow> session option" where
  "passing_session test evs se = map_option snd (no_assert (integration_session test evs se))"

lemma integration_single:
  assumes "state_of se \<noteq> PW_STATE_CLOSED" and "integration_round test ev se = Some (Inr (True, se'))"
  shows "passing_session test [ev] se = Some se'"
  using assms by (auto simp: passing_session_def integration_session.simps [of test "[ev]"] integration_session.simps [of test "[]"])

lemma integration_run_bring:
  assumes "open_session se" and "idle (se_tr se)" and "bs \<noteq> []" and "length bs \<le> 4096"
  shows "\<exists>tr. arrived bs tr \<and> integration_round test (bring bs ev) se =
    map_option (map_sum id (Pair True)) (integration_read_loop test (bring bs ev) (se\<lparr>se_tr := tr\<rparr>))"
proof -
  from read_arrives [OF assms(2,4)] obtain tr where
    "arrived bs tr" "pw_transport_read (\<lambda>fd n. Received (take n bs) 0) (pe_errno ev) (Some (se_tr se)) = Some (int (length bs), 0, Some tr)"
    by blast
  then show ?thesis
    using assms by (intro exI [of _ tr]) (auto simp: integration_round_def bring_def idle_def)
qed

lemma integration_loop_once:
  assumes "integration_step test ev se = Some (Inr (True, se'))" and "tr_read_len (se_tr se') = 0"
  shows "integration_read_loop test ev se = Some (Inr (if tr_read_len (se_tr se) = 0 then se else se'))"
  using assms by (simp add: integration_read_loop.simps [of _ _ se] integration_read_loop.simps [of _ _ se'])

interpretation tester: speaker "passing_step test" "passing_session test" for test
proof unfold_locales
  fix se :: session and bs :: "byte list" and ev :: poll_event
  assume a: "open_session se" "idle (se_tr se)" "bs \<noteq> []" "length bs \<le> 4096"
  from integration_run_bring [OF a, of test ev] obtain tr where
    tr: "arrived bs tr" "integration_round test (bring bs ev) se =
      map_option (map_sum id (Pair True)) (integration_read_loop test (bring bs ev) (se\<lparr>se_tr := tr\<rparr>))" by blast
  have "passing_session test [bring bs ev] se = Some se'"
    if "passing_step test (bring bs ev) (se\<lparr>se_tr := tr\<rparr>) = Some (True, se')" "tr_read_len (se_tr se') = 0" for se'
  proof (rule integration_single)
    from integration_loop_once [of test "bring bs ev" "se\<lparr>se_tr := tr\<rparr>" se'] that arrived_read_len [OF tr(1)] a(3) tr(2)
    show "integration_round test (bring bs ev) se = Some (Inr (True, se'))"
      by (simp add: passing_step_def no_assert_iff)
  qed (use a(1) in \<open>simp add: open_session_def\<close>)
  with tr(1) show "\<exists>tr. arrived bs tr \<and> (\<forall>se'. passing_step test (bring bs ev) (se\<lparr>se_tr := tr\<rparr>) = Some (True, se') \<longrightarrow>
      tr_read_len (se_tr se') = 0 \<longrightarrow> passing_session test [bring bs ev] se = Some se')" by blast
next
  fix se :: session and ev :: poll_event
  assume a: "open_session se" "0 < tr_write_len (se_tr se)"
  show "passing_session test [flush ev] se = poll_write (flush ev) se"
  proof (cases "poll_write (flush ev) se")
    case None
    then have "integration_round test (flush ev) se = None"
      using a(2) by (simp add: integration_round_def flush_def)
    with a(1) None show ?thesis
      by (simp add: open_session_def passing_session_def integration_session.simps [of test "[flush ev]"])
  next
    case (Some se')
    have "passing_session test [flush ev] se = Some se'"
      by (rule integration_single) (use a Some in \<open>simp_all add: open_session_def integration_round_def flush_def\<close>)
    with Some show ?thesis by simp
  qed
qed

section \<open>The answers of the thread\<close>

lemma send_frame_fits:
  assumes "writable (se_tr se) (length (frame_header_bytes f))"
  shows "send_frame f se = Some (se\<lparr>se_tr := queue_out (frame_header_bytes f) (se_tr se)\<rparr>)"
  using assms by (simp add: send_frame_def send_header_queue)

lemma send_frame_queue:
  assumes "writable (se_tr se) 15"
  shows "send_frame f se = Some (se\<lparr>se_tr := queue_out (frame_header_bytes f) (se_tr se)\<rparr>)"
  using writable_mono [OF assms, of "length (frame_header_bytes f)"] length_frame_header_bytes [of f]
  by (simp add: send_frame_def send_header_queue)

definition thread_answer :: "pw_client_hello \<Rightarrow> pw_server_hello" where
  "thread_answer h = (hello_answer h)\<lparr>sh_resume_accepted := ch_has_resume_token h \<and> ch_resume_session_id h ! 0 \<noteq> 0x99\<rparr>"

lemma thread_answer_wf [simp]: "server_hello_wf (thread_answer h)"
  using hello_answer_wf [of h] by (simp add: thread_answer_def server_hello_wf_def)

lemma thread_hello_for_received:
  assumes "client_hello_wf h"
  shows "thread_hello_for (client_hello_received h out) = Some ((thread_answer h)\<lparr>sh_status := 0\<rparr>)"
proof -
  have "thread_hello_for = server_hello_for" by (simp add: fun_eq_iff thread_hello_for_def server_hello_for_def)
  then show ?thesis using server_hello_for_received [OF assms, of out] by (simp add: thread_answer_def)
qed

lemma thread_handshake_step:
  assumes "state_of se = PW_STATE_HANDSHAKING" and "client_hello_wf h" and "writable (se_tr se) 42"
    and "client_hello_wf (pe_client_hello ev (tr_read_len (se_tr se)))"
    and "unread (se_tr se) = client_hello_bytes h @ rest"
  shows "thread_step ev se = Some (True,
    \<lparr>se_conn = (se_conn se)\<lparr>conn_state := if ch_version h = 1 \<and> \<not> sh_resume_accepted (thread_answer h)
       then PW_STATE_AUTHENTICATING else PW_STATE_HANDSHAKING\<rparr>,
     se_tr = queue_out (server_hello_bytes (thread_answer h))
       (transport_consume (se_tr se) (length (client_hello_bytes h)))\<rparr>)"
proof -
  let ?tr = "se_tr se" and ?n = "length (client_hello_bytes h)" and ?a = "thread_answer h"
  let ?tr' = "transport_consume ?tr ?n"
  let ?g = "client_hello_received h (pe_client_hello ev (tr_read_len ?tr))"
  from assms(3) have ok: "transport_ok ?tr" by (simp add: writable_def)
  have v: "ch_version ?g = ch_version h" by (simp add: client_hello_received_def)
  have d: "client_hello_dec (unread ?tr) (pe_client_hello ev (tr_read_len ?tr)) = (?n, ?g)" "0 < ?n"
    using assms(5) length_client_hello_bytes [OF assms(2)] by (simp_all add: client_hello_dec_bytes [OF assms(2)])
  have "?n \<le> tr_read_len ?tr" using length_unread [OF ok] assms(5) by simp
  with assms(3) have w: "writable ?tr' 42" by (rule writable_consume)
  then have ser: "pw_handshake_serialize_server_hello ?a (tr_write_buffer ?tr') (tr_write_len ?tr')
      (size_sub 4096 (tr_write_len ?tr')) =
      Some (42, put_bytes (tr_write_buffer ?tr') (tr_write_len ?tr') (server_hello_bytes ?a))"
    by (subst serialize_server_hello_bytes) (auto simp: writable_def transport_ok_def mem_simps)
  have q: "queue_out (server_hello_bytes ?a) ?tr' = ?tr'
      \<lparr>tr_write_buffer := put_bytes (tr_write_buffer ?tr') (tr_write_len ?tr') (server_hello_bytes ?a),
       tr_write_len := tr_write_len ?tr' + 42\<rparr>"
    by (simp add: queue_out_def length_server_hello_bytes)
  have c: "goto_state PW_STATE_AUTHENTICATING (se_conn se) = (se_conn se)\<lparr>conn_state := PW_STATE_AUTHENTICATING\<rparr>"
    "goto_state PW_STATE_CLOSING (se_conn se) = (se_conn se)\<lparr>conn_state := PW_STATE_HANDSHAKING\<rparr>"
    "goto_state PW_STATE_READY (se_conn se) = (se_conn se)\<lparr>conn_state := PW_STATE_HANDSHAKING\<rparr>"
    using assms(1) by (simp_all add: goto_state_eq lifecycle.simps)
  have st: "sh_status ?a = (if ch_version h = 1 then 0 else 1002)" by (simp add: thread_answer_def hello_answer_def)
  have same: "?a\<lparr>sh_status := sh_status ?a\<rparr> = ?a" by simp
  note parse = server_parses_hello [OF ok assms(4), unfolded d(1)] and hello = thread_hello_for_received [OF assms(2)]
  show ?thesis
  proof (cases "ch_version h = 1")
    case True
    with st same have "?a\<lparr>sh_status := 0\<rparr> = ?a" by simp
    with True assms(1) parse hello d(2) v ser q c show ?thesis
      by (simp add: thread_step_def thread_handshaking_def Let_def)
  next
    case False
    with st same have "?a\<lparr>sh_status := 1002\<rparr> = ?a" by simp
    with False assms(1) parse hello d(2) v ser q c show ?thesis
      by (simp add: thread_step_def thread_handshaking_def Let_def)
  qed
qed

lemma integration_token_ok: "0 \<notin> set integration_token" "length integration_token < 2 ^ 32" "length integration_token = 10"
  by (simp_all add: integration_token_def)

lemma thread_auth_step:
  assumes "state_of se = PW_STATE_AUTHENTICATING" and "writable (se_tr se) 15"
    and "unread (se_tr se) = frame_header_bytes f @ pl @ rest" and "is_message f pl"
    and "fr_opcode f = opcode_byte PW_OPCODE_AUTH" and "grants integration_token pl"
  shows "thread_step ev se = Some (True, \<lparr>se_conn = (se_conn se)\<lparr>conn_state := PW_STATE_READY\<rparr>,
    se_tr = queue_out (frame_header_bytes (bare_frame PW_OPCODE_AUTH_OK))
      (transport_consume (se_tr se) (length (frame_header_bytes f) + length pl))\<rparr>)"
proof -
  let ?tr = "se_tr se" and ?h = "frame_header_bytes f" and ?k = "tr_read_len (se_tr se)"
  let ?f = "frame_received f (pe_frame ev ?k)"
  from assms(2) have ok: "transport_ok ?tr" by (simp add: writable_def)
  note pay = payload_at [OF ok assms(3)]
  have m: "unat (fr_length f) = length pl" using assms(4) by (simp add: is_message_def)
  from parse_then_validate [OF pay(2) integration_token_ok(1,2), of "pe_request ev ?k" "[]"] pay(1) assms(6)
  obtain k r where "pw_auth_parse_request (tr_read_buffer ?tr) (tr_read_pos ?tr + length ?h) (length pl)
        (pe_request ev ?k) = Some (k, r)"
    "pw_auth_validate_bearer (Some r) (Some (integration_token @ [0])) = Some True" by fastforce
  moreover have "goto_state PW_STATE_READY (se_conn se) = (se_conn se)\<lparr>conn_state := PW_STATE_READY\<rparr>"
    using assms(1) by (simp add: goto_state_eq lifecycle.simps)
  ultimately have "thread_auth_frame (pe_request ev ?k) (length ?h) ?f se =
      Some \<lparr>se_conn = (se_conn se)\<lparr>conn_state := PW_STATE_READY\<rparr>,
            se_tr = queue_out (frame_header_bytes (bare_frame PW_OPCODE_AUTH_OK)) ?tr\<rparr>"
    using assms(2,5) m by (simp add: thread_auth_frame_def send_frame_queue request_state_def)
  from frame_branch_message [OF ok assms(3,4), where act = "thread_auth_frame (pe_request ev ?k)", OF this] assms(1)
  show ?thesis by (simp add: thread_step_def Let_def consume_queue_out)
qed

text \<open>What a ready thread answers, with its next state.\<close>

definition thread_reply :: "pw_frame \<Rightarrow> byte list \<Rightarrow> byte list" where
  "thread_reply f pl =
     (if fr_opcode f = opcode_byte PW_OPCODE_DATA_TEXT then frame_header_bytes f @ pl
      else if fr_opcode f = opcode_byte PW_OPCODE_PING then frame_header_bytes (bare_frame PW_OPCODE_PONG)
      else if fr_opcode f = opcode_byte PW_OPCODE_CLOSE then frame_header_bytes (bare_frame PW_OPCODE_CLOSE)
      else [])"

lemma thread_ready_step:
  assumes "state_of se = PW_STATE_READY" and "writable (se_tr se) (length (thread_reply f pl))"
    and "unread (se_tr se) = frame_header_bytes f @ pl @ rest" and "is_message f pl"
  shows "thread_step ev se = Some (True,
    \<lparr>se_conn = (if fr_opcode f = opcode_byte PW_OPCODE_CLOSE then (se_conn se)\<lparr>conn_state := PW_STATE_CLOSING\<rparr> else se_conn se),
     se_tr = queue_out (thread_reply f pl) (transport_consume (se_tr se) (length (frame_header_bytes f) + length pl))\<rparr>)"
proof -
  let ?tr = "se_tr se" and ?h = "frame_header_bytes f"
  from assms(2) have ok: "transport_ok ?tr" by (simp add: writable_def)
  note pay = payload_at [OF ok assms(3)]
  have m: "unat (fr_length f) = length pl" using assms(4) by (simp add: is_message_def)
  let ?se1 = "\<lparr>se_conn = (if fr_opcode f = opcode_byte PW_OPCODE_CLOSE then (se_conn se)\<lparr>conn_state := PW_STATE_CLOSING\<rparr> else se_conn se),
     se_tr = queue_out (thread_reply f pl) ?tr\<rparr>"
  have "thread_ready_frame (length ?h) (frame_received f junk) se = Some ?se1" for junk
  proof (cases "fr_opcode f = opcode_byte PW_OPCODE_DATA_TEXT")
    case True
    with assms(2) have w: "writable ?tr (length ?h + length pl)" by (simp add: thread_reply_def)
    have "send_header (frame_received f junk) ?tr = Some (queue_out ?h ?tr)"
      using send_header_queue [of ?tr "frame_received f junk"] writable_mono [OF w, of "length ?h"] by simp
    moreover have "send_bytes (tr_read_buffer ?tr) (tr_read_pos ?tr + length ?h) (length pl) (queue_out ?h ?tr) =
        Some (queue_out (?h @ pl) ?tr)"
      using send_bytes_queue [OF queue_out_writable(1) [OF w] pay(2)] pay(1) queue_out_append [OF w] by simp
    ultimately show ?thesis
      using True m by (cases se) (simp add: thread_ready_frame_def thread_reply_def)
  next
    case False
    with assms(1,2) send_frame_fits [of se "bare_frame PW_OPCODE_PONG"] send_frame_fits [of se "bare_frame PW_OPCODE_CLOSE"]
    show ?thesis
      by (cases se) (auto simp: thread_ready_frame_def thread_reply_def goto_state_eq to_closing)
  qed
  from frame_branch_message [OF ok assms(3,4), where act = thread_ready_frame, OF this] assms(1)
  show ?thesis by (simp add: thread_step_def Let_def consume_queue_out)
qed

text \<open>On a stream of frames none of which is a CLOSE the thread is one more program with a pipeline.\<close>

definition thread_serves :: "pw_frame \<times> byte list \<Rightarrow> bool" where
  "thread_serves m \<longleftrightarrow> is_message (fst m) (snd m) \<and> fr_opcode (fst m) \<noteq> opcode_byte PW_OPCODE_CLOSE"

lemma length_thread_reply:
  assumes "thread_serves m"
  shows "length (thread_reply (fst m) (snd m)) \<le> length (msg_enc frame_header_bytes m)"
proof -
  have "length (frame_header_bytes (bare_frame PW_OPCODE_PONG)) = 7"
    by (simp add: frame_header_bytes_def bare_frame_def frame_init_def varint_bytes.simps [of 0])
  then have "length (frame_header_bytes (bare_frame PW_OPCODE_PONG)) \<le> length (frame_header_bytes (fst m))"
    using length_frame_header_bytes [of "fst m"] by simp
  with assms show ?thesis by (simp add: thread_reply_def thread_serves_def msg_enc_def)
qed

interpretation thread_stream: stream_program thread_step thread_read_loop thread_serves "\<lambda>m. thread_reply (fst m) (snd m)" thread_session
proof unfold_locales
  fix se se' :: session and ev :: poll_event
  assume "thread_step ev se = Some (True, se')" "tr_read_len (se_tr se') < tr_read_len (se_tr se)"
  then show "thread_read_loop ev se = thread_read_loop ev se'" by (simp add: thread_read_loop.simps [of ev se])
next
  fix se se' :: session and ev :: poll_event
  assume "thread_step ev se = Some (False, se')"
  then show "thread_read_loop ev se = Some (if tr_read_len (se_tr se) = 0 then se else se')"
    by (simp add: thread_read_loop.simps [of ev se])
next
  fix se :: session and f :: pw_frame and pl rest :: "byte list" and ev :: poll_event
  assume a: "state_of se = PW_STATE_READY" "writable (se_tr se) (length (thread_reply (fst (f, pl)) (snd (f, pl))))"
    "unread (se_tr se) = frame_header_bytes f @ pl @ rest" "thread_serves (f, pl)"
  then have "is_message f pl" "fr_opcode f \<noteq> opcode_byte PW_OPCODE_CLOSE" by (simp_all add: thread_serves_def)
  with thread_ready_step [of se f pl rest ev] a
  show "thread_step ev se = Some (True, se\<lparr>se_tr := queue_out (thread_reply (fst (f, pl)) (snd (f, pl)))
      (transport_consume (se_tr se) (length (frame_header_bytes f) + length pl))\<rparr>)" by simp
next
  fix se :: session and f :: pw_frame and pl :: "byte list" and k :: nat and ev :: poll_event
  assume "state_of se = PW_STATE_READY" and "transport_ok (se_tr se)" and "unread (se_tr se) = take k (frame_header_bytes f @ pl)"
    and "is_message f pl" and "k < length (frame_header_bytes f @ pl)"
  then show "thread_step ev se = Some (False, se)"
    using frame_branch_partial [of se k f pl] by (simp add: thread_step_def Let_def)
next
  fix se se' :: session and tr :: pw_transport and n :: nat and c :: "byte list" and ev :: poll_event
  assume a: "state_of se = PW_STATE_READY" "tr_write_len (se_tr se) = 0" "0 < n"
    "pw_transport_read (pe_recv (bring c ev)) (pe_errno ev) (Some (se_tr se)) = Some (int n, 0, Some tr)"
    "thread_read_loop (bring c ev) (se\<lparr>se_tr := tr\<rparr>) = Some se'"
  have "pe_result (bring c ev) = 1" "pe_in (bring c ev)" "pe_errno (bring c ev) = pe_errno ev"
    by (simp_all add: bring_def)
  with a show "thread_session [bring c ev] se = Some se'" by (simp add: thread_round_def)
next
  fix se :: session and ev :: poll_event
  assume "state_of se = PW_STATE_READY"
  then show "thread_session [flush ev] se = (if tr_write_len (se_tr se) = 0 then Some se else poll_write (flush ev) se)"
    by (cases "poll_write (flush ev) se") (simp_all add: thread_round_def flush_def)
qed (simp_all add: thread_serves_def length_thread_reply)

section \<open>The answers of the tests\<close>

lemma hello_branch_parsed:
  assumes "transport_ok (se_tr se)" and "server_hello_wf h" and "server_hello_wf junk"
    and "unread (se_tr se) = server_hello_bytes h @ rest"
  shows "hello_branch junk asserts act se =
    (case assertion_failed (asserts h) of
       Some msg \<Rightarrow> Some (Inl msg)
     | None \<Rightarrow> map_option (\<lambda>se. Inr (True, se)) (act (se\<lparr>se_tr := transport_consume (se_tr se) 42\<rparr>)))"
proof -
  let ?tr = "se_tr se"
  have "tr_read_pos ?tr + tr_read_len ?tr \<le> length (tr_read_buffer ?tr)"
    using transport_okD [OF assms(1)] by simp
  from parse_server_hello_dec [OF this assms(3)] assms(4)
  have "pw_handshake_parse_server_hello (tr_read_buffer ?tr) (tr_read_pos ?tr) (tr_read_len ?tr) junk = Some (42, h)"
    by (simp add: unread_def server_hello_dec_bytes [OF assms(2)])
  then show ?thesis
    by (cases "act (se\<lparr>se_tr := transport_consume ?tr 42\<rparr>)") (simp_all add: hello_branch_def Let_def split: option.split)
qed

definition integration_auth_message :: "byte list" where
  "integration_auth_message =
     frame_header_bytes (frame_init PW_VERSION_1 PW_FLAG_FIN PW_OPCODE_AUTH 0 15)
     @ auth_bytes (PW_AUTH_METHOD_BEARER, integration_token)"

lemma integration_auth_message_ok:
  "is_message (frame_init PW_VERSION_1 PW_FLAG_FIN PW_OPCODE_AUTH 0 15) (auth_bytes (PW_AUTH_METHOD_BEARER, integration_token))"
  "fr_opcode (frame_init PW_VERSION_1 PW_FLAG_FIN PW_OPCODE_AUTH 0 15) = opcode_byte PW_OPCODE_AUTH"
  "grants integration_token (auth_bytes (PW_AUTH_METHOD_BEARER, integration_token))"
  "integration_auth_message \<noteq> []" "length integration_auth_message \<le> 30"
  using length_frame_header_bytes [of "frame_init PW_VERSION_1 PW_FLAG_FIN PW_OPCODE_AUTH 0 15"]
  by (simp_all add: integration_auth_message_def is_message_def frame_init_def grants_def length_auth_bytes
      integration_token_ok(3))

lemma integration_auth_payload:
  "pw_auth_serialize_request \<lparr>ar_method = PW_AUTH_METHOD_BEARER, ar_token_len = of_nat (length integration_token),
      ar_token = Some (integration_token @ [0], 0)\<rparr> (replicate 128 0) 0 128 =
   Some (15, put_bytes (replicate 128 0) 0 (auth_bytes (PW_AUTH_METHOD_BEARER, integration_token)))"
proof -
  have "bytes_at (integration_token @ [0]) 0 10 = integration_token"
    using bytes_at_appended [of 0 "[]" 10 integration_token "[0]"] by (simp add: integration_token_ok(3))
  then show ?thesis
    by (subst serialize_request_bytes [where src = "integration_token @ [0]" and s = 0])
      (simp_all add: integration_token_ok(3) length_auth_bytes Let_def)
qed

lemma valid_hello_act_queue:
  assumes "state_of se = PW_STATE_HANDSHAKING" and "writable (se_tr se) 30"
  shows "valid_hello_act se = Some \<lparr>se_conn = (se_conn se)\<lparr>conn_state := PW_STATE_AUTHENTICATING\<rparr>,
    se_tr = queue_out integration_auth_message (se_tr se)\<rparr>"
proof -
  let ?tr = "se_tr se" and ?a = "auth_bytes (PW_AUTH_METHOD_BEARER, integration_token)"
  let ?h = "frame_header_bytes (frame_init PW_VERSION_1 PW_FLAG_FIN PW_OPCODE_AUTH 0 15)"
  let ?pl = "put_bytes (replicate 128 0) 0 ?a"
  have la: "length ?a = 15" by (simp add: length_auth_bytes integration_token_ok(3))
  have w: "writable ?tr (length ?h + 15)"
    using writable_mono [OF assms(2), of "length ?h + 15"] la integration_auth_message_ok(5)
    by (simp add: integration_auth_message_def)
  have h: "send_header (frame_init PW_VERSION_1 PW_FLAG_FIN PW_OPCODE_AUTH 0 15) ?tr = Some (queue_out ?h ?tr)"
    by (rule send_header_queue [OF writable_mono [OF w le_add1]])
  have "length ?pl = 128" "bytes_at ?pl 0 15 = ?a"
    using la bytes_at_put_bytes_same [of 0 ?a "replicate 128 0"] by (simp_all add: length_put_bytes)
  then have b: "send_bytes ?pl 0 15 (queue_out ?h ?tr) = Some (queue_out (?h @ ?a) ?tr)"
    using send_bytes_queue [OF queue_out_writable(1) [OF w], of 0 ?pl] queue_out_append [of ?tr ?h ?a] w la by simp
  have "goto_state PW_STATE_AUTHENTICATING (se_conn se) = (se_conn se)\<lparr>conn_state := PW_STATE_AUTHENTICATING\<rparr>"
    using assms(1) by (simp add: goto_state_eq lifecycle.simps)
  then show ?thesis
    using integration_auth_payload h b by (simp add: valid_hello_act_def integration_auth_message_def request_state_def)
qed

lemma valid_hello_step:
  assumes "state_of se = PW_STATE_HANDSHAKING" and "server_hello_wf h" and "sh_status h = 0" and "writable (se_tr se) 30"
    and "server_hello_wf (pe_server_hello ev (tr_read_len (se_tr se)))"
    and "unread (se_tr se) = server_hello_bytes h @ rest"
  shows "integration_step Valid_handshake ev se = Some (Inr (True,
    \<lparr>se_conn = (se_conn se)\<lparr>conn_state := PW_STATE_AUTHENTICATING\<rparr>,
     se_tr = queue_out integration_auth_message (transport_consume (se_tr se) 42)\<rparr>))"
proof -
  from assms(4) have ok: "transport_ok (se_tr se)" by (simp add: writable_def)
  have "42 \<le> tr_read_len (se_tr se)"
    using length_unread [OF ok] assms(6) length_server_hello_bytes [OF assms(2)] by simp
  then have "writable (transport_consume (se_tr se) 42) 30" using assms(4) writable_consume by blast
  then show ?thesis
    using hello_branch_parsed [OF ok assms(2,5,6)] assms(1,3)
      valid_hello_act_queue [of "se\<lparr>se_tr := transport_consume (se_tr se) 42\<rparr>"]
    by (simp add: integration_step_def Let_def)
qed

text \<open>The frames on which the valid test acts, with its answer and its next state.\<close>

definition integration_data_frame :: pw_frame where
  "integration_data_frame = frame_init PW_VERSION_1 PW_FLAG_FIN PW_OPCODE_DATA_TEXT 0 4"

definition valid_answer :: "pw_connection_state \<Rightarrow> pw_frame \<Rightarrow> byte list \<Rightarrow> (byte list \<times> pw_connection_state) option" where
  "valid_answer s f pl =
     (if s = PW_STATE_AUTHENTICATING \<and> fr_opcode f = opcode_byte PW_OPCODE_AUTH_OK
      then Some (frame_header_bytes integration_data_frame @ TEST, PW_STATE_READY)
      else if s = PW_STATE_READY \<and> fr_opcode f = opcode_byte PW_OPCODE_DATA_TEXT \<and> pl = TEST
      then Some (frame_header_bytes (bare_frame PW_OPCODE_PING), s)
      else if s = PW_STATE_READY \<and> fr_opcode f = opcode_byte PW_OPCODE_PONG
      then Some (frame_header_bytes (bare_frame PW_OPCODE_CLOSE), PW_STATE_CLOSING)
      else None)"

lemma asserted_frame_branch_message:
  assumes "transport_ok (se_tr se)" and "unread (se_tr se) = frame_header_bytes f @ pl @ rest" and "is_message f pl"
  shows "asserted_frame_branch junk act se =
    map_option (map_sum id (Pair True)) (act (length (frame_header_bytes f)) (frame_received f junk) se)"
  using parse_frame_message(1) [OF assms, of junk] by (simp add: asserted_frame_branch_def)

lemma consume_frame_message:
  assumes "transport_ok (se_tr se)" and "unread (se_tr se) = frame_header_bytes f @ pl @ rest" and "is_message f pl"
    and "tr_read_pos (se_tr se') = tr_read_pos (se_tr se)"
  shows "consume_frame (length (frame_header_bytes f)) (frame_received f junk) se' =
    se'\<lparr>se_tr := transport_consume (se_tr se') (length (frame_header_bytes f) + length pl)\<rparr>"
  using parse_frame_message(2) [OF assms(1-3)] by (simp add: consume_frame_def)

lemma valid_frame_step:
  assumes "valid_answer (state_of se) f pl = Some (out, s)" and "writable (se_tr se) 30"
    and "unread (se_tr se) = frame_header_bytes f @ pl @ rest" and "is_message f pl"
  shows "integration_step Valid_handshake ev se = Some (Inr (True,
    \<lparr>se_conn = (se_conn se)\<lparr>conn_state := s\<rparr>,
     se_tr = queue_out out (transport_consume (se_tr se) (length (frame_header_bytes f) + length pl))\<rparr>))"
proof -
  let ?tr = "se_tr se" and ?n = "length (frame_header_bytes f) + length pl"
  let ?junk = "pe_frame ev (tr_read_len ?tr)"
  from assms(2) have ok: "transport_ok ?tr" by (simp add: writable_def)
  note pay = payload_at [OF ok assms(3)] and branch = asserted_frame_branch_message [OF ok assms(3,4)]
  have consume: "consume_frame (length (frame_header_bytes f)) (frame_received f junk) se' =
      se'\<lparr>se_tr := transport_consume (se_tr se') ?n\<rparr>" for se' junk
    using parse_frame_message(2) [OF ok assms(3,4)] by (simp add: consume_frame_def)
  have w: "writable (transport_consume ?tr ?n) 30" using assms(2) pay(3) by (rule writable_consume)
  note send = send_frame_queue [OF writable_mono [OF assms(2), of 15]]
  from assms(1) consider
      (auth) "state_of se = PW_STATE_AUTHENTICATING" "fr_opcode f = opcode_byte PW_OPCODE_AUTH_OK"
        "out = frame_header_bytes integration_data_frame @ TEST" "s = PW_STATE_READY"
    | (dat) "state_of se = PW_STATE_READY" "fr_opcode f = opcode_byte PW_OPCODE_DATA_TEXT" "pl = TEST"
        "out = frame_header_bytes (bare_frame PW_OPCODE_PING)" "s = PW_STATE_READY"
    | (pong) "state_of se = PW_STATE_READY" "fr_opcode f = opcode_byte PW_OPCODE_PONG"
        "out = frame_header_bytes (bare_frame PW_OPCODE_CLOSE)" "s = PW_STATE_CLOSING"
    by (auto simp: valid_answer_def split: if_splits)
  then show ?thesis
  proof cases
    case auth
    let ?h = "frame_header_bytes integration_data_frame" and ?tr' = "transport_consume ?tr ?n"
    have w': "writable ?tr' (length ?h + length TEST)"
      using length_frame_header_bytes [of integration_data_frame] by (intro writable_mono [OF w]) (simp add: TEST_def)
    have h: "send_header (frame_init PW_VERSION_1 PW_FLAG_FIN PW_OPCODE_DATA_TEXT 0 4) ?tr' = Some (queue_out ?h ?tr')"
      using send_header_queue [OF writable_mono [OF w' le_add1]] by (simp add: integration_data_frame_def)
    have "bytes_at (TEST @ [0]) 0 4 = TEST" "length TEST = 4" by (simp_all add: TEST_def bytes_at_def)
    then have b: "send_bytes (TEST @ [0]) 0 4 (queue_out ?h ?tr') = Some (queue_out (?h @ TEST) ?tr')"
      using send_bytes_queue [OF queue_out_writable(1) [OF w'], of 0 "TEST @ [0]"] queue_out_append [OF w'] by simp
    have "goto_state PW_STATE_READY (se_conn se) = (se_conn se)\<lparr>conn_state := PW_STATE_READY\<rparr>"
      using auth(1) by (simp add: goto_state_eq lifecycle.simps)
    with auth branch h b consume show ?thesis
      by (simp add: integration_step_def Let_def valid_auth_frame_def request_state_def)
  next
    case dat
    have "length TEST = 4" "bytes_at (TEST @ [0]) 0 4 = TEST" by (simp_all add: TEST_def bytes_at_def)
    moreover have "unat (fr_length f) = 4" using assms(4) dat(3) by (simp add: is_message_def TEST_def)
    then have "fr_length f = 4" by (simp add: word_unat_eq_iff)
    moreover have "memcmp_eq (tr_read_buffer ?tr) (tr_read_pos ?tr + length (frame_header_bytes f)) (TEST @ [0]) 0 4 = Some True"
      using pay(1,2) dat(3) calculation(1,2) by (simp add: memcmp_eq_def)
    ultimately show ?thesis
      using dat branch send consume
      by (cases se) (simp add: integration_step_def Let_def valid_ready_frame_def consume_queue_out)
  next
    case pong
    with branch send consume show ?thesis
      by (simp add: integration_step_def Let_def valid_ready_frame_def consume_queue_out request_state_def goto_state_eq to_closing)
  qed
qed

section \<open>The turns\<close>

lemma thread_turn_hello:
  assumes "state_of se = PW_STATE_HANDSHAKING" and "idle (se_tr se)" and "hello_junk ev" and "client_hello_wf h"
  shows "\<exists>tr'. idle tr' \<and> turn thread_session ev (client_hello_bytes h) se =
    Some (server_hello_bytes (thread_answer h), \<lparr>se_conn = (se_conn se)\<lparr>conn_state :=
      if ch_version h = 1 \<and> \<not> sh_resume_accepted (thread_answer h) then PW_STATE_AUTHENTICATING else PW_STATE_HANDSHAKING\<rparr>,
      se_tr = tr'\<rparr>)"
proof -
  let ?c = "(se_conn se)\<lparr>conn_state :=
    if ch_version h = 1 \<and> \<not> sh_resume_accepted (thread_answer h) then PW_STATE_AUTHENTICATING else PW_STATE_HANDSHAKING\<rparr>"
  have l: "length (client_hello_bytes h) \<in> {24, 40}" "length (server_hello_bytes (thread_answer h)) = 42"
    using length_client_hello_bytes [OF assms(4)] length_server_hello_bytes [OF thread_answer_wf] by simp_all
  then have "client_hello_bytes h \<noteq> []" "server_hello_bytes (thread_answer h) \<noteq> []" by auto
  moreover have "thread_step (bring (client_hello_bytes h) ev) (se\<lparr>se_tr := tr\<rparr>) = Some (True,
      \<lparr>se_conn = ?c, se_tr = queue_out (server_hello_bytes (thread_answer h)) (transport_consume tr (length (client_hello_bytes h)))\<rparr>)"
    if "arrived (client_hello_bytes h) tr" for tr
    using thread_handshake_step [of "se\<lparr>se_tr := tr\<rparr>" h "bring (client_hello_bytes h) ev" "[]"] assms
      arrivedD [OF that] by (simp add: hello_junk_def)
  ultimately have "answers thread_step ev se (client_hello_bytes h) (server_hello_bytes (thread_answer h)) ?c"
    using l by (auto simp: answers_def)
  moreover have "closing_done ?c = ?c" by (simp add: closing_done_def)
  ultimately show ?thesis
    using thread.turn_answers [OF _ assms(2), of ev "client_hello_bytes h" "server_hello_bytes (thread_answer h)" ?c] assms(1)
    by (simp only: open_session_def) simp
qed

lemma thread_turn_auth:
  assumes "state_of se = PW_STATE_AUTHENTICATING" and "idle (se_tr se)"
  shows "\<exists>tr'. idle tr' \<and> turn thread_session ev integration_auth_message se =
    Some (frame_header_bytes (bare_frame PW_OPCODE_AUTH_OK), \<lparr>se_conn = (se_conn se)\<lparr>conn_state := PW_STATE_READY\<rparr>, se_tr = tr'\<rparr>)"
proof -
  note a = integration_auth_message_ok
  have "thread_step (bring integration_auth_message ev) (se\<lparr>se_tr := tr\<rparr>) = Some (True,
      \<lparr>se_conn = (se_conn se)\<lparr>conn_state := PW_STATE_READY\<rparr>,
       se_tr = queue_out (frame_header_bytes (bare_frame PW_OPCODE_AUTH_OK)) (transport_consume tr (length integration_auth_message))\<rparr>)"
    if "arrived integration_auth_message tr" for tr
    using thread_auth_step [OF _ _ _ a(1,2,3), of "se\<lparr>se_tr := tr\<rparr>" "[]" "bring integration_auth_message ev"] assms
      arrivedD [OF that] by (simp add: integration_auth_message_def)
  then have "answers thread_step ev se integration_auth_message (frame_header_bytes (bare_frame PW_OPCODE_AUTH_OK))
      ((se_conn se)\<lparr>conn_state := PW_STATE_READY\<rparr>)"
    using length_frame_header_bytes [of "bare_frame PW_OPCODE_AUTH_OK"] a(4,5) by (simp add: answers_def)
  from thread.turn_answers [OF _ assms(2) this] assms(1) show ?thesis
    by (simp add: open_session_def closing_done_def)
qed

lemma thread_turn_ready:
  assumes "state_of se = PW_STATE_READY" and "idle (se_tr se)" and "is_message f pl" and "length pl \<le> 128"
    and "thread_reply f pl \<noteq> []"
  shows "\<exists>tr'. idle tr' \<and> turn thread_session ev (frame_header_bytes f @ pl) se =
    Some (thread_reply f pl, \<lparr>se_conn = (if fr_opcode f = opcode_byte PW_OPCODE_CLOSE
      then (se_conn se)\<lparr>conn_state := PW_STATE_CLOSED\<rparr> else se_conn se), se_tr = tr'\<rparr>)"
proof -
  let ?bs = "frame_header_bytes f @ pl" and ?out = "thread_reply f pl"
  let ?c = "if fr_opcode f = opcode_byte PW_OPCODE_CLOSE then (se_conn se)\<lparr>conn_state := PW_STATE_CLOSING\<rparr> else se_conn se"
  have g: "length (frame_header_bytes g) \<le> 15" for g using length_frame_header_bytes [of g] by simp
  have l: "length ?bs \<le> 4096" "length ?out \<le> 4096"
    using assms(4) g [of f] le_trans [OF g, of 4096] by (simp_all add: thread_reply_def)
  have "thread_step (bring ?bs ev) (se\<lparr>se_tr := tr\<rparr>) = Some (True,
      \<lparr>se_conn = ?c, se_tr = queue_out ?out (transport_consume tr (length ?bs))\<rparr>)"
    if "arrived ?bs tr" for tr
    using thread_ready_step [of "se\<lparr>se_tr := tr\<rparr>" f pl "[]" "bring ?bs ev"] assms(1,3) l(2)
      arrivedD [OF that] by simp
  then have "answers thread_step ev se ?bs ?out ?c" using l assms(1,5) by (simp add: answers_def)
  from thread.turn_answers [OF _ assms(2) this] assms(1) show ?thesis
    by (auto simp: open_session_def closing_done_def)
qed

lemma valid_turn_hello:
  assumes "state_of se = PW_STATE_HANDSHAKING" and "idle (se_tr se)" and "hello_junk ev" and "server_hello_wf h"
    and "sh_status h = 0"
  shows "\<exists>tr'. idle tr' \<and> turn (passing_session Valid_handshake) ev (server_hello_bytes h) se =
    Some (integration_auth_message, \<lparr>se_conn = (se_conn se)\<lparr>conn_state := PW_STATE_AUTHENTICATING\<rparr>, se_tr = tr'\<rparr>)"
proof -
  let ?bs = "server_hello_bytes h"
  have l: "length ?bs = 42" using assms(4) by (rule length_server_hello_bytes)
  then have "?bs \<noteq> []" by auto
  moreover have "passing_step Valid_handshake (bring ?bs ev) (se\<lparr>se_tr := tr\<rparr>) = Some (True,
      \<lparr>se_conn = (se_conn se)\<lparr>conn_state := PW_STATE_AUTHENTICATING\<rparr>,
       se_tr = queue_out integration_auth_message (transport_consume tr (length ?bs))\<rparr>)"
    if "arrived ?bs tr" for tr
    using valid_hello_step [of "se\<lparr>se_tr := tr\<rparr>" h "bring ?bs ev" "[]"] assms l
      arrivedD [OF that] by (simp add: hello_junk_def passing_step_def)
  ultimately have "answers (passing_step Valid_handshake) ev se ?bs integration_auth_message
      ((se_conn se)\<lparr>conn_state := PW_STATE_AUTHENTICATING\<rparr>)"
    using l integration_auth_message_ok(4,5) by (simp add: answers_def)
  from tester.turn_answers [OF _ assms(2) this] assms(1) show ?thesis
    by (simp add: open_session_def closing_done_def)
qed

lemma valid_turn_frame:
  assumes "valid_answer (state_of se) f pl = Some (out, s)" and "idle (se_tr se)" and "is_message f pl" and "length pl \<le> 128"
  shows "\<exists>tr'. idle tr' \<and> turn (passing_session Valid_handshake) ev (frame_header_bytes f @ pl) se =
    Some (out, \<lparr>se_conn = closing_done ((se_conn se)\<lparr>conn_state := s\<rparr>), se_tr = tr'\<rparr>)"
proof -
  let ?bs = "frame_header_bytes f @ pl"
  have l: "length ?bs \<le> 4096" using assms(4) length_frame_header_bytes [of f] by simp
  have g: "length (frame_header_bytes g) \<le> 4092" "length (frame_header_bytes g) \<le> 4096" for g
    using length_frame_header_bytes [of g] by simp_all
  then have lo: "length out \<le> 4096" "out \<noteq> []" "s \<noteq> PW_STATE_CLOSED" "s \<noteq> PW_STATE_DISCONNECTED" "open_session se"
    using assms(1) by (auto simp: valid_answer_def TEST_def open_session_def split: if_splits)
  have "passing_step Valid_handshake (bring ?bs ev) (se\<lparr>se_tr := tr\<rparr>) = Some (True,
      \<lparr>se_conn = (se_conn se)\<lparr>conn_state := s\<rparr>, se_tr = queue_out out (transport_consume tr (length ?bs))\<rparr>)"
    if "arrived ?bs tr" for tr
    using valid_frame_step [of "se\<lparr>se_tr := tr\<rparr>" f pl out s "[]" "bring ?bs ev"] assms(1,3)
      arrivedD [OF that] by (simp add: passing_step_def)
  then have "answers (passing_step Valid_handshake) ev se ?bs out ((se_conn se)\<lparr>conn_state := s\<rparr>)"
    using l lo by (simp add: answers_def)
  from tester.turn_answers [OF lo(5) assms(2) this] show ?thesis by simp
qed

section \<open>The dialogue of the valid test\<close>

fun test_dialogue ::
  "nat \<Rightarrow> integration_test \<Rightarrow> poll_event \<Rightarrow> byte list \<Rightarrow> session \<Rightarrow> session \<Rightarrow>
   ((byte list \<times> byte list) list \<times> byte list \<times> session \<times> session) option" where
  "test_dialogue 0 test ev bs c s = Some ([], bs, c, s)"
| "test_dialogue (Suc n) test ev bs c s = do {
     (out, s) \<leftarrow> turn thread_session ev bs s;
     (bs', c) \<leftarrow> turn (passing_session test) ev out c;
     (log, r) \<leftarrow> test_dialogue n test ev bs' c s;
     Some ((bs, out) # log, r)
   }"

abbreviation bare_bytes :: "pw_opcode \<Rightarrow> byte list" where
  "bare_bytes opc \<equiv> frame_header_bytes (bare_frame opc)"

lemma bare_frame_simps [simp]:
  "is_message (bare_frame opc) []" "fr_opcode (bare_frame opc) = opcode_byte opc"
  by (simp_all add: is_message_def bare_frame_def frame_init_def)

lemma valid_dialogue:
  assumes "state_of c = PW_STATE_HANDSHAKING" and "idle (se_tr c)" and "state_of s = PW_STATE_HANDSHAKING"
    and "idle (se_tr s)" and "hello_junk ev"
  shows "\<exists>c' s'. test_dialogue 4 Valid_handshake ev (client_hello_bytes (integration_hello Valid_handshake)) c s = Some (
      [(client_hello_bytes (integration_hello Valid_handshake), server_hello_bytes (thread_answer (integration_hello Valid_handshake))),
       (integration_auth_message, bare_bytes PW_OPCODE_AUTH_OK),
       (frame_header_bytes integration_data_frame @ TEST, frame_header_bytes integration_data_frame @ TEST),
       (bare_bytes PW_OPCODE_PING, bare_bytes PW_OPCODE_PONG)],
      bare_bytes PW_OPCODE_CLOSE, c', s') \<and>
    state_of c' = PW_STATE_CLOSED \<and> state_of s' = PW_STATE_READY \<and> idle (se_tr s')"
proof -
  let ?h = "integration_hello Valid_handshake" and ?data = "frame_header_bytes integration_data_frame @ TEST"
  have st: "ch_version ?h = 1 \<and> \<not> sh_resume_accepted (thread_answer ?h)" "sh_status (thread_answer ?h) = 0"
    by (simp_all add: thread_answer_def hello_answer_def)
  have d: "is_message integration_data_frame TEST" "length TEST \<le> 128"
    "fr_opcode integration_data_frame = opcode_byte PW_OPCODE_DATA_TEXT"
    by (simp_all add: is_message_def integration_data_frame_def TEST_def frame_init_def)
  from thread_turn_hello [OF assms(3-5) integration_hello_wf, of Valid_handshake] st(1) obtain s1 where
    S1: "state_of s1 = PW_STATE_AUTHENTICATING" "idle (se_tr s1)"
      "turn thread_session ev (client_hello_bytes ?h) s = Some (server_hello_bytes (thread_answer ?h), s1)" by fastforce
  from valid_turn_hello [OF assms(1,2,5) thread_answer_wf st(2)] obtain c1 where
    C1: "state_of c1 = PW_STATE_AUTHENTICATING" "idle (se_tr c1)"
      "turn (passing_session Valid_handshake) ev (server_hello_bytes (thread_answer ?h)) c = Some (integration_auth_message, c1)"
    by fastforce
  from thread_turn_auth [OF S1(1,2), of ev] obtain s2 where
    S2: "state_of s2 = PW_STATE_READY" "idle (se_tr s2)"
      "turn thread_session ev integration_auth_message s1 = Some (bare_bytes PW_OPCODE_AUTH_OK, s2)" by fastforce
  have "valid_answer (state_of c1) (bare_frame PW_OPCODE_AUTH_OK) [] = Some (?data, PW_STATE_READY)"
    using C1(1) by (simp add: valid_answer_def)
  from valid_turn_frame [OF this C1(2), of ev] obtain c2 where
    C2: "state_of c2 = PW_STATE_READY" "idle (se_tr c2)"
      "turn (passing_session Valid_handshake) ev (bare_bytes PW_OPCODE_AUTH_OK) c1 = Some (?data, c2)"
    by (fastforce simp: closing_done_def)
  from thread_turn_ready [OF S2(1,2) d(1,2), of ev] d(3) S2(1) obtain s3 where
    S3: "state_of s3 = PW_STATE_READY" "idle (se_tr s3)" "turn thread_session ev ?data s2 = Some (?data, s3)"
    by (fastforce simp: thread_reply_def)
  have "valid_answer (state_of c2) integration_data_frame TEST = Some (bare_bytes PW_OPCODE_PING, PW_STATE_READY)"
    using C2(1) d(3) by (simp add: valid_answer_def)
  from valid_turn_frame [OF this C2(2) d(1,2), of ev] obtain c3 where
    C3: "state_of c3 = PW_STATE_READY" "idle (se_tr c3)"
      "turn (passing_session Valid_handshake) ev ?data c2 = Some (bare_bytes PW_OPCODE_PING, c3)"
    by (fastforce simp: closing_done_def)
  from thread_turn_ready [OF S3(1,2), of "bare_frame PW_OPCODE_PING" "[]" ev] S3(1) obtain s4 where
    S4: "state_of s4 = PW_STATE_READY" "idle (se_tr s4)"
      "turn thread_session ev (bare_bytes PW_OPCODE_PING) s3 = Some (bare_bytes PW_OPCODE_PONG, s4)"
    by (fastforce simp: thread_reply_def)
  have "valid_answer (state_of c3) (bare_frame PW_OPCODE_PONG) [] = Some (bare_bytes PW_OPCODE_CLOSE, PW_STATE_CLOSING)"
    using C3(1) by (simp add: valid_answer_def)
  from valid_turn_frame [OF this C3(2), of ev] obtain c4 where
    C4: "state_of c4 = PW_STATE_CLOSED"
      "turn (passing_session Valid_handshake) ev (bare_bytes PW_OPCODE_PONG) c3 = Some (bare_bytes PW_OPCODE_CLOSE, c4)"
    by (fastforce simp: closing_done_def)
  have "test_dialogue (Suc (Suc (Suc (Suc 0)))) Valid_handshake ev (client_hello_bytes ?h) c s = Some (
      [(client_hello_bytes ?h, server_hello_bytes (thread_answer ?h)),
       (integration_auth_message, bare_bytes PW_OPCODE_AUTH_OK), (?data, ?data),
       (bare_bytes PW_OPCODE_PING, bare_bytes PW_OPCODE_PONG)], bare_bytes PW_OPCODE_CLOSE, c4, s4)"
    by (simp only: test_dialogue.simps Option.bind.bind_lunit prod.case S1(3) C1(3) S2(3) C2(3) S3(3) C3(3) S4(3) C4(2))
  with S4(1,2) C4(1) show ?thesis by (auto simp: eval_nat_numeral)
qed

section \<open>The other tests\<close>

text \<open>What they send after the answer of the thread, which satisfies their assertions, and where they remain.\<close>

definition parting :: "integration_test \<Rightarrow> byte list" where
  "parting test = (if test = Invalid_version_handshake then [] else bare_bytes PW_OPCODE_CLOSE)"

definition stuck_conn :: "integration_test \<Rightarrow> pw_connection \<Rightarrow> pw_connection" where
  "stuck_conn test c =
     c\<lparr>conn_state := if test = Resume_fail_handshake then PW_STATE_AUTHENTICATING else PW_STATE_HANDSHAKING\<rparr>"

lemma stuck_conn_open: "open_session \<lparr>se_conn = stuck_conn test c, se_tr = tr\<rparr>" "closing_done (stuck_conn test c) = stuck_conn test c"
  by (simp_all add: stuck_conn_def open_session_def closing_done_def)

lemma goto_stuck:
  assumes "conn_state c = PW_STATE_HANDSHAKING"
  shows "goto_state PW_STATE_CLOSING c = c" "goto_state PW_STATE_READY c = c"
    "goto_state PW_STATE_CLOSING (goto_state PW_STATE_AUTHENTICATING c) = c\<lparr>conn_state := PW_STATE_AUTHENTICATING\<rparr>"
  using assms by (simp_all add: goto_state_eq lifecycle.simps)

lemma other_hello_step:
  assumes "test \<noteq> Valid_handshake" and "state_of se = PW_STATE_HANDSHAKING" and "writable (se_tr se) 15"
    and "server_hello_wf (pe_server_hello ev (tr_read_len (se_tr se)))"
    and "unread (se_tr se) = server_hello_bytes (thread_answer (integration_hello test)) @ rest"
  shows "integration_step test ev se = Some (Inr (True,
    \<lparr>se_conn = stuck_conn test (se_conn se), se_tr = queue_out (parting test) (transport_consume (se_tr se) 42)\<rparr>))"
proof -
  let ?se = "se\<lparr>se_tr := transport_consume (se_tr se) 42\<rparr>"
  from assms(3) have ok: "transport_ok (se_tr se)" by (simp add: writable_def)
  have "42 \<le> tr_read_len (se_tr se)"
    using length_unread [OF ok] assms(5) length_server_hello_bytes [OF thread_answer_wf] by simp
  then have w: "writable (se_tr ?se) 15" using assms(3) writable_consume by simp
  note branch = hello_branch_parsed [OF ok thread_answer_wf assms(4,5)] and g = goto_stuck [OF assms(2)]
  have same: "(se_conn se)\<lparr>conn_state := PW_STATE_HANDSHAKING\<rparr> = se_conn se" using assms(2) [symmetric] by simp
  show ?thesis
  proof (cases test)
    case Valid_handshake
    with assms(1) show ?thesis by simp
  next
    case Invalid_version_handshake
    with branch g same assms(2) show ?thesis
      by (cases se) (simp add: integration_step_def Let_def parting_def stuck_conn_def request_state_def
          thread_answer_def hello_answer_def)
  next
    case Resume_success_handshake
    with branch g same assms(2) send_frame_queue [of "?se"] w show ?thesis
      by (cases se) (simp add: integration_step_def Let_def parting_def stuck_conn_def request_state_def
          resume_success_act_def send_frame_queue thread_answer_def hello_answer_def)
  next
    case Resume_fail_handshake
    with branch g assms(2) w show ?thesis
      by (cases se) (simp add: integration_step_def Let_def parting_def stuck_conn_def request_state_def
          resume_fail_act_def send_frame_queue thread_answer_def hello_answer_def)
  qed
qed

lemma other_turn_hello:
  assumes "test \<noteq> Valid_handshake" and "state_of se = PW_STATE_HANDSHAKING" and "idle (se_tr se)" and "hello_junk ev"
  shows "\<exists>tr'. idle tr' \<and> turn (passing_session test) ev (server_hello_bytes (thread_answer (integration_hello test))) se =
    Some (parting test, \<lparr>se_conn = stuck_conn test (se_conn se), se_tr = tr'\<rparr>)"
proof -
  let ?bs = "server_hello_bytes (thread_answer (integration_hello test))"
  have l: "length ?bs = 42" by (rule length_server_hello_bytes [OF thread_answer_wf])
  then have ne: "?bs \<noteq> []" by auto
  have open': "open_session se" using assms(2) by (simp add: open_session_def)
  have step: "passing_step test (bring ?bs ev) (se\<lparr>se_tr := tr\<rparr>) = Some (True,
      \<lparr>se_conn = stuck_conn test (se_conn se), se_tr = queue_out (parting test) (transport_consume tr (length ?bs))\<rparr>)"
    if "arrived ?bs tr" for tr
    using other_hello_step [OF assms(1), of "se\<lparr>se_tr := tr\<rparr>" "bring ?bs ev" "[]"] assms(2,4) l
      arrivedD [OF that] by (simp add: hello_junk_def passing_step_def)
  show ?thesis
  proof (cases "test = Invalid_version_handshake")
    case True
    then have p: "parting test = []" by (simp add: parting_def)
    from tester.run_bring [OF open' assms(3) ne, of test ev] l obtain tr where tr: "arrived ?bs tr"
      and runs: "\<And>se'. passing_step test (bring ?bs ev) (se\<lparr>se_tr := tr\<rparr>) = Some (True, se') \<Longrightarrow>
        tr_read_len (se_tr se') = 0 \<Longrightarrow> passing_session test [bring ?bs ev] se = Some se'" by auto
    let ?tr = "transport_consume tr (length ?bs)"
    let ?se1 = "\<lparr>se_conn = stuck_conn test (se_conn se), se_tr = ?tr\<rparr>"
    from tr have ok: "transport_ok tr" "tr_write_pos tr = 0" "0 \<le> tr_fd tr" "unsent tr = []"
      by (simp_all add: arrived_def writable_def)
    note c = consume_ok [OF ok(1), of "length ?bs"]
    have wl: "tr_write_len tr = 0" using length_unsent [OF ok(1)] ok(4) by simp
    then have idle: "idle ?tr" using c ok arrived_read_len [OF tr] by (simp add: idle_def)
    have "passing_session test [bring ?bs ev] se = Some ?se1"
      using runs [OF step [OF tr]] p idle by (simp add: idle_def)
    moreover have "passing_session test [flush ev] ?se1 = Some ?se1"
      by (rule integration_single)
        (use idle stuck_conn_open(1) [of test "se_conn se" ?tr] in
          \<open>simp_all add: open_session_def idle_def integration_round_def flush_def\<close>)
    moreover have "unsent ?tr = []" using c(5) ok(4) arrived_read_len [OF tr] by simp
    ultimately show ?thesis using idle p by (intro exI [of _ ?tr]) (simp add: turn_def)
  next
    case False
    then have "parting test \<noteq> []" "length (parting test) \<le> 4096"
      using length_frame_header_bytes [of "bare_frame PW_OPCODE_CLOSE"] by (simp_all add: parting_def)
    with l ne step have "answers (passing_step test) ev se ?bs (parting test) (stuck_conn test (se_conn se))"
      using stuck_conn_open(1) [of test "se_conn se"] by (simp add: answers_def open_session_def)
    from tester.turn_answers [OF open' assms(3) this] stuck_conn_open(2) [of test "se_conn se"] show ?thesis by simp
  qed
qed

text \<open>A round in which nothing comes. Neither side has anything to answer then.\<close>

definition nothing_comes :: "poll_event \<Rightarrow> bool" where
  "nothing_comes ev \<longleftrightarrow> (\<forall>fd n. pe_recv ev fd n = RecvFailed EAGAIN) \<and> hello_junk ev"

lemma read_nothing:
  assumes "nothing_comes ev" and "transport_ok tr" and "0 \<le> tr_fd tr" and "tr_read_len tr < 4096" and "tr_write_len tr = 0"
  obtains tr' where "pw_transport_read (pe_recv ev) errno (Some tr) = Some (- EAGAIN, EAGAIN, Some tr')"
    and "transport_ok tr'" and "0 \<le> tr_fd tr'" and "unread tr' = unread tr" and "tr_read_len tr' = tr_read_len tr"
    and "tr_write_len tr' = 0"
proof -
  have r: "pe_recv ev fd n = RecvFailed EAGAIN" for fd n using assms(1) by (simp add: nothing_comes_def)
  then have "recv_fits (pe_recv ev) tr" by (simp add: recv_fits_def)
  from assms(2,3) this show thesis
  proof (cases rule: read_cases [of tr "pe_recv ev" errno])
    case (failed e tr')
    have "tr_read_len tr' = tr_read_len tr"
      using length_unread [OF failed(4)] length_unread [OF assms(2)] failed(5) by simp
    with failed r assms(3,5) that show thesis by simp
  qed (use r assms(4) in simp_all)
qed

lemma write_nothing:
  assumes "0 \<le> tr_fd tr" and "tr_write_len tr = 0"
  shows "pw_transport_write send errno (Some tr) = Some (0, errno, Some tr)"
  using assms by (simp add: pw_transport_write_def)

text \<open>A test function that is stuck with nothing to read or send stays so as long as nothing comes.\<close>

definition idles :: "integration_test \<Rightarrow> session \<Rightarrow> bool" where
  "idles test se \<longleftrightarrow> stuck test (state_of se) \<and> transport_ok (se_tr se) \<and> 0 \<le> tr_fd (se_tr se) \<and>
     tr_read_len (se_tr se) = 0 \<and> tr_write_len (se_tr se) = 0"

lemma idles_round:
  assumes "idles test se" and "nothing_comes ev"
  shows "\<exists>tr. integration_round test ev se = Some (Inr (True, se\<lparr>se_tr := tr\<rparr>)) \<and> idles test (se\<lparr>se_tr := tr\<rparr>)"
proof -
  from assms(1) have i: "stuck test (state_of se)" "transport_ok (se_tr se)" "0 \<le> tr_fd (se_tr se)"
    "tr_read_len (se_tr se) = 0" "tr_write_len (se_tr se) = 0" by (simp_all add: idles_def)
  from i(1) have "state_of se \<noteq> PW_STATE_CLOSING" by (auto simp: stuck_def)
  then have w: "poll_write ev se = Some se" by (simp add: poll_write_def Let_def write_nothing [OF i(3,5)])
  have "tr_read_len (se_tr se) < 4096" using i(4) by simp
  from read_nothing [OF assms(2) i(2,3) this i(5), of "pe_errno ev"] obtain tr where
    rd: "pw_transport_read (pe_recv ev) (pe_errno ev) (Some (se_tr se)) = Some (- EAGAIN, EAGAIN, Some tr)"
    and tr: "transport_ok tr" "0 \<le> tr_fd tr" "tr_read_len tr = 0" "tr_write_len tr = 0" using i(4) by auto
  then have loop: "integration_read_loop test ev (se\<lparr>se_tr := tr\<rparr>) = Some (Inr (se\<lparr>se_tr := tr\<rparr>))"
    by (simp add: integration_read_loop.simps)
  show ?thesis
  proof (cases "pe_in ev")
    case True
    with w rd loop i(1) tr show ?thesis by (intro exI [of _ tr]) (simp add: integration_round_def idles_def)
  next
    case False
    with w i show ?thesis by (intro exI [of _ "se_tr se"]) (simp add: integration_round_def idles_def)
  qed
qed

lemma idles_session:
  "idles test se \<Longrightarrow> \<forall>ev \<in> set evs. nothing_comes ev \<Longrightarrow>
    \<exists>tr. integration_session test evs se = Some (Inr (False, se\<lparr>se_tr := tr\<rparr>)) \<and> idles test (se\<lparr>se_tr := tr\<rparr>)"
proof (induction evs arbitrary: se)
  case Nil
  then show ?case
    by (intro exI [of _ "se_tr se"]) (auto simp: integration_session.simps [of test "[]"] idles_def stuck_def)
next
  case (Cons ev evs)
  from Cons.prems(1) have "state_of se \<noteq> PW_STATE_CLOSED" by (auto simp: idles_def stuck_def)
  moreover from idles_round [OF Cons.prems(1), of ev] Cons.prems(2) obtain tr where
    "integration_round test ev se = Some (Inr (True, se\<lparr>se_tr := tr\<rparr>))" "idles test (se\<lparr>se_tr := tr\<rparr>)" by auto
  ultimately show ?case
    using Cons.IH [of "se\<lparr>se_tr := tr\<rparr>"] Cons.prems(2) by (simp add: integration_session.simps [of test "ev # evs"])
qed

text \<open>So does the thread, with nothing to read or with the beginning of a hello.\<close>

definition thread_idles :: "session \<Rightarrow> bool" where
  "thread_idles se \<longleftrightarrow> transport_ok (se_tr se) \<and> 0 \<le> tr_fd (se_tr se) \<and> tr_write_len (se_tr se) = 0 \<and>
     (state_of se = PW_STATE_HANDSHAKING \<and> tr_read_len (se_tr se) < 24 \<or>
      state_of se = PW_STATE_AUTHENTICATING \<and> tr_read_len (se_tr se) = 0)"

lemma thread_waits_hello:
  assumes "state_of se = PW_STATE_HANDSHAKING" and "transport_ok (se_tr se)" and "tr_read_len (se_tr se) < 24" and "hello_junk ev"
  shows "thread_read_loop ev se = Some se"
proof -
  let ?tr = "se_tr se"
  have "fst (client_hello_dec (unread ?tr) junk) = 0" for junk
    using assms(3) length_unread [OF assms(2)] by (simp add: client_hello_dec_def)
  then obtain g where "client_hello_dec (unread ?tr) (pe_client_hello ev (tr_read_len ?tr)) = (0, g)"
    by (metis prod.collapse)
  with server_parses_hello [OF assms(2)] assms(4)
  have "pw_handshake_parse_client_hello (tr_read_buffer ?tr) (tr_read_pos ?tr) (tr_read_len ?tr)
      (pe_client_hello ev (tr_read_len ?tr)) = Some (0, g)" by (simp add: hello_junk_def)
  with assms(1) have "thread_step ev se = Some (False, se)"
    by (simp add: thread_step_def thread_handshaking_def Let_def)
  then show ?thesis by (simp add: thread_read_loop.simps)
qed

lemma thread_idles_round:
  assumes "thread_idles se" and "nothing_comes ev"
  shows "\<exists>tr. thread_round ev se = Some (True, se\<lparr>se_tr := tr\<rparr>) \<and> thread_idles (se\<lparr>se_tr := tr\<rparr>)"
proof -
  from assms(1) have i: "transport_ok (se_tr se)" "0 \<le> tr_fd (se_tr se)" "tr_write_len (se_tr se) = 0"
    and small: "tr_read_len (se_tr se) < 4096" by (auto simp: thread_idles_def)
  from read_nothing [OF assms(2) i(1,2) small i(3), of "pe_errno ev"] obtain tr where
    rd: "pw_transport_read (pe_recv ev) (pe_errno ev) (Some (se_tr se)) = Some (- EAGAIN, EAGAIN, Some tr)"
    and tr: "transport_ok tr" "0 \<le> tr_fd tr" "tr_read_len tr = tr_read_len (se_tr se)" "tr_write_len tr = 0" by auto
  then have idles: "thread_idles (se\<lparr>se_tr := tr\<rparr>)" using assms(1) by (auto simp: thread_idles_def)
  have loop: "thread_read_loop ev (se\<lparr>se_tr := tr\<rparr>) = Some (se\<lparr>se_tr := tr\<rparr>)"
  proof (cases "tr_read_len tr = 0")
    case False
    with assms(1) tr have "state_of se = PW_STATE_HANDSHAKING" "tr_read_len tr < 24" by (auto simp: thread_idles_def)
    with thread_waits_hello [of "se\<lparr>se_tr := tr\<rparr>" ev] assms(2) tr show ?thesis by (simp add: nothing_comes_def)
  qed (simp add: thread_read_loop.simps)
  show ?thesis
  proof (cases "pe_in ev \<and> 0 < pe_result ev")
    case True
    with rd loop idles i show ?thesis by (intro exI [of _ tr]) (simp add: thread_round_def)
  next
    case False
    with i assms(1) show ?thesis by (intro exI [of _ "se_tr se"]) (auto simp: thread_round_def)
  qed
qed

lemma thread_idles_session:
  "thread_idles se \<Longrightarrow> \<forall>ev \<in> set evs. nothing_comes ev \<Longrightarrow>
    \<exists>tr. (\<forall>evs'. thread_session (evs @ evs') se = thread_session evs' (se\<lparr>se_tr := tr\<rparr>)) \<and> thread_idles (se\<lparr>se_tr := tr\<rparr>)"
proof (induction evs arbitrary: se)
  case Nil
  then show ?case by (intro exI [of _ "se_tr se"]) simp
next
  case (Cons ev evs)
  from thread_idles_round [OF Cons.prems(1), of ev] Cons.prems(2) obtain tr where
    r: "thread_round ev se = Some (True, se\<lparr>se_tr := tr\<rparr>)" "thread_idles (se\<lparr>se_tr := tr\<rparr>)" by auto
  from Cons.IH [OF r(2)] Cons.prems(2) obtain tr' where
    "\<forall>evs'. thread_session (evs @ evs') (se\<lparr>se_tr := tr\<rparr>) = thread_session evs' (se\<lparr>se_tr := tr'\<rparr>)"
    "thread_idles (se\<lparr>se_tr := tr'\<rparr>)" by auto
  with r(1) Cons.prems(1) show ?case by (intro exI [of _ tr']) (auto simp: thread_idles_def)
qed

text \<open>The thread does nothing with the CLOSE of a session that it has not made READY: before the authentication it
  drops the frame, and in HANDSHAKING it takes it for the beginning of a hello.\<close>

lemma thread_ignores_close:
  assumes "state_of se = PW_STATE_HANDSHAKING \<or> state_of se = PW_STATE_AUTHENTICATING" and "idle (se_tr se)" and "hello_junk ev"
  shows "\<exists>tr'. thread_session [bring (bare_bytes PW_OPCODE_CLOSE) ev] se = Some (se\<lparr>se_tr := tr'\<rparr>) \<and> thread_idles (se\<lparr>se_tr := tr'\<rparr>)"
proof -
  let ?f = "bare_frame PW_OPCODE_CLOSE" and ?bs = "bare_bytes PW_OPCODE_CLOSE"
  have l: "length ?bs \<le> 15" "length ?bs \<le> 4096" using length_frame_header_bytes [of ?f] by simp_all
  have "open_session se" using assms(1) by (auto simp: open_session_def)
  from thread_run_bring [OF this assms(2) _ l(2), of ev] obtain tr where tr: "arrived ?bs tr"
    and run: "thread_session [bring ?bs ev] se = thread_read_loop (bring ?bs ev) (se\<lparr>se_tr := tr\<rparr>)" by auto
  from tr have ok: "transport_ok tr" and u: "unread tr = ?bs @ [] @ []" and len: "tr_read_len tr = length ?bs"
    and wl: "tr_write_len tr = 0" and fd: "0 \<le> tr_fd tr"
    using length_unsent [of tr] arrived_read_len [OF tr] by (auto simp: arrived_def writable_def)
  show ?thesis
  proof (cases "state_of se = PW_STATE_HANDSHAKING")
    case True
    with thread_waits_hello [of "se\<lparr>se_tr := tr\<rparr>" "bring ?bs ev"] ok len l(1) assms(3)
    have "thread_read_loop (bring ?bs ev) (se\<lparr>se_tr := tr\<rparr>) = Some (se\<lparr>se_tr := tr\<rparr>)" by (simp add: hello_junk_def)
    with run wl True ok fd len l(1) show ?thesis by (auto simp: thread_idles_def)
  next
    case False
    with assms(1) have st: "state_of se = PW_STATE_AUTHENTICATING" by simp
    let ?tr' = "transport_consume tr (length ?bs)"
    have "thread_auth_frame req n (frame_received ?f junk) (se\<lparr>se_tr := tr\<rparr>) = Some (se\<lparr>se_tr := tr\<rparr>)" for req n junk
      by (simp add: thread_auth_frame_def)
    from frame_branch_message [of "se\<lparr>se_tr := tr\<rparr>" ?f "[]" "[]"
        "thread_auth_frame (pe_request (bring ?bs ev) (tr_read_len tr))", OF _ _ _ this] ok u st
    have "thread_step (bring ?bs ev) (se\<lparr>se_tr := tr\<rparr>) = Some (True, se\<lparr>se_tr := ?tr'\<rparr>)"
      by (simp add: thread_step_def Let_def)
    moreover have "tr_read_len ?tr' = 0" "thread_idles (se\<lparr>se_tr := ?tr'\<rparr>)"
      using consume_ok [OF ok, of "length ?bs"] len wl fd st by (simp_all add: thread_idles_def)
    ultimately show ?thesis
      using run len by (intro exI [of _ ?tr'])
        (simp add: thread_read_loop.simps [of _ "se\<lparr>se_tr := tr\<rparr>"] thread_read_loop.simps [of _ "se\<lparr>se_tr := ?tr'\<rparr>"])
  qed
qed

lemma integration_flush_hello:
  assumes "integration_start test fcntl jt jc sock w = Some c0" and "state_of c0 = PW_STATE_HANDSHAKING"
    and "transport_ok (se_tr c0)" and "0 \<le> tr_fd (se_tr c0)" and "tr_read_len (se_tr c0) = 0"
    and "unsent (se_tr c0) = client_hello_bytes (integration_hello test)"
  shows "\<exists>t. passing_session test [flush ev] c0 = Some \<lparr>se_conn = se_conn c0, se_tr = t\<rparr> \<and> idle t"
proof -
  have "length (unsent (se_tr c0)) \<noteq> 0" unfolding assms(6) using length_integration_hello [of test] by auto
  then have l: "0 < tr_write_len (se_tr c0)" using assms(3) by simp
  have "open_session c0" using assms(2) by (simp add: open_session_def)
  from tester.run_flush [OF this l, of test ev] poll_write_flush [OF assms(3,4) l assms(5), of ev] assms(2)
  show ?thesis by (auto simp: closing_done_def)
qed

section \<open>Properties\<close>

text \<open>C29: With a session of the thread that is in HANDSHAKING, the state that the thread asks for, the valid test does what
  it means to do: hello and answer, "test_token" and AUTH_OK, "TEST" and its echo, PING and PONG go over the
  wire byte for byte as listed, the assertions on them hold, the test ends CLOSED and the thread answers its
  CLOSE. The last assertion, on that answer, is not reached: the test has left its loop by then.\<close>

theorem valid_test_completes:
  assumes "length (tr_read_buffer jt) = 4096" and "length (tr_write_buffer jt) = 4096" and "0 \<le> sock"
    and "state_of s = PW_STATE_HANDSHAKING" and "idle (se_tr s)" and "hello_junk ev"
  shows "\<exists>c0 c1 c2 s1 s2. integration_start Valid_handshake fcntl jt jc sock w = Some c0 \<and>
    passing_session Valid_handshake [flush ev] c0 = Some c1 \<and>
    test_dialogue 4 Valid_handshake ev (unsent (se_tr c0)) c1 s = Some (
      [(client_hello_bytes (integration_hello Valid_handshake), server_hello_bytes (thread_answer (integration_hello Valid_handshake))),
       (integration_auth_message, bare_bytes PW_OPCODE_AUTH_OK),
       (frame_header_bytes integration_data_frame @ TEST, frame_header_bytes integration_data_frame @ TEST),
       (bare_bytes PW_OPCODE_PING, bare_bytes PW_OPCODE_PONG)],
      bare_bytes PW_OPCODE_CLOSE, c2, s1) \<and>
    state_of c2 = PW_STATE_CLOSED \<and>
    turn thread_session ev (bare_bytes PW_OPCODE_CLOSE) s1 = Some (bare_bytes PW_OPCODE_CLOSE, s2) \<and>
    state_of s2 = PW_STATE_CLOSED"
proof -
  from integration_start_ok [OF assms(1-3), of Valid_handshake fcntl jc w] obtain c0 where
    c0: "integration_start Valid_handshake fcntl jt jc sock w = Some c0" "state_of c0 = PW_STATE_HANDSHAKING"
      "transport_ok (se_tr c0)" "0 \<le> tr_fd (se_tr c0)" "tr_read_len (se_tr c0) = 0"
      "unsent (se_tr c0) = client_hello_bytes (integration_hello Valid_handshake)" by blast
  from integration_flush_hello [OF c0, of ev] obtain t where
    c1: "passing_session Valid_handshake [flush ev] c0 = Some \<lparr>se_conn = se_conn c0, se_tr = t\<rparr>" "idle t" by blast
  from valid_dialogue [of "\<lparr>se_conn = se_conn c0, se_tr = t\<rparr>" s ev] c0(2) c1(2) assms(4-6) obtain c2 s1 where
    d: "test_dialogue 4 Valid_handshake ev (unsent (se_tr c0)) \<lparr>se_conn = se_conn c0, se_tr = t\<rparr> s = Some (
      [(client_hello_bytes (integration_hello Valid_handshake), server_hello_bytes (thread_answer (integration_hello Valid_handshake))),
       (integration_auth_message, bare_bytes PW_OPCODE_AUTH_OK),
       (frame_header_bytes integration_data_frame @ TEST, frame_header_bytes integration_data_frame @ TEST),
       (bare_bytes PW_OPCODE_PING, bare_bytes PW_OPCODE_PONG)],
      bare_bytes PW_OPCODE_CLOSE, c2, s1)"
    and st: "state_of c2 = PW_STATE_CLOSED" "state_of s1 = PW_STATE_READY" "idle (se_tr s1)"
    unfolding c0(6) by auto
  from thread_turn_ready [OF st(2,3), of "bare_frame PW_OPCODE_CLOSE" "[]" ev] obtain t2 where
    "turn thread_session ev (bare_bytes PW_OPCODE_CLOSE) s1 =
      Some (bare_bytes PW_OPCODE_CLOSE, \<lparr>se_conn = (se_conn s1)\<lparr>conn_state := PW_STATE_CLOSED\<rparr>, se_tr = t2\<rparr>)"
    by (auto simp: thread_reply_def)
  with c0(1) c1(1) d st(1) show ?thesis by fastforce
qed

theorem valid_test_completes_witness:
  "let s = \<lparr>se_conn = \<lparr>conn_state = PW_STATE_HANDSHAKING\<rparr>, se_tr = transport_with []\<rparr>
   in \<exists>c0 c1 c2 s1 log. integration_start Valid_handshake (\<lambda>fd cmd w. (0, w)) (transport_with [7])
        \<lparr>conn_state = PW_STATE_CLOSED\<rparr> 5 () = Some c0 \<and>
      passing_session Valid_handshake [flush quiet_poll] c0 = Some c1 \<and>
      test_dialogue 4 Valid_handshake quiet_poll (unsent (se_tr c0)) c1 s = Some (log, bare_bytes PW_OPCODE_CLOSE, c2, s1) \<and>
      length log = 4 \<and> state_of c2 = PW_STATE_CLOSED"
proof -
  define s where "s = \<lparr>se_conn = \<lparr>conn_state = PW_STATE_HANDSHAKING\<rparr>, se_tr = transport_with []\<rparr>"
  have "length (tr_read_buffer (transport_with [7])) = 4096" "length (tr_write_buffer (transport_with [7])) = 4096"
    by (simp_all add: transport_with_def)
  moreover have "state_of s = PW_STATE_HANDSHAKING" "idle (se_tr s)" "hello_junk quiet_poll"
    by (simp_all add: s_def idle_def hello_junk_def quiet_poll_def)
  ultimately show ?thesis
    using valid_test_completes [of "transport_with [7]" 5 s quiet_poll "\<lambda>fd cmd w. (0, w)"
        "\<lparr>conn_state = PW_STATE_CLOSED\<rparr>" "()"]
    unfolding s_def [symmetric] Let_def by force
qed

text \<open>C30: The other three tests hang with such a session. The answer to their hello satisfies their assertions, but the
  transitions they ask for then are refused: none reaches CLOSING. Test and thread come to a point where both are
  in HANDSHAKING or AUTHENTICATING, all that was sent has arrived and nothing is left to send. From there, over any
  further rounds of either in which nothing comes, whether or not \<open>poll\<close> reports something, neither leaves its loop,
  changes its state or queues anything, so nothing ever comes. Whatever rounds the test function has from there, with
  bytes that no session of the thread sends or with the end of the connection: if it leaves its loop, it is in the
  round whose own read fails, or finds nothing, with an \<open>errno\<close> that is not EAGAIN, never because of a state.\<close>

theorem other_tests_hang:
  assumes "test \<noteq> Valid_handshake"
    and "length (tr_read_buffer jt) = 4096" and "length (tr_write_buffer jt) = 4096" and "0 \<le> sock"
    and "state_of s = PW_STATE_HANDSHAKING" and "idle (se_tr s)" and "hello_junk ev"
  shows "\<exists>c0 c1 c2 s1 s2 answer. integration_start test fcntl jt jc sock w = Some c0 \<and>
    passing_session test [flush ev] c0 = Some c1 \<and>
    turn thread_session ev (unsent (se_tr c0)) s = Some (answer, s1) \<and>
    turn (passing_session test) ev answer c1 = Some (parting test, c2) \<and>
    (if parting test = [] then s2 = s1 else thread_session [bring (parting test) ev] s1 = Some s2) \<and>
    stuck test (state_of c2) \<and> idle (se_tr c2) \<and> state_of s2 = state_of c2 \<and> tr_write_len (se_tr s2) = 0 \<and>
    (\<forall>evs evs'. (\<forall>ev \<in> set evs \<union> set evs'. nothing_comes ev) \<longrightarrow> (\<exists>tc ts. tr_write_len tc = 0 \<and> tr_write_len ts = 0 \<and>
      integration_session test evs c2 = Some (Inr (False, c2\<lparr>se_tr := tc\<rparr>)) \<and>
      (\<forall>evs''. thread_session (evs' @ evs'') s2 = thread_session evs'' (s2\<lparr>se_tr := ts\<rparr>)))) \<and>
    (\<forall>evs c3. integration_session test evs c2 = Some (Inr (True, c3)) \<longrightarrow> (\<exists>evs1 ev evs2 c. evs = evs1 @ ev # evs2 \<and>
      integration_session test evs1 c2 = Some (Inr (False, c)) \<and> read_ends ev c))"
proof -
  let ?h = "integration_hello test"
  let ?st = "if test = Resume_fail_handshake then PW_STATE_AUTHENTICATING else PW_STATE_HANDSHAKING"
  from integration_start_ok [OF assms(2-4), of test fcntl jc w] obtain c0 where
    c0: "integration_start test fcntl jt jc sock w = Some c0" "state_of c0 = PW_STATE_HANDSHAKING"
      "transport_ok (se_tr c0)" "0 \<le> tr_fd (se_tr c0)" "tr_read_len (se_tr c0) = 0"
      "unsent (se_tr c0) = client_hello_bytes ?h" by blast
  from integration_flush_hello [OF c0, of ev] obtain t where
    c1: "passing_session test [flush ev] c0 = Some \<lparr>se_conn = se_conn c0, se_tr = t\<rparr>" "idle t" by blast
  have eq: "(if ch_version ?h = 1 \<and> \<not> sh_resume_accepted (thread_answer ?h) then PW_STATE_AUTHENTICATING else PW_STATE_HANDSHAKING) = ?st"
    using assms(1) by (cases test) (simp_all add: thread_answer_def)
  from thread_turn_hello [OF assms(5-7) integration_hello_wf, of test] obtain t1 where
    t1: "turn thread_session ev (client_hello_bytes ?h) s =
      Some (server_hello_bytes (thread_answer ?h), \<lparr>se_conn = (se_conn s)\<lparr>conn_state := ?st\<rparr>, se_tr = t1\<rparr>)" "idle t1"
    unfolding eq by blast
  define s1 where "s1 = \<lparr>se_conn = (se_conn s)\<lparr>conn_state := ?st\<rparr>, se_tr = t1\<rparr>"
  have s1: "turn thread_session ev (client_hello_bytes ?h) s = Some (server_hello_bytes (thread_answer ?h), s1)"
    unfolding s1_def by (rule t1(1))
  have s1_ok: "state_of s1 = ?st" "idle (se_tr s1)" using t1(2) by (simp_all add: s1_def)
  from other_turn_hello [OF assms(1), of "\<lparr>se_conn = se_conn c0, se_tr = t\<rparr>" ev] c0(2) c1(2) assms(7) obtain t2 where
    c2: "turn (passing_session test) ev (server_hello_bytes (thread_answer ?h)) \<lparr>se_conn = se_conn c0, se_tr = t\<rparr> =
      Some (parting test, \<lparr>se_conn = stuck_conn test (se_conn c0), se_tr = t2\<rparr>)" "idle t2" by auto
  let ?c2 = "\<lparr>se_conn = stuck_conn test (se_conn c0), se_tr = t2\<rparr>"
  have st: "state_of ?c2 = ?st" "stuck test (state_of ?c2)" using assms(1) by (simp_all add: stuck_conn_def stuck_def)
  have s1_open: "state_of s1 = PW_STATE_HANDSHAKING \<or> state_of s1 = PW_STATE_AUTHENTICATING" using s1_ok(1) by simp
  obtain s2 where s2: "if parting test = [] then s2 = s1 else thread_session [bring (parting test) ev] s1 = Some s2"
    "state_of s2 = ?st" "thread_idles s2"
  proof (cases "parting test = []")
    case True
    with that [of s1] s1_ok show thesis by (simp add: idle_def thread_idles_def)
  next
    case False
    then have "parting test = bare_bytes PW_OPCODE_CLOSE" by (simp add: parting_def split: if_splits)
    moreover from thread_ignores_close [OF s1_open s1_ok(2) assms(7)] obtain t3 where
      "thread_session [bring (bare_bytes PW_OPCODE_CLOSE) ev] s1 = Some (s1\<lparr>se_tr := t3\<rparr>)" "thread_idles (s1\<lparr>se_tr := t3\<rparr>)" by blast
    ultimately show thesis using that [of "s1\<lparr>se_tr := t3\<rparr>"] False s1_ok(1) by simp
  qed
  have c2_idles: "idles test ?c2" using st(2) c2(2) by (simp add: idles_def idle_def)
  have hang: "\<exists>tc ts. tr_write_len tc = 0 \<and> tr_write_len ts = 0 \<and>
      integration_session test evs ?c2 = Some (Inr (False, ?c2\<lparr>se_tr := tc\<rparr>)) \<and>
      (\<forall>evs''. thread_session (evs' @ evs'') s2 = thread_session evs'' (s2\<lparr>se_tr := ts\<rparr>))"
    if "\<forall>ev \<in> set evs \<union> set evs'. nothing_comes ev" for evs evs'
  proof -
    from idles_session [OF c2_idles, of evs] that obtain tc where
      "integration_session test evs ?c2 = Some (Inr (False, ?c2\<lparr>se_tr := tc\<rparr>))" "tr_write_len tc = 0"
      by (auto simp: idles_def)
    moreover from thread_idles_session [OF s2(3), of evs'] that obtain ts where
      "\<forall>evs''. thread_session (evs' @ evs'') s2 = thread_session evs'' (s2\<lparr>se_tr := ts\<rparr>)" "tr_write_len ts = 0"
      by (auto simp: thread_idles_def)
    ultimately show ?thesis by blast
  qed
  have s2_sent: "tr_write_len (se_tr s2) = 0" using s2(3) by (simp add: thread_idles_def)
  have idle: "idle (se_tr ?c2)" and same: "state_of s2 = state_of ?c2" using c2(2) s2(2) st(1) by simp_all
  show ?thesis
    by (intro exI conjI, rule c0(1), rule c1(1), (subst c0(6), rule s1), rule c2(1), rule s2(1), rule st(2),
        rule idle, rule same, rule s2_sent, (intro allI impI, erule hang),
        (intro allI impI, erule stuck_session [OF st(2)]))
qed

theorem other_tests_hang_witness:
  "let s = \<lparr>se_conn = \<lparr>conn_state = PW_STATE_HANDSHAKING\<rparr>, se_tr = transport_with []\<rparr>;
       ev = quiet_poll\<lparr>pe_result := 1, pe_in := True, pe_recv := (\<lambda>fd n. RecvFailed EAGAIN)\<rparr>
   in \<exists>c0 c1 c2 s1 s2 answer. integration_start Resume_fail_handshake (\<lambda>fd cmd w. (0, w)) (transport_with [7])
        \<lparr>conn_state = PW_STATE_CLOSED\<rparr> 5 () = Some c0 \<and>
      passing_session Resume_fail_handshake [flush quiet_poll] c0 = Some c1 \<and>
      turn thread_session quiet_poll (unsent (se_tr c0)) s = Some (answer, s1) \<and>
      turn (passing_session Resume_fail_handshake) quiet_poll answer c1 = Some (bare_bytes PW_OPCODE_CLOSE, c2) \<and>
      thread_session [bring (bare_bytes PW_OPCODE_CLOSE) quiet_poll] s1 = Some s2 \<and>
      stuck Resume_fail_handshake (state_of c2) \<and>
      (\<forall>n. \<exists>tc. integration_session Resume_fail_handshake (replicate n ev) c2 = Some (Inr (False, c2\<lparr>se_tr := tc\<rparr>)))"
proof -
  define s where "s = \<lparr>se_conn = \<lparr>conn_state = PW_STATE_HANDSHAKING\<rparr>, se_tr = transport_with []\<rparr>"
  define ev where "ev = quiet_poll\<lparr>pe_result := 1, pe_in := True, pe_recv := (\<lambda>fd n. RecvFailed EAGAIN)\<rparr>"
  have "length (tr_read_buffer (transport_with [7])) = 4096" "length (tr_write_buffer (transport_with [7])) = 4096"
    by (simp_all add: transport_with_def)
  moreover have "state_of s = PW_STATE_HANDSHAKING" "idle (se_tr s)" "hello_junk quiet_poll"
    by (simp_all add: s_def idle_def hello_junk_def quiet_poll_def)
  moreover have "Resume_fail_handshake \<noteq> Valid_handshake" "(0 :: int) \<le> 5" by simp_all
  ultimately obtain c0 c1 c2 s1 s2 answer where
    r: "integration_start Resume_fail_handshake (\<lambda>fd cmd w. (0, w)) (transport_with [7]) \<lparr>conn_state = PW_STATE_CLOSED\<rparr> 5 () = Some c0"
      "passing_session Resume_fail_handshake [flush quiet_poll] c0 = Some c1"
      "turn thread_session quiet_poll (unsent (se_tr c0)) s = Some (answer, s1)"
      "turn (passing_session Resume_fail_handshake) quiet_poll answer c1 = Some (parting Resume_fail_handshake, c2)"
      "if parting Resume_fail_handshake = [] then s2 = s1
       else thread_session [bring (parting Resume_fail_handshake) quiet_poll] s1 = Some s2"
      "stuck Resume_fail_handshake (state_of c2)"
    and hang: "\<forall>evs evs'. (\<forall>ev \<in> set evs \<union> set evs'. nothing_comes ev) \<longrightarrow>
      (\<exists>tc ts. tr_write_len tc = 0 \<and> tr_write_len ts = 0 \<and>
        integration_session Resume_fail_handshake evs c2 = Some (Inr (False, c2\<lparr>se_tr := tc\<rparr>)) \<and>
        (\<forall>evs''. thread_session (evs' @ evs'') s2 = thread_session evs'' (s2\<lparr>se_tr := ts\<rparr>)))"
    using other_tests_hang [of Resume_fail_handshake "transport_with [7]" 5 s quiet_poll "\<lambda>fd cmd w. (0, w)"
        "\<lparr>conn_state = PW_STATE_CLOSED\<rparr>" "()"] by blast
  have "nothing_comes ev" by (simp add: ev_def nothing_comes_def hello_junk_def quiet_poll_def)
  then have "\<exists>tc. integration_session Resume_fail_handshake (replicate n ev) c2 = Some (Inr (False, c2\<lparr>se_tr := tc\<rparr>))" for n
    using hang [rule_format, of "replicate n ev" "[]"] by auto
  moreover have p: "parting Resume_fail_handshake = bare_bytes PW_OPCODE_CLOSE" "bare_bytes PW_OPCODE_CLOSE \<noteq> []"
    by (simp_all add: parting_def)
  ultimately show ?thesis using r unfolding s_def [symmetric] ev_def [symmetric] Let_def p(1) if_not_P [OF p(2)] by blast
qed

end
