(* ===== verification/PW_Tests.thy ===== *)
theory PW_Tests
  imports PW_Frame PW_Handshake PW_Auth PW_Flow PW_Heartbeat PW_Connection PW_Transport
begin

text \<open>
  The unit tests of the modules, \<open>native/tests\<close>: each test is a function of the content of its
  uninitialised locals that answers whether all assertions hold, or \<open>None\<close> when it leaves an array.
  That every one of them passes, whatever the locals contain, checks the model against the expectations
  that come with the code.
\<close>

lemma at_front:
  "put_bytes buf 0 bs = bs @ drop (length bs) buf"
  "n \<le> length bs \<Longrightarrow> bytes_at (bs @ rest) 0 n = take n bs"
  by (simp_all add: put_bytes_def bytes_at_def)

section \<open>Frames and varints\<close>

definition test_varint :: "byte list \<Rightarrow> u32 \<Rightarrow> bool option" where
  "test_varint buffer decoded = do {
     (written, buffer) \<leftarrow> pw_varint_encode32 300 buffer 0;
     (read, decoded) \<leftarrow> pw_varint_decode32 buffer 0 written decoded;
     (n, decoded') \<leftarrow> pw_varint_decode32 [0xFF, 0xFF, 0xFF, 0xFF, 0x10] 0 5 decoded;
     Some (0 < written \<and> read = written \<and> decoded = 300 \<and> n = 0)
   }"

definition test_frame_serialize_parse :: "pw_frame \<Rightarrow> byte list \<Rightarrow> pw_frame \<Rightarrow> bool option" where
  "test_frame_serialize_parse frame buffer parsed_frame = do {
     let frame = frame\<lparr>fr_version := PW_VERSION_1, fr_flags := PW_FLAG_FIN,
       fr_opcode := opcode_byte PW_OPCODE_DATA_BINARY, fr_stream_id := 42, fr_length := 1024\<rparr>;
     (written, buffer) \<leftarrow> pw_frame_serialize_header frame buffer 0 64;
     (read, parsed) \<leftarrow> pw_frame_parse_header buffer 0 written parsed_frame;
     (n, parsed') \<leftarrow> pw_frame_parse_header buffer 0 (written - 1) parsed;
     buffer \<leftarrow> wr buffer 0 0x00;
     (m, parsed'') \<leftarrow> pw_frame_parse_header buffer 0 written parsed';
     Some (0 < written \<and> read = written \<and> fr_flags parsed = PW_FLAG_FIN \<and>
       fr_opcode parsed = opcode_byte PW_OPCODE_DATA_BINARY \<and> fr_stream_id parsed = 42 \<and> fr_length parsed = 1024 \<and>
       fst (fr_magic parsed) = PW_MAGIC_BYTE_1 \<and> snd (fr_magic parsed) = PW_MAGIC_BYTE_2 \<and>
       fr_version parsed = PW_VERSION_1 \<and> n = 0 \<and> m = SIZE_MAX)
   }"

lemma test_varint_passes:
  assumes "length buffer = 10"
  shows "test_varint buffer decoded = Some True"
proof -
  have e: "varint_bytes 300 = [0xAC, 0x02]" by (simp add: varint_bytes.simps)
  have d: "varint_dec [0xAC, 0x02] out = (2, 300)" for out using varint_dec_bytes [of 300 "[]" out] by (simp add: e)
  have o: "varint_dec [0xFF, 0xFF, 0xFF, 0xFF, 0x10] out = (0, out)" for out by (simp add: varint_dec_def)
  show ?thesis
    using assms d o at_front(2) [of 2 "[0xAC, 0x02]" "drop 2 buffer"] at_front(2) [of 5 "[0xFF, 0xFF, 0xFF, 0xFF, 0x10 :: byte]" "[]"]
    by (simp add: test_varint_def pw_varint_encode32_bytes pw_varint_decode32_bytes at_front(1) e numeral_2_eq_2)
qed

lemma test_frame_passes:
  assumes "length buffer = 64"
  shows "test_frame_serialize_parse frame buffer parsed_frame = Some True"
proof -
  define f where "f = frame\<lparr>fr_version := PW_VERSION_1, fr_flags := PW_FLAG_FIN,
    fr_opcode := opcode_byte PW_OPCODE_DATA_BINARY, fr_stream_id := 42, fr_length := 1024\<rparr>"
  have h: "frame_header_bytes f = [0x50, 0x57, 1, 0x10, opcode_byte PW_OPCODE_DATA_BINARY, 42, 0x80, 8]"
    by (simp add: f_def frame_header_bytes_def varint_bytes.simps word_le_nat_alt)
  let ?b = "frame_header_bytes f @ drop 8 buffer"
  have l: "length (frame_header_bytes f) = 8" by (simp add: h)
  have s: "pw_frame_serialize_header f buffer 0 64 = Some (8, ?b)"
    using assms by (simp add: pw_frame_serialize_header_bytes at_front(1) l)
  have p: "pw_frame_parse_header ?b 0 8 out = Some (8, frame_received f out)" for out
    using assms frame_dec_header_bytes [of f "[]" out] at_front(2) [of 8 "frame_header_bytes f" "drop 8 buffer"]
    by (simp add: pw_frame_parse_header_dec h)
  have q: "\<exists>g. pw_frame_parse_header ?b 0 7 out = Some (0, g)" for out
    using assms frame_dec_truncated [of 7 f out] at_front(2) [of 7 "frame_header_bytes f" "drop 8 buffer"]
    by (cases "frame_dec (take 7 (frame_header_bytes f)) out") (simp add: pw_frame_parse_header_dec h)
  let ?z = "0 # tl (frame_header_bytes f) @ drop 8 buffer"
  have z: "wr ?b 0 0 = Some ?z" by (simp add: h wr_def)
  have m: "\<exists>g. pw_frame_parse_header ?z 0 8 out = Some (SIZE_MAX, g)" for out
    using assms at_front(2) [of 8 "0 # tl (frame_header_bytes f)" "drop 8 buffer"]
    by (simp add: pw_frame_parse_header_dec h) (simp add: frame_dec_def Let_def)
  obtain g where g: "pw_frame_parse_header ?b 0 7 (frame_received f parsed_frame) = Some (0, g)" using q by blast
  obtain g' where g': "pw_frame_parse_header ?z 0 8 g = Some (SIZE_MAX, g')" using m by blast
  have r: "fr_flags (frame_received f parsed_frame) = PW_FLAG_FIN" "fr_version (frame_received f parsed_frame) = PW_VERSION_1"
    "fr_opcode (frame_received f parsed_frame) = opcode_byte PW_OPCODE_DATA_BINARY" "fr_stream_id (frame_received f parsed_frame) = 42"
    "fr_length (frame_received f parsed_frame) = 1024" "fr_magic (frame_received f parsed_frame) = (PW_MAGIC_BYTE_1, PW_MAGIC_BYTE_2)"
    by (simp_all add: frame_received_def f_def)
  show ?thesis
    unfolding test_frame_serialize_parse_def Let_def f_def [symmetric]
    by (simp only: s p g z g' Option.bind.bind_lunit prod.case diff_Suc_Suc) (simp add: p g z g' r)
qed

section \<open>Hello messages\<close>

definition test_client_hello :: "byte list \<Rightarrow> pw_client_hello \<Rightarrow> bool option" where
  "test_client_hello buffer parsed = do {
     let hello = \<lparr>ch_magic = (PW_MAGIC_BYTE_1, PW_MAGIC_BYTE_2), ch_version = PW_VERSION_1,
       ch_capabilities = PW_CAP_MULTIPLEXING OR PW_CAP_AUTH_BEARER, ch_client_nonce = replicate PW_NONCE_SIZE 0xAA,
       ch_has_resume_token = True, ch_resume_session_id = replicate PW_SESSION_ID_SIZE 0xDD\<rparr>;
     (written, buffer) \<leftarrow> pw_handshake_serialize_client_hello hello buffer 0 128;
     (read, parsed) \<leftarrow> pw_handshake_parse_client_hello buffer 0 written parsed;
     let hello' = hello\<lparr>ch_has_resume_token := False\<rparr>;
     (written', buffer) \<leftarrow> pw_handshake_serialize_client_hello hello' buffer 0 128;
     (read', parsed') \<leftarrow> pw_handshake_parse_client_hello buffer 0 written' parsed;
     Some (0 < written \<and> read = written \<and>
       ch_magic parsed = (PW_MAGIC_BYTE_1, PW_MAGIC_BYTE_2) \<and> ch_version parsed = PW_VERSION_1 \<and>
       ch_capabilities parsed AND PW_CAP_MULTIPLEXING \<noteq> 0 \<and> ch_capabilities parsed AND PW_CAP_AUTH_BEARER \<noteq> 0 \<and>
       ch_capabilities parsed AND PW_CAP_RESUME \<noteq> 0 \<and> ch_client_nonce parsed = ch_client_nonce hello \<and>
       ch_has_resume_token parsed \<and> ch_resume_session_id parsed = ch_resume_session_id hello \<and>
       read' = written' \<and> \<not> ch_has_resume_token parsed' \<and> ch_capabilities parsed' AND PW_CAP_RESUME = 0 \<and>
       ch_version parsed' = PW_VERSION_1)
   }"

definition test_server_hello :: "byte list \<Rightarrow> pw_server_hello \<Rightarrow> bool option" where
  "test_server_hello buffer parsed = do {
     let hello = \<lparr>sh_magic = (PW_MAGIC_BYTE_1, PW_MAGIC_BYTE_2), sh_version = PW_VERSION_1,
       sh_capabilities = PW_CAP_MULTIPLEXING, sh_server_nonce = replicate PW_NONCE_SIZE 0xBB,
       sh_session_id = replicate PW_SESSION_ID_SIZE 0xCC, sh_status = 0, sh_resume_accepted = True\<rparr>;
     (written, buffer) \<leftarrow> pw_handshake_serialize_server_hello hello buffer 0 64;
     (read, parsed) \<leftarrow> pw_handshake_parse_server_hello buffer 0 written parsed;
     Some (0 < written \<and> read = written \<and> fst (sh_magic parsed) = PW_MAGIC_BYTE_1 \<and>
       sh_version parsed = PW_VERSION_1 \<and> sh_capabilities parsed = PW_CAP_MULTIPLEXING \<and> sh_status parsed = 0 \<and>
       sh_resume_accepted parsed \<and> sh_server_nonce parsed = sh_server_nonce hello \<and>
       sh_session_id parsed = sh_session_id hello)
   }"

lemma test_client_hello_passes:
  assumes "length buffer = 128" and "client_hello_wf parsed"
  shows "test_client_hello buffer parsed = Some True"
proof -
  define h where "h = \<lparr>ch_magic = (PW_MAGIC_BYTE_1, PW_MAGIC_BYTE_2), ch_version = PW_VERSION_1,
       ch_capabilities = PW_CAP_MULTIPLEXING OR PW_CAP_AUTH_BEARER, ch_client_nonce = replicate PW_NONCE_SIZE 0xAA,
       ch_has_resume_token = True, ch_resume_session_id = replicate PW_SESSION_ID_SIZE 0xDD\<rparr>"
  define h' where "h' = h\<lparr>ch_has_resume_token := False\<rparr>"
  have wf: "client_hello_wf h" "client_hello_wf h'" by (simp_all add: h_def h'_def client_hello_wf_def)
  have l: "length (client_hello_bytes h) = 40" "length (client_hello_bytes h') = 24"
    using length_client_hello_bytes [OF wf(1)] length_client_hello_bytes [OF wf(2)] by (simp_all add: h_def h'_def)
  let ?b = "client_hello_bytes h @ drop 40 buffer"
  let ?b' = "client_hello_bytes h' @ drop 24 ?b"
  have s: "pw_handshake_serialize_client_hello h buffer 0 128 = Some (40, ?b)"
    using assms(1) l by (simp add: serialize_client_hello_bytes wf at_front(1))
  have p: "pw_handshake_parse_client_hello ?b 0 40 parsed = Some (40, client_hello_received h parsed)"
    using assms l client_hello_dec_bytes [OF wf(1), of "[]"] by (simp add: parse_client_hello_dec at_front(2))
  have s': "pw_handshake_serialize_client_hello h' ?b 0 128 = Some (24, ?b')"
    using assms(1) l serialize_client_hello_bytes [of 0 128 ?b h', OF _ wf(2)] by (simp add: at_front(1))
  have wr: "client_hello_wf (client_hello_received h parsed)" using wf by (simp add: client_hello_received_def client_hello_wf_def h_def)
  have p': "pw_handshake_parse_client_hello ?b' 0 24 (client_hello_received h parsed) =
      Some (24, client_hello_received h' (client_hello_received h parsed))"
    using assms l client_hello_dec_bytes [OF wf(2), of "[]"] wr by (simp add: parse_client_hello_dec at_front(2))
  show ?thesis
    unfolding test_client_hello_def Let_def h_def [symmetric] h'_def [symmetric]
    by (simp only: s p s' p' Option.bind.bind_lunit prod.case)
      (simp add: client_hello_received_def client_hello_caps_def h_def h'_def)
qed

lemma test_server_hello_passes:
  assumes "length buffer = 64" and "server_hello_wf parsed"
  shows "test_server_hello buffer parsed = Some True"
proof -
  define h where "h = \<lparr>sh_magic = (PW_MAGIC_BYTE_1, PW_MAGIC_BYTE_2), sh_version = PW_VERSION_1,
       sh_capabilities = PW_CAP_MULTIPLEXING, sh_server_nonce = replicate PW_NONCE_SIZE 0xBB,
       sh_session_id = replicate PW_SESSION_ID_SIZE 0xCC, sh_status = 0, sh_resume_accepted = True\<rparr>"
  have wf: "server_hello_wf h" by (simp add: h_def server_hello_wf_def)
  note l = length_server_hello_bytes [OF wf]
  let ?b = "server_hello_bytes h @ drop 42 buffer"
  have s: "pw_handshake_serialize_server_hello h buffer 0 64 = Some (42, ?b)"
    using assms(1) l by (simp add: serialize_server_hello_bytes wf at_front(1))
  have p: "pw_handshake_parse_server_hello ?b 0 42 parsed = Some (42, h)"
    using assms l server_hello_dec_bytes [OF wf, of "[]"] by (simp add: parse_server_hello_dec at_front(2))
  show ?thesis
    unfolding test_server_hello_def Let_def h_def [symmetric]
    by (simp only: s p Option.bind.bind_lunit prod.case) (simp add: h_def)
qed

section \<open>Authentication\<close>

text \<open>The token \<open>super_secret_token_123\<close> of the test, and a wrong one, as strings with their zero.\<close>

definition test_token :: "byte list" where
  "test_token = [0x73, 0x75, 0x70, 0x65, 0x72, 0x5F, 0x73, 0x65, 0x63, 0x72, 0x65, 0x74, 0x5F, 0x74, 0x6F, 0x6B, 0x65,
     0x6E, 0x5F, 0x31, 0x32, 0x33]"

definition wrong_token :: "byte list" where
  "wrong_token = [0x77, 0x72, 0x6F, 0x6E, 0x67, 0x5F, 0x74, 0x6F, 0x6B, 0x65, 0x6E]"

definition test_auth_bearer :: "byte list \<Rightarrow> pw_auth_request \<Rightarrow> bool option" where
  "test_auth_bearer buffer parsed = do {
     len \<leftarrow> c_strlen (test_token @ [0]);
     let req = \<lparr>ar_method = PW_AUTH_METHOD_BEARER, ar_token_len = of_nat len, ar_token = Some (test_token @ [0], 0)\<rparr>;
     (written, buffer) \<leftarrow> pw_auth_serialize_request req buffer 0 128;
     (read, parsed) \<leftarrow> pw_auth_parse_request buffer 0 written parsed;
     (src, s) \<leftarrow> ar_token parsed;
     ok \<leftarrow> pw_auth_validate_bearer (Some parsed) (Some (test_token @ [0]));
     wrong \<leftarrow> pw_auth_validate_bearer (Some parsed) (Some (wrong_token @ [0]));
     Some (0 < written \<and> read = written \<and> ar_method parsed = PW_AUTH_METHOD_BEARER \<and>
       unat (ar_token_len parsed) = len \<and> bytes_at src s (unat (ar_token_len parsed)) = test_token \<and> ok \<and> \<not> wrong)
   }"

lemma test_auth_passes:
  assumes "length buffer = 128"
  shows "test_auth_bearer buffer parsed = Some True"
proof -
  have t: "0 \<notin> set test_token" "length test_token = 22" "0 \<notin> set wrong_token" "length wrong_token = 11"
    by (simp_all add: test_token_def wrong_token_def)
  have n: "c_strlen (test_token @ [0]) = Some 22" using c_strlen_terminated [OF t(1), of "[]"] t(2) by simp
  let ?a = "auth_bytes (PW_AUTH_METHOD_BEARER, test_token)"
  let ?req = "\<lparr>ar_method = PW_AUTH_METHOD_BEARER, ar_token_len = of_nat 22, ar_token = Some (test_token @ [0], 0)\<rparr>"
  let ?b = "?a @ drop 27 buffer"
  have la: "length ?a = 27" by (simp add: length_auth_bytes t)
  have "bytes_at (test_token @ [0]) 0 22 = test_token" using at_front(2) [of 22 test_token "[0]"] t by simp
  then have s: "pw_auth_serialize_request ?req buffer 0 128 = Some (27, ?b)"
    using assms t la by (subst serialize_request_bytes [where src = "test_token @ [0]" and s = 0])
      (simp_all add: Let_def at_front(1))
  let ?r = "parsed\<lparr>ar_method := 1, ar_token_len := 22, ar_token := Some (?b, 5)\<rparr>"
  have u: "u32_of_be (bytes_at ?a 1 4) = 22" "?a ! 0 = 1"
    using u32_of_be_be [of 22 "[]"] t by (simp_all add: auth_bytes_def bytes_at_def)
  have p: "pw_auth_parse_request ?b 0 27 parsed = Some (27, ?r)"
    using assms la u at_front(2) [of 27 ?a "drop 27 buffer"] by (simp add: parse_request_dec Let_def)
  have tok: "bytes_at ?b 5 22 = test_token"
    using bytes_at_appended [of 5 "1 # u32_be 22" 22 test_token "drop 27 buffer"] t by (simp add: auth_bytes_def)
  have v: "pw_auth_validate_bearer (Some ?r) (Some (test_token @ [0])) = Some True"
    "pw_auth_validate_bearer (Some ?r) (Some (wrong_token @ [0])) = Some False"
    using assms la tok t validate_bearer_exact [of test_token 5 ?r ?b "[]"] validate_bearer_exact [of wrong_token 5 ?r ?b "[]"]
    by (auto simp: test_token_def wrong_token_def)
  show ?thesis
    unfolding test_auth_bearer_def Let_def n Option.bind.bind_lunit s prod.case p
    by (simp add: v [simplified] tok [simplified])
qed

section \<open>Connection, flow control, heartbeat and transport\<close>

text \<open>The requested states one after the other, with the answers and the state after each.\<close>

fun transitions :: "pw_connection option \<Rightarrow> pw_connection_state list \<Rightarrow> (bool \<times> pw_connection_state option) list" where
  "transitions conn [] = []"
| "transitions conn (s # ss) =
     (case pw_connection_transition conn s of (ok, conn) \<Rightarrow> (ok, map_option conn_state conn) # transitions conn ss)"

definition test_valid_transitions :: "pw_connection \<Rightarrow> bool" where
  "test_valid_transitions conn =
     (let conn = pw_connection_init (Some conn);
          path = [PW_STATE_CONNECTING, PW_STATE_HANDSHAKING, PW_STATE_AUTHENTICATING, PW_STATE_READY, PW_STATE_CLOSING,
            PW_STATE_CLOSED]
      in map_option conn_state conn = Some PW_STATE_DISCONNECTED \<and>
         transitions conn path = map (\<lambda>s. (True, Some s)) path)"

definition test_invalid_transitions :: "pw_connection \<Rightarrow> bool" where
  "test_invalid_transitions conn =
     (transitions (pw_connection_init (Some conn)) [PW_STATE_READY, PW_STATE_CONNECTING, PW_STATE_READY] =
      [(False, Some PW_STATE_DISCONNECTED), (True, Some PW_STATE_CONNECTING), (False, Some PW_STATE_CONNECTING)])"

definition test_flow_control :: "pw_flow_control \<Rightarrow> bool" where
  "test_flow_control flow =
     (let flow1 = pw_flow_init (Some flow) 1024 2048;
          flow2 = pw_flow_on_enqueued flow1 500;
          flow3 = pw_flow_on_sent flow2 200;
          flow4 = pw_flow_on_received flow3 1000;
          flow5 = pw_flow_on_consumed flow4 500
      in pw_flow_can_send flow1 500 \<and> \<not> pw_flow_can_send flow2 600 \<and> pw_flow_can_send flow3 600 \<and>
         pw_flow_can_receive flow3 1000 \<and> \<not> pw_flow_can_receive flow4 1500 \<and> pw_flow_can_receive flow5 1500)"

definition test_heartbeat :: "pw_heartbeat \<Rightarrow> bool" where
  "test_heartbeat hb =
     (let t = 1000;
          hb1 = pw_heartbeat_on_send (pw_heartbeat_on_recv (pw_heartbeat_init (Some hb) 5000 15000) t) t;
          hb2 = pw_heartbeat_on_ping_sent hb1 (t + 6000);
          hb3 = pw_heartbeat_on_pong hb2 (t + 6500);
          t' = 7500;
          hb4 = pw_heartbeat_on_recv hb3 t'
      in \<not> pw_heartbeat_should_ping hb1 (t + 3000) \<and> \<not> pw_heartbeat_is_timed_out hb1 (t + 3000) \<and>
         pw_heartbeat_should_ping hb1 (t + 6000) \<and> \<not> pw_heartbeat_is_timed_out hb1 (t + 6000) \<and>
         map_option waiting_for_pong hb2 = Some True \<and> \<not> pw_heartbeat_should_ping hb2 (t + 7000) \<and>
         map_option waiting_for_pong hb3 = Some False \<and>
         \<not> pw_heartbeat_is_timed_out hb4 (t' + 14999) \<and> pw_heartbeat_is_timed_out hb4 (t' + 15000))"

definition test_transport_init :: "(int \<Rightarrow> fcntl_cmd \<Rightarrow> 'w \<Rightarrow> int \<times> 'w) \<Rightarrow> pw_transport \<Rightarrow> 'w \<Rightarrow> bool" where
  "test_transport_init fcntl transport w =
     (case fst (pw_transport_init fcntl (Some transport) (-1) w) of
        None \<Rightarrow> False
      | Some tr \<Rightarrow> tr_fd tr = -1 \<and> tr_read_pos tr = 0 \<and> tr_read_len tr = 0 \<and> tr_write_pos tr = 0 \<and> tr_write_len tr = 0)"

lemma test_transitions_pass: "test_valid_transitions conn" "test_invalid_transitions conn"
  by (simp_all add: test_valid_transitions_def test_invalid_transitions_def pw_connection_init_def
      pw_connection_transition_def transition_valid_def Let_def)

lemma test_flow_control_passes: "test_flow_control flow"
  by (simp add: test_flow_control_def pw_flow_init_def pw_flow_can_send_def pw_flow_on_enqueued_def pw_flow_on_sent_def
      pw_flow_can_receive_def pw_flow_on_received_def pw_flow_on_consumed_def Let_def)

lemma test_heartbeat_passes: "test_heartbeat hb"
  by (simp add: test_heartbeat_def pw_heartbeat_init_def pw_heartbeat_on_recv_def pw_heartbeat_on_send_def
      pw_heartbeat_should_ping_def pw_heartbeat_is_timed_out_def pw_heartbeat_on_ping_sent_def pw_heartbeat_on_pong_def Let_def)

lemma test_transport_init_passes: "test_transport_init fcntl transport w"
  by (simp add: test_transport_init_def pw_transport_init_def)

end
