(* ===== verification/Spec2Isabelle.thy ===== *)
theory Spec2Isabelle
  imports Main PW_Flow PW_Heartbeat PW_Log PW_Stream PW_StreamWire PW_PhpClient PW_Output PW_Main PW_Conversation PW_Integration_Run PW_Tests
begin

text \<open>
  PhoenixWire: a verification library for the native core of the repository.

  PhoenixWire is a binary message protocol over TCP. The native core in \<open>native/src\<close> and
  \<open>native/include\<close> consists of small C modules without allocation: codecs that read and write
  caller-supplied buffers, a connection state machine, a buffered transport over a non-blocking
  socket, counters for flow control and heartbeat, a log, and two programs, the daemon
  \<open>server_main.c\<close> and the client \<open>client_main.c\<close>, which put them together in a loop around \<open>poll\<close>. A PHP
  extension in \<open>extension/src\<close> uses the connection and the transport. A client in PHP,
  \<open>php/src/PhoenixWire/StreamClient.php\<close>, has a second implementation of the protocol; the other classes there
  are a server's registry of sessions and clients around the extension.

  Conventions. A pointer into an array is the array and an index; all reads, writes, \<open>memcpy\<close>
  and \<open>memcmp\<close> are checked, and \<open>None\<close> stands for an access out of bounds, so \<open>Some\<close> in a conclusion
  is memory safety (PW_Prelude). \<open>uint8_t\<close>, \<open>uint16_t\<close>, \<open>uint32_t\<close> and \<open>uint64_t\<close> are words and wrap;
  \<open>size_t\<close> is a natural number, with \<open>size_add\<close> and \<open>size_sub\<close> where the code's arithmetic can pass
  \<open>2 ^ 64\<close> or 0. A structure is a record, a parameter that may be \<open>NULL\<close> is an option, an uninitialised
  local is a parameter, so that theorems hold for every content of the stack. The system calls
  \<open>fcntl\<close>, \<open>recv\<close> and \<open>send\<close> and the events of \<open>poll\<close> are parameters; of them is assumed, where it is
  needed, that \<open>recv\<close> delivers at most the room it is given (\<open>recv_ok\<close>) and that \<open>send\<close> takes at most
  the bytes it is offered (\<open>send_ok\<close>). Loops are recursive functions with termination proofs: the varint
  loops by the value and by the five bytes, the inner loop of the programs by the number of unread bytes.
  The outer loop of a program runs over the list of the rounds that \<open>poll\<close> brings; no fuel is used.

  Theories and sources.

    PW_Protocol: \<open>phoenixwire.h\<close>, the constants, states, opcodes and the frame structure.

    PW_Varint: \<open>pw_varint.c\<close>, base-128 integers. Exact description of what is accepted, round trip,
    least size.

    PW_Codec: the interface of a wire format, the locales \<open>codec\<close> and \<open>framed_codec\<close>: what encodings
    and decoders promise, and that streams of messages decode uniquely.

    PW_Frame: \<open>pw_frame.c\<close>, the frame header; interpretation of \<open>framed_codec\<close>.

    PW_Handshake: \<open>pw_handshake.c\<close>, the hello messages; two interpretations of \<open>codec\<close>.

    PW_Auth: \<open>pw_auth.c\<close>, the bearer request and its validation; interpretation of \<open>codec\<close>.

    PW_Flow: \<open>pw_flow.c\<close>, byte windows; the locale \<open>window\<close>, interpreted for both directions.

    PW_Heartbeat: \<open>pw_heartbeat.c\<close>.

    PW_Connection: \<open>pw_connection.c\<close>; the step relation \<open>lifecycle\<close> is the specification, the locale
    \<open>lifecycle_machine\<close> the contract, interpreted on the code.

    PW_Transport: \<open>pw_transport.c\<close>; the locale \<open>byte_queue\<close>, interpreted on the read side.

    PW_Log: \<open>pw_log.c\<close>.

    PW_Session: what the loops of \<open>server_main.c\<close> and \<open>client_main.c\<close> share.

    PW_Pipeline: many frames at once; the locale \<open>pipeline\<close> is the contract of an inner loop that answers them.

    PW_Server, PW_Client: the sessions of the two programs, branch by branch, their inner loop, a round
    of \<open>poll\<close> and the outer loop.

    PW_Run: the runs of a program, cut into moves and paths; the locale \<open>read_loop\<close> is the contract of the
    inner loop, \<open>poll_program\<close> extends it to the contract of a program.

    PW_Server_Run, PW_Client_Run: the interpretations of both locales on the two programs, the exact
    conditions under which a turn leaves an array, and what follows for whole sessions.

    PW_Dialogue: the two programs talking to each other; the locale \<open>speaker\<close> and its interpretations.

    PW_Network: the two programs on a network that delays and cuts the bytes of both directions, as a
    transition relation; the locale \<open>conversant\<close> is the contract of a program that takes part.

    PW_Conversation: the conversation of the two programs on that network, with its invariant \<open>under_way\<close>.

    PW_Stream: a stream of frames that reaches a ready program in pieces; the locale \<open>stream_program\<close> extends
    \<open>pipeline\<close>, with server, client and the thread of the integration tests as interpretations.

    PW_Output: the lines that the sessions print; the locale \<open>reporter\<close> is the contract of a program that
    prints, \<open>narrator\<close> that of one that also takes part in a dialogue.

    PW_Main: the \<open>main\<close> functions around the sessions, the set-up of the sockets and the accept loop.

    PW_Extension: \<open>phoenixwire.c\<close>, the object of the PHP class and its methods.

    PW_Module: \<open>phoenixwire.c\<close>, what the extension tells the engine: methods, argument descriptions, classes,
    constants, module entry.

    PW_StreamClient: \<open>StreamClient.php\<close>, its own codec and handshake; exceptions are values, packets a list.

    PW_StreamWire: that client against the native codec and the native server; the locale \<open>php_reader\<close> is the
    contract of its reading operations.

    PW_PhpServer: \<open>Server.php\<close>, \<open>Session.php\<close>, \<open>Stats.php\<close>; a heap of sessions and the registry with its quota.

    PW_PhpClient: \<open>ClientOptions.php\<close>, \<open>ClientFactory.php\<close> and \<open>AsyncClient.php\<close> on the class that PW_Module
    registers, and \<open>Client.php\<close>, the class of that name without the extension. Times are reals; what is proved of the delays
    between attempts holds for any rounding with the relative error of doubles (\<open>double_arith\<close>).

    PW_Tests: the unit tests of \<open>native/tests\<close> as functions on the models, each proved to pass.

    PW_Integration: \<open>native/tests/test_integration.c\<close>, the test functions with their assertions as failures, and the
    thread that serves them; that the tests pass vacuously.

    PW_Integration_Run: the tests against a thread whose session runs; both are interpretations of \<open>speaker\<close>.

  What the lemmas show. The codecs are proved equal to reference functions on byte strings
  (\<open>varint_bytes\<close>, \<open>frame_header_bytes\<close>, \<open>client_hello_bytes\<close>, \<open>server_hello_bytes\<close>, \<open>auth_bytes\<close> and their decoders),
  from which round trips, treatment of incomplete input and memory safety follow. The transport is
  proved to be a queue in each direction under the invariant \<open>transport_ok\<close>, which a partial write followed
  by a reply breaks; its two halves \<open>reading_ok\<close> and \<open>writing_ok\<close> make up the invariant \<open>session_inv\<close>, which
  holds along every path of both programs. Every turn of the programs is proved to leave an array exactly under
  the conditions \<open>server_oob\<close> and \<open>client_oob\<close>. For whole sessions it is proved that no server session is
  authenticated unless the token was among the bytes it received; that with writes that are taken whole and a
  harmless stack a session without the token stays in bounds; that a client leaves an array only on text of
  128 bytes or more or with wrong magic; that a ready server answers a stream of frames, however it is cut,
  with exactly the replies, and a ready client with a PING for each text; that it closes in order. The whole dialogue of client and server is proved below
  for messages that arrive in one piece, with the bytes that are exchanged. On a network, where rounds
  come in any order and every \<open>recv\<close> and \<open>send\<close> may move any part of what it could, the states of the two
  programs go in step, neither leaves an array, and the conversation comes to its end once its 343 bytes
  have been moved. The client program is proved to come to its end with exactly the listed output, and
  the daemon to serve nobody. What a server prints is exact for a session in order whose messages have fewer than 128
  bytes and come one in a round, and without the token nothing that a client sends appears in it. The PHP client is proved to write the frames of the native
  codec and to read all of them from any packets. The registry of the PHP server keeps its quota whatever its
  callbacks do within it.

  The proofs also show where the code does not do what it means to. In PW_Server and PW_Main: the daemon
  asks for a transition the state machine refuses, so its session loop never runs (the other
  properties of the server start from the state HANDSHAKING that the code asks for); a rejected version or
  token does not close the session; wrong magic is taken for a frame and leads out of the buffer; payloads
  of more than 128 bytes overflow a local array; the end of the stream may be missed. In PW_Session: a
  reply queued after a partial write corrupts the stream. In PW_Client: the client takes a rejection for
  an acceptance, and it leaves its loop when its CLOSE is sent, without waiting for the CLOSE that the
  server answers. In PW_Auth, PW_Flow and PW_Heartbeat: sums of 32 and 64 bits wrap in the size check
  of the authentication request, in the guards of the windows and in the deadlines. In PW_Extension: an
  object cannot be connected again. In PW_StreamWire: the native server refuses the hello of the PHP
  client, the opcodes of all control frames differ, and a frame that arrives in two parts is lost. In
  PW_PhpClient: the constructor of the extension refuses the options that the library passes to it, and
  an attempt to reconnect is counted but not made; without the extension the constructor of \<open>Client\<close> never returns.
  In PW_Integration: the integration tests pass without reaching an assertion on an answer; with a thread that
  serves, one of them would pass and three would hang: nothing comes to either side any more, and both go on asking.

  Paths and moves. A path of a program may use each of the given rounds as often as it likes and in any
  order, so what is proved for all paths over the set of the rounds holds for the session over their list;
  the function \<open>heard\<close> gives the bytes that the session itself took from the system.

  Not modelled: the flushing of what is printed; the parts of the Zend engine that the extension calls: allocation and initialisation
  of the engine's half of an object, the conversion of arguments (a parameter), inheritance and the lookup of
  names regardless of case; thread-local caches of a threaded engine; a signal that a \<open>send\<close> to a closed
  peer may raise; the soak and chaos tests, which assert
  nothing, and the threads of the integration tests as such; in PHP the
  callback of messages, which nothing calls, and the tests; the tools and the documents.

  Open end: the exact stream of a program whose writes are partial and which replies before the rest is
  written; PW_Session says what each single reply does to what is unsent, not what a whole session sends.
\<close>

section \<open>Properties across components\<close>

text \<open>C11: The two programs complete their conversation: a client that has started and sent its hello, and a
  server session in HANDSHAKING, exchange hello and answer, the token and AUTH_OK, the data message and its
  echo, PING and PONG, all of them byte for byte as listed; then the client sends CLOSE and is CLOSED, and
  the server answers CLOSE and is CLOSED. This holds for every content of the uninitialised locals, when
  each message arrives in one piece and each write is taken whole.\<close>

theorem client_server_dialogue:
  assumes "length (tr_read_buffer jt) = 4096" and "length (tr_write_buffer jt) = 4096" and "0 \<le> sock"
    and "state_of s = PW_STATE_HANDSHAKING" and "idle (se_tr s)" and "hello_junk ev"
  shows "\<exists>c0 c1 c2 s1 s2. client_start fcntl jt jc sock w = Some c0 \<and> client_session [flush ev] c0 = Some c1 \<and>
    dialogue 4 ev (unsent (se_tr c0)) c1 s = Some (
      [(client_hello_bytes client_hello_sent, server_hello_bytes (hello_answer client_hello_sent)),
       (client_auth_message, frame_bytes PW_OPCODE_AUTH_OK),
       (frame_header_bytes client_data_frame @ client_msg, frame_header_bytes client_data_frame @ client_msg),
       (frame_bytes PW_OPCODE_PING, frame_bytes PW_OPCODE_PONG)],
      frame_bytes PW_OPCODE_CLOSE, c2, s1) \<and>
    state_of c2 = PW_STATE_CLOSED \<and> state_of s1 = PW_STATE_READY \<and>
    turn server_session ev (frame_bytes PW_OPCODE_CLOSE) s1 = Some (frame_bytes PW_OPCODE_CLOSE, s2) \<and>
    state_of s2 = PW_STATE_CLOSED"
proof -
  from client_start_ok [OF assms(1-3), of fcntl jc w] obtain c0 where
    c0: "client_start fcntl jt jc sock w = Some c0" "state_of c0 = PW_STATE_HANDSHAKING" "transport_ok (se_tr c0)"
      "tr_read_len (se_tr c0) = 0" "0 \<le> tr_fd (se_tr c0)" "unsent (se_tr c0) = client_hello_bytes client_hello_sent"
    by blast
  have "length (unsent (se_tr c0)) \<noteq> 0" unfolding c0(6) by (simp add: client_hello_bytes_def)
  then have l: "0 < tr_write_len (se_tr c0)" using c0(3) by simp
  have "open_session c0" using c0(2) by (simp add: open_session_def)
  from client.run_flush [OF this l] poll_write_flush [OF c0(3,5) l c0(4), of ev] c0(2) obtain t where
    c1: "client_session [flush ev] c0 = Some \<lparr>se_conn = se_conn c0, se_tr = t\<rparr>" "idle t"
    by (auto simp: closing_done_def)
  from dialogue_script [of "\<lparr>se_conn = se_conn c0, se_tr = t\<rparr>" s ev] c0(2) c1(2) assms(4-6) obtain c2 s1 where
    d: "dialogue 4 ev (client_hello_bytes client_hello_sent) \<lparr>se_conn = se_conn c0, se_tr = t\<rparr> s = Some (
      [(client_hello_bytes client_hello_sent, server_hello_bytes (hello_answer client_hello_sent)),
       (client_auth_message, frame_bytes PW_OPCODE_AUTH_OK),
       (frame_header_bytes client_data_frame @ client_msg, frame_header_bytes client_data_frame @ client_msg),
       (frame_bytes PW_OPCODE_PING, frame_bytes PW_OPCODE_PONG)],
      frame_bytes PW_OPCODE_CLOSE, c2, s1)"
    and st: "state_of c2 = PW_STATE_CLOSED" "state_of s1 = PW_STATE_READY" "idle (se_tr s1)"
    by auto
  have m: "is_message (frame_init PW_VERSION_1 PW_FLAG_FIN PW_OPCODE_CLOSE 0 0) []"
    "fr_opcode (frame_init PW_VERSION_1 PW_FLAG_FIN PW_OPCODE_CLOSE 0 0) = opcode_byte PW_OPCODE_CLOSE"
    by (simp_all add: is_message_def frame_init_def)
  from server_turn_close [OF st(2,3) m, of ev] obtain t2 where
    s2: "turn server_session ev (frame_bytes PW_OPCODE_CLOSE) s1 =
      Some (frame_bytes PW_OPCODE_CLOSE, \<lparr>se_conn = (se_conn s1)\<lparr>conn_state := PW_STATE_CLOSED\<rparr>, se_tr = t2\<rparr>)"
    by (auto simp: server_reply_def)
  show ?thesis
    by ((rule exI)+, intro conjI, rule c0(1), rule c1(1), (subst c0(6), rule d), rule st(1), rule st(2), rule s2) simp
qed

theorem client_server_dialogue_witness:
  "let s = \<lparr>se_conn = \<lparr>conn_state = PW_STATE_HANDSHAKING\<rparr>, se_tr = transport_with []\<rparr>
   in \<exists>c0 c1 c2 s1 s2 log. client_start (\<lambda>fd cmd w. (0, w)) (transport_with [7])
        \<lparr>conn_state = PW_STATE_CLOSED\<rparr> 5 () = Some c0 \<and>
      client_session [flush quiet_poll] c0 = Some c1 \<and>
      dialogue 4 quiet_poll (unsent (se_tr c0)) c1 s = Some (log, frame_bytes PW_OPCODE_CLOSE, c2, s1) \<and>
      length log = 4 \<and> state_of c2 = PW_STATE_CLOSED \<and>
      turn server_session quiet_poll (frame_bytes PW_OPCODE_CLOSE) s1 = Some (frame_bytes PW_OPCODE_CLOSE, s2) \<and>
      state_of s2 = PW_STATE_CLOSED"
proof -
  define s where "s = \<lparr>se_conn = \<lparr>conn_state = PW_STATE_HANDSHAKING\<rparr>, se_tr = transport_with []\<rparr>"
  have "length (tr_read_buffer (transport_with [7])) = 4096" "length (tr_write_buffer (transport_with [7])) = 4096"
    by (simp_all add: transport_with_def)
  moreover have "state_of s = PW_STATE_HANDSHAKING" "idle (se_tr s)" "hello_junk quiet_poll"
    by (simp_all add: s_def idle_def hello_junk_def quiet_poll_def)
  ultimately show ?thesis
    using client_server_dialogue [of "transport_with [7]" 5 s quiet_poll "\<lambda>fd cmd w. (0, w)"
        "\<lparr>conn_state = PW_STATE_CLOSED\<rparr>" "()"]
    unfolding s_def [symmetric] Let_def by force
qed

text \<open>C7: Both programs keep the invariant of their buffers over whole sessions: the buffers keep their size, the
  unread bytes lie within the one, length and position of the unsent bytes within the other, and the
  descriptor stays. And when a session leaves an array, it does so from a state with this invariant that it
  reaches over moves of its own, and for one of two reasons: the bytes that have arrived let a turn
  leave an array, under the exact condition for it, or a reply was queued behind a partial write so that
  position and length together pass the end of the buffer. This holds for all rounds, all contents of
  the stack, and every way in which reads and writes are cut.\<close>

theorem sessions_keep_invariant:
  assumes "session_inv se" and "\<forall>ev \<in> set evs. polite ev \<and> hello_junk ev"
  shows "(case server_session evs se of
      Some se' \<Rightarrow> session_inv se'
    | None \<Rightarrow> \<exists>ev \<in> set evs. \<exists>se1 bs cs. path server_step (set evs) se bs se1 \<and> heard server_round evs se = bs @ cs \<and>
        session_inv se1 \<and> (server_oob ev se1 \<or> 4096 < tr_write_pos (se_tr se1) + tr_write_len (se_tr se1))) \<and>
    (case client_session evs se of
      Some se' \<Rightarrow> session_inv se'
    | None \<Rightarrow> \<exists>ev \<in> set evs. \<exists>se1 bs cs. path client_step (set evs) se bs se1 \<and> heard client_round evs se = bs @ cs \<and>
        session_inv se1 \<and> (client_oob ev se1 \<or> 4096 < tr_write_pos (se_tr se1) + tr_write_len (se_tr se1)))"
proof -
  have p: "\<forall>ev \<in> set evs. polite ev" and j: "\<forall>ev \<in> set evs. hello_junk ev" using assms(2) by blast+
  have sf: "server_step ev se1 = None \<Longrightarrow> server_oob ev se1" if "ev \<in> set evs" "session_inv se1" for ev se1
    using server_step_fault [OF that(2)] j that(1) by (simp add: hello_junk_def)
  have cf: "client_step ev se1 = None \<Longrightarrow> client_oob ev se1" if "ev \<in> set evs" "session_inv se1" for ev se1
    using client_step_fault [OF that(2)] j that(1) by (simp add: hello_junk_def)
  show ?thesis
  proof
    show "case server_session evs se of
        Some se' \<Rightarrow> session_inv se'
      | None \<Rightarrow> \<exists>ev \<in> set evs. \<exists>se1 bs cs. path server_step (set evs) se bs se1 \<and> heard server_round evs se = bs @ cs \<and>
          session_inv se1 \<and> (server_oob ev se1 \<or> 4096 < tr_write_pos (se_tr se1) + tr_write_len (se_tr se1))"
    proof (cases "server_session evs se")
      case None
      from server_run.session_fault [OF None assms(1) p] sf None show ?thesis by fastforce
    qed (simp add: server_run.session_keeps_inv [OF _ assms(1) p])
    show "case client_session evs se of
        Some se' \<Rightarrow> session_inv se'
      | None \<Rightarrow> \<exists>ev \<in> set evs. \<exists>se1 bs cs. path client_step (set evs) se bs se1 \<and> heard client_round evs se = bs @ cs \<and>
          session_inv se1 \<and> (client_oob ev se1 \<or> 4096 < tr_write_pos (se_tr se1) + tr_write_len (se_tr se1))"
    proof (cases "client_session evs se")
      case None
      from client_run.session_fault [OF None assms(1) p] cf None show ?thesis by fastforce
    qed (simp add: client_run.session_keeps_inv [OF _ assms(1) p])
  qed
qed

theorem sessions_keep_invariant_witness:
  "let c = \<lparr>se_conn = \<lparr>conn_state = PW_STATE_READY\<rparr>, se_tr = transport_with []\<rparr>;
       evs = [bring [0x50, 0x57, 1] quiet_poll, flush quiet_poll]
   in session_inv c \<and>
      (case server_session evs c of
         Some se' \<Rightarrow> session_inv se'
       | None \<Rightarrow> \<exists>ev \<in> set evs. \<exists>se1. server_oob ev se1 \<or> 4096 < tr_write_pos (se_tr se1) + tr_write_len (se_tr se1))"
proof -
  define c where "c = \<lparr>se_conn = \<lparr>conn_state = PW_STATE_READY\<rparr>, se_tr = transport_with []\<rparr>"
  define evs where "evs = [bring [0x50, 0x57, 1] quiet_poll, flush quiet_poll]"
  have i: "session_inv c" by (simp add: c_def session_inv_def)
  have e: "\<forall>ev \<in> set evs. polite ev \<and> hello_junk ev"
    by (simp add: evs_def bring_def flush_def polite_def hello_junk_def recv_ok_def send_ok_def quiet_poll_def)
  from sessions_keep_invariant [OF i e] i show ?thesis
    unfolding c_def [symmetric] evs_def [symmetric] Let_def by (auto split: option.splits)
qed

end
